(* ===== verification/Go_Base.thy ===== *)
theory Go_Base
  imports Main "HOL-Library.Multiset" "HOL-Library.AList"
begin

text \<open>
  The prelude: what every component of the model shares.

  \<^item> \<open>run\<close>: a Go call that may panic. A Go function that returns an \<open>error\<close> has the
    result type \<open>'e + 'a\<close> (\<open>Inl\<close> for the error); one that may also panic has
    \<open>('e + 'a) run\<close>.
  \<^item> Go maps. A \<open>range\<close> loop over a map visits the keys in an order the language leaves open,
    so a map is an association list with distinct keys (\<open>wf_map\<close>): \<open>map_of\<close> is its content,
    the order of the list is the order in which one loop happens to visit it. What must not
    depend on that order is stated for any two lists with the same \<open>map_of\<close>.
  \<^item> the locale \<open>key_value\<close>, the contract of every keyed store of the program (headers,
    metadata, the plugin registry, HTTP headers).
\<close>

named_theorems go_defs \<open>definitions of the model that proofs unfold\<close>
named_theorems str_simps \<open>equations of the string library\<close>

subsection \<open>Calls that may panic\<close>

datatype panic =
    Index_Out_Of_Range int nat
  | Nil_Dereference
  | Uncomparable_Type
  | Explicit_Panic string

datatype 'a run = Ret 'a | Panics panic

fun bind_run :: "'a run \<Rightarrow> ('a \<Rightarrow> 'b run) \<Rightarrow> 'b run" where
  "bind_run (Ret x) f = f x"
| "bind_run (Panics p) f = Panics p"

fun map_run :: "('a \<Rightarrow> 'b) \<Rightarrow> 'a run \<Rightarrow> 'b run" where
  "map_run f (Ret x) = Ret (f x)"
| "map_run f (Panics p) = Panics p"

fun returns :: "'a run \<Rightarrow> bool" where
  "returns (Ret _) = True"
| "returns (Panics _) = False"

lemma bind_run_Ret_iff:
  "bind_run m f = Ret y \<longleftrightarrow> (\<exists>x. m = Ret x \<and> f x = Ret y)"
  by (cases m) auto

lemma map_run_Ret_iff: "map_run f m = Ret y \<longleftrightarrow> (\<exists>x. m = Ret x \<and> y = f x)"
  by (cases m) auto

lemma case_Ret_iff:
  "(case x of Inl e \<Rightarrow> f e | Inr y \<Rightarrow> g y) = Ret z \<longleftrightarrow>
     (\<exists>e. x = Inl e \<and> f e = Ret z) \<or> (\<exists>y. x = Inr y \<and> g y = Ret z)"
  "(case u of None \<Rightarrow> m | Some v \<Rightarrow> h v) = Ret z \<longleftrightarrow>
     u = None \<and> m = Ret z \<or> (\<exists>v. u = Some v \<and> h v = Ret z)"
  by (cases x; simp) (cases u; simp)

lemma returns_iff: "returns m \<longleftrightarrow> (\<exists>x. m = Ret x)"
  by (cases m) auto

lemma returns_bind: "returns m \<Longrightarrow> (\<And>x. m = Ret x \<Longrightarrow> returns (f x)) \<Longrightarrow> returns (bind_run m f)"
  by (cases m) auto

lemma returns_map [simp]: "returns (map_run f m) = returns m"
  by (cases m) auto

lemma returnsE [elim]: "returns m \<Longrightarrow> (\<And>x. m = Ret x \<Longrightarrow> P) \<Longrightarrow> P"
  by (cases m) auto

text \<open>
  \<open>and_then\<close> is the idiom \<open>x, err := f(); if err != nil { return err }\<close> for a call that can
  also panic.
\<close>

fun and_then :: "('e + 'a) run \<Rightarrow> ('a \<Rightarrow> ('e + 'b) run) \<Rightarrow> ('e + 'b) run" where
  "and_then (Ret (Inr x)) f = f x"
| "and_then (Ret (Inl e)) f = Ret (Inl e)"
| "and_then (Panics p) f = Panics p"

lemma and_then_Inr_iff:
  "and_then m f = Ret (Inr y) \<longleftrightarrow> (\<exists>x. m = Ret (Inr x) \<and> f x = Ret (Inr y))"
  by (cases "(m, f)" rule: and_then.cases) auto

text \<open>The same idiom without panics: the first error of a list of calls ends the loop.\<close>

fun try_map :: "('a \<Rightarrow> 'e + 'b) \<Rightarrow> 'a list \<Rightarrow> 'e + 'b list" where
  "try_map f [] = Inr []"
| "try_map f (x # xs) =
     (case f x of
        Inl e \<Rightarrow> Inl e
      | Inr y \<Rightarrow> (case try_map f xs of Inl e \<Rightarrow> Inl e | Inr ys \<Rightarrow> Inr (y # ys)))"

lemma try_map_Inr_length: "try_map f xs = Inr ys \<Longrightarrow> length ys = length xs"
  by (induction xs arbitrary: ys) (auto split: sum.splits)

lemma try_map_Inr_iff:
  "try_map f xs = Inr ys \<longleftrightarrow> list_all2 (\<lambda>x y. f x = Inr y) xs ys"
proof (induction xs arbitrary: ys)
  case Nil
  then show ?case by auto
next
  case (Cons x xs)
  then show ?case
    by (cases ys; cases "f x"; cases "try_map f xs") auto
qed

lemma try_map_Inl:
  "try_map f xs = Inl e \<Longrightarrow> \<exists>x \<in> set xs. f x = Inl e"
  by (induction xs) (auto split: sum.splits)

subsection \<open>Go maps\<close>

type_synonym ('k, 'v) gomap = "('k \<times> 'v) list"

definition wf_map :: "('k, 'v) gomap \<Rightarrow> bool" where
  "wf_map m \<longleftrightarrow> distinct (map fst m)"

lemma update_new: "k \<notin> fst ` set m \<Longrightarrow> AList.update k v m = m @ [(k, v)]"
  by (induction m) auto

lemma wf_map_Nil [simp]: "wf_map []"
  by (simp add: wf_map_def)

lemma wf_map_Cons [simp]: "wf_map ((k, v) # m) \<longleftrightarrow> k \<notin> fst ` set m \<and> wf_map m"
  by (simp add: wf_map_def)

lemma wf_map_update [simp]: "wf_map m \<Longrightarrow> wf_map (AList.update k v m)"
  by (simp add: wf_map_def distinct_update)

lemma set_update_subset: "set (AList.update k v m) \<subseteq> insert (k, v) (set m)"
  by (induction m) auto

lemma wf_map_in_iff: "wf_map m \<Longrightarrow> (k, v) \<in> set m \<longleftrightarrow> map_of m k = Some v"
  by (simp add: wf_map_def)

lemma update_absent: "map_of m k = None \<Longrightarrow> AList.update k v m = m @ [(k, v)]"
  by (induction m) (auto split: if_splits)

text \<open>Storing the entries of a map one by one into an empty map copies it.\<close>

lemma fold_update_copy:
  assumes "wf_map kvs"
  shows "fold (\<lambda>(k, v). AList.update k v) kvs [] = kvs"
proof -
  have "fold (\<lambda>(k, v). AList.update k v) kvs m = m @ kvs" if "wf_map (m @ kvs)" for m
    using that
  proof (induction kvs arbitrary: m)
    case (Cons kv kvs)
    then have "map_of m (fst kv) = None" by (auto simp: wf_map_def map_of_eq_None_iff)
    with Cons show ?case by (simp add: update_absent case_prod_beta wf_map_def)
  qed simp
  from this [of "[]"] assms show ?thesis by simp
qed

text \<open>Two visiting orders of one map are permutations of each other.\<close>

lemma same_map_mset:
  assumes "wf_map m" and "wf_map m'" and "map_of m = map_of m'"
  shows "mset m = mset m'"
proof -
  from assms have "set m = set m'"
    by (simp add: wf_map_def map_of_inject_set)
  moreover from assms have "distinct m" and "distinct m'"
    by (auto simp: wf_map_def distinct_map)
  ultimately show ?thesis
    by (simp add: set_eq_iff_mset_eq_distinct)
qed

lemma same_map_concat_mset:
  assumes "wf_map m" and "wf_map m'" and "map_of m = map_of m'"
  shows "mset (concat (map f m)) = mset (concat (map f m'))"
proof -
  have "mset (concat (map f xs)) = (\<Sum>x \<in># mset xs. mset (f x))" for xs :: "('a \<times> 'b) list"
    by (induction xs) auto
  then show ?thesis using same_map_mset [OF assms] by simp
qed

lemma same_map_filter_mset:
  assumes "wf_map m" and "wf_map m'" and "map_of m = map_of m'"
  shows "mset (List.map_filter f m) = mset (List.map_filter f m')"
proof -
  have "mset (List.map_filter f xs) = mset (concat (map (\<lambda>x. case f x of None \<Rightarrow> [] | Some y \<Rightarrow> [y]) xs))"
    for xs :: "('a \<times> 'b) list"
    by (induction xs) (auto simp: List.map_filter_def split: option.splits)
  then show ?thesis using same_map_concat_mset [OF assms] by simp
qed

subsection \<open>Keyed stores\<close>

text \<open>
  \<open>norm\<close> is the identification the store makes between keys: the identity for a Go map, the
  canonical header name for \<open>http.Header\<close>.
\<close>

locale key_value =
  fixes put :: "'k \<Rightarrow> 'v \<Rightarrow> 'm \<Rightarrow> 'm"
    and get :: "'m \<Rightarrow> 'k \<Rightarrow> 'v option"
    and norm :: "'k \<Rightarrow> 'k"
  assumes get_put: "get (put k v m) k' = (if norm k = norm k' then Some v else get m k')"
begin

lemma get_put_same [simp]: "get (put k v m) k = Some v"
  by (simp add: get_put)

lemma get_fold_put:
  "get (fold (\<lambda>(k, v). put k v) kvs m) k =
     (case map_of (rev (map (\<lambda>(k, v). (norm k, v)) kvs)) (norm k) of
        Some v \<Rightarrow> Some v
      | None \<Rightarrow> get m k)"
proof (induction kvs arbitrary: m)
  case Nil
  then show ?case by simp
next
  case (Cons kv kvs)
  obtain k0 v0 where kv: "kv = (k0, v0)" by (cases kv)
  show ?case
    by (simp add: kv Cons.IH get_put map_add_def split: option.splits)
qed

text \<open>A range loop that stores every entry of a map gives the same store for every order.\<close>

lemma map_of_rev_norm:
  assumes "distinct (map (norm \<circ> fst) kvs)"
  shows "map_of (rev (map (\<lambda>(k, v). (norm k, v)) kvs)) = map_of (map (\<lambda>(k, v). (norm k, v)) kvs)"
proof (rule map_of_inject_set [THEN iffD2])
  have "map fst (map (\<lambda>(k, v). (norm k, v)) kvs) = map (norm \<circ> fst) kvs"
    by (simp add: case_prod_beta o_def)
  with assms show d: "distinct (map fst (map (\<lambda>(k, v). (norm k, v)) kvs))"
    by (simp only:)
  show "distinct (map fst (rev (map (\<lambda>(k, v). (norm k, v)) kvs)))"
    using d by (simp only: rev_map [symmetric] distinct_rev)
  show "set (rev (map (\<lambda>(k, v). (norm k, v)) kvs)) = set (map (\<lambda>(k, v). (norm k, v)) kvs)"
    by simp
qed

lemma get_fold_put_distinct:
  assumes "distinct (map (norm \<circ> fst) kvs)"
  shows "get (fold (\<lambda>(k, v). put k v) kvs m) k =
     (case map_of (map (\<lambda>(k, v). (norm k, v)) kvs) (norm k) of
        Some v \<Rightarrow> Some v
      | None \<Rightarrow> get m k)"
  by (simp only: get_fold_put map_of_rev_norm [OF assms])

end

text \<open>A Go map under assignment \<open>m[k] = v\<close> is such a store.\<close>

interpretation gomap: key_value AList.update map_of "\<lambda>k. k"
  by unfold_locales (simp add: update_conv')

end
