(* ===== verification/Json.thy ===== *)
theory Json
  imports Go_Strings
begin

text \<open>
  Decoded JSON documents: the values \<open>encoding/json\<close> stores in an \<open>interface{}\<close> when the decoder
  is told to \<open>UseNumber\<close>, as the program always does. A number keeps its source text
  (\<open>json.Number\<close>), an object is a Go map.

  \<^item> \<open>json_equal\<close> is \<open>cmp.Equal\<close> on such values, with no options: same dynamic types, strings,
    numbers and booleans with \<open>==\<close>, slices element by element, maps key by key whatever their
    order. \<open>json_equal_iff\<close> shows that it decides equality of the abstract values \<open>jval\<close>, where an
    object is a partial function.
  \<^item> \<open>json_sprint\<close> is \<open>fmt.Sprint\<close> on such values.
\<close>

datatype json =
    JNull
  | JBool bool
  | JNum string
  | JStr string
  | JArr "json list"
  | JObj "(string \<times> json) list"

subsection \<open>Well-formed values\<close>

fun wf_json :: "json \<Rightarrow> bool" where
  "wf_json (JArr vs) = list_all wf_json vs"
| "wf_json (JObj kvs) = (wf_map kvs \<and> list_all (\<lambda>kv. wf_json (snd kv)) kvs)"
| "wf_json _ = True"

subsection \<open>Equality\<close>

function (sequential) json_equal :: "json \<Rightarrow> json \<Rightarrow> bool" where
  "json_equal JNull JNull = True"
| "json_equal (JBool a) (JBool b) = (a = b)"
| "json_equal (JNum a) (JNum b) = (a = b)"
| "json_equal (JStr a) (JStr b) = (a = b)"
| "json_equal (JArr as) (JArr bs) =
     (length as = length bs \<and> list_all (\<lambda>(a, b). json_equal a b) (zip as bs))"
| "json_equal (JObj as) (JObj bs) =
     (length as = length bs \<and>
      list_all (\<lambda>kv. case map_of bs (fst kv) of
                  None \<Rightarrow> False
                | Some b \<Rightarrow> json_equal (snd kv) b) as)"
| "json_equal _ _ = False"
  by pat_completeness auto
termination
proof (relation "measure (\<lambda>(v, w). size v)", goal_cases)
  case (2 as bs p a b)
  then have "a \<in> set as" by (auto dest: set_zip_leftD)
  with 2 show ?case by (auto intro!: size_list_estimation' simp: less_Suc_eq_le)
next
  case (3 as bs kv b)
  have "size (snd kv) \<le> size_prod (\<lambda>x. 0) size kv" by (cases kv) simp
  with 3(1) have "size (snd kv) \<le> size_list (size_prod (\<lambda>x. 0) size) as"
    by (rule size_list_estimation')
  then show ?case by simp
qed auto

datatype jval =
    VNull
  | VBool bool
  | VNum string
  | VStr string
  | VArr "jval list"
  | VObj "string \<Rightarrow> jval option"

fun jabs :: "json \<Rightarrow> jval" where
  "jabs JNull = VNull"
| "jabs (JBool b) = VBool b"
| "jabs (JNum s) = VNum s"
| "jabs (JStr s) = VStr s"
| "jabs (JArr vs) = VArr (map jabs vs)"
| "jabs (JObj kvs) = VObj (map_of (map (\<lambda>kv. (fst kv, jabs (snd kv))) kvs))"

lemma map_of_map_snd:
  "map_of (map (\<lambda>kv. (fst kv, f (snd kv))) kvs) k = map_option f (map_of kvs k)"
  by (induction kvs) auto

text \<open>Same length and every key of the one in the other: the domains are the same.\<close>

lemma same_dom:
  assumes "wf_map as" and "wf_map bs" and "length as = length bs"
    and "fst ` set as \<subseteq> fst ` set bs"
  shows "fst ` set as = fst ` set bs"
proof (rule card_subset_eq [OF _ assms(4)])
  show "finite (fst ` set bs)" by simp
  from assms(1-3) show "card (fst ` set as) = card (fst ` set bs)"
    by (metis distinct_card length_map list.set_map wf_map_def)
qed

lemma json_equal_obj:
  assumes wf: "wf_map as" "wf_map bs"
    and IH: "\<And>k a b. (k, a) \<in> set as \<Longrightarrow> map_of bs k = Some b \<Longrightarrow>
      json_equal a b \<longleftrightarrow> jabs a = jabs b"
  shows "json_equal (JObj as) (JObj bs) \<longleftrightarrow> jabs (JObj as) = jabs (JObj bs)"
proof
  assume eq: "json_equal (JObj as) (JObj bs)"
  then have hit: "\<exists>b. map_of bs k = Some b \<and> jabs a = jabs b" if "(k, a) \<in> set as" for k a
    using that IH by (fastforce simp: list_all_iff split: option.splits)
  then have "fst ` set as \<subseteq> fst ` set bs"
    by (force dest: map_of_SomeD)
  with eq wf have dom: "fst ` set as = fst ` set bs"
    by (intro same_dom) auto
  have "map_option jabs (map_of as k) = map_option jabs (map_of bs k)" for k
  proof (cases "map_of as k")
    case None
    with dom have "map_of bs k = None" by (simp add: map_of_eq_None_iff)
    with None show ?thesis by simp
  next
    case (Some a)
    then have "(k, a) \<in> set as" by (rule map_of_SomeD)
    from hit [OF this] Some show ?thesis by auto
  qed
  then show "jabs (JObj as) = jabs (JObj bs)"
    by (simp add: map_of_map_snd fun_eq_iff)
next
  assume eq: "jabs (JObj as) = jabs (JObj bs)"
  then have abs: "map_option jabs (map_of as k) = map_option jabs (map_of bs k)" for k
    by (simp add: map_of_map_snd fun_eq_iff)
  then have "dom (map_of as) = dom (map_of bs)"
    by (metis (no_types, lifting) domIff option.map_disc_iff set_eqI)
  then have "card (fst ` set as) = card (fst ` set bs)"
    by (simp add: dom_map_of_conv_image_fst)
  with wf have len: "length as = length bs"
    by (metis distinct_card length_map list.set_map wf_map_def)
  have "\<exists>b. map_of bs k = Some b \<and> json_equal a b" if "(k, a) \<in> set as" for k a
  proof -
    from that wf have "map_of as k = Some a" by (simp add: wf_map_in_iff)
    with abs [of k] obtain b where "map_of bs k = Some b" and "jabs a = jabs b"
      by (cases "map_of bs k") auto
    with IH [OF that] show ?thesis by blast
  qed
  with len show "json_equal (JObj as) (JObj bs)"
    by (fastforce simp: list_all_iff split: option.splits)
qed

theorem json_equal_iff:
  "wf_json v \<Longrightarrow> wf_json w \<Longrightarrow> json_equal v w \<longleftrightarrow> jabs v = jabs w"
proof (induction v arbitrary: w)
  case (JArr vs)
  show ?case
  proof (cases w)
    case (JArr ws)
    have "list_all (\<lambda>(a, b). json_equal a b) (zip vs ws) \<longleftrightarrow> map jabs vs = map jabs ws"
      if "length vs = length ws"
      using that JArr.IH JArr.prems(1) JArr.prems(2) [unfolded JArr]
      by (induction vs ws rule: list_induct2) auto
    with JArr show ?thesis by (auto dest: map_eq_imp_length_eq)
  qed (use JArr.prems in auto)
next
  case (JObj as)
  show ?case
  proof (cases w)
    case (JObj bs)
    show ?thesis unfolding JObj
    proof (rule json_equal_obj)
      show "wf_map as" and "wf_map bs" using JObj.prems JObj by auto
      fix k a b
      assume a: "(k, a) \<in> set as" and b: "map_of bs k = Some b"
      from b have "(k, b) \<in> set bs" by (rule map_of_SomeD)
      with JObj.prems JObj a have "wf_json a" and "wf_json b"
        by (fastforce simp: list_all_iff)+
      then show "json_equal a b \<longleftrightarrow> jabs a = jabs b"
        using JObj.IH [OF a, of a] by (simp add: snds.intros)
    qed
  qed (use JObj.prems in auto)
qed (case_tac w; auto)+

subsection \<open>fmt.Sprint\<close>

fun json_sprint :: "json \<Rightarrow> string" where
  "json_sprint JNull = ''<nil>''"
| "json_sprint (JBool b) = (if b then ''true'' else ''false'')"
| "json_sprint (JNum s) = s"
| "json_sprint (JStr s) = s"
| "json_sprint (JArr vs) = ''['' @ join_with '' '' (map json_sprint vs) @ '']''"
| "json_sprint (JObj kvs) =
     ''map['' @ join_with '' '' (map (\<lambda>kv. fst kv @ '':'' @ json_sprint (snd kv)) kvs) @ '']''"

end
