(* ===== verification/Testsuite.thy ===== *)
theory Testsuite
  imports Json
begin

text \<open>
  Package \<open>testsuite\<close> (\<open>testsuite/testsuite.go\<close>): the header maps of the test descriptions, the
  metadata that the tests of one run share, and the \<open>Test\<close> interface.

  A \<open>Test\<close> is a record of its three methods. \<open>Run(ctx, l)\<close> gets the time limit that the context
  carries, the metadata map of the context and the state of the world it acts on (the servers
  under test), and returns the messages it logs, in order, with the new metadata and world: the
  \<open>Logger\<close> interface offers nothing but appending messages.
\<close>

subsection \<open>Headers\<close>

type_synonym header = "(string, string) gomap"

definition header_Copy :: "header \<Rightarrow> header \<Rightarrow> header" where
  "header_Copy h src = fold (\<lambda>(k, v). AList.update k v) src h"

definition MergeHeaders :: "header list \<Rightarrow> header" where
  "MergeHeaders hs = fold (\<lambda>h res. header_Copy res h) hs []"

definition header_Slice :: "header \<Rightarrow> string list" where
  "header_Slice h = map (\<lambda>(k, v). k @ '':'' @ v) h"

lemma wf_header_Copy: "wf_map h \<Longrightarrow> wf_map (header_Copy h src)"
  unfolding header_Copy_def by (induction src arbitrary: h) auto

lemma wf_MergeHeaders: "wf_map (MergeHeaders hs)"
proof -
  have "wf_map (fold (\<lambda>h res. header_Copy res h) hs res)" if "wf_map res" for res
    using that by (induction hs arbitrary: res) (auto simp: wf_header_Copy)
  then show ?thesis by (simp add: MergeHeaders_def)
qed

text \<open>The source wins, key by key, in whatever order the range loop visits it.\<close>

lemma map_of_header_Copy:
  assumes "wf_map src"
  shows "map_of (header_Copy h src) = map_of h ++ map_of src"
proof
  fix k
  have "distinct (map ((\<lambda>k. k) \<circ> fst) src)" using assms by (simp add: wf_map_def o_def)
  from gomap.get_fold_put_distinct [OF this, of h k]
  show "map_of (header_Copy h src) k = (map_of h ++ map_of src) k"
    by (simp add: header_Copy_def map_add_def case_prod_beta)
qed

lemma map_of_MergeHeaders:
  assumes "\<forall>h \<in> set hs. wf_map h"
  shows "map_of (MergeHeaders hs) = foldl (++) Map.empty (map map_of hs)"
proof -
  have "map_of (fold (\<lambda>h res. header_Copy res h) hs res) = foldl (++) (map_of res) (map map_of hs)"
    for res
    using assms by (induction hs arbitrary: res) (auto simp: map_of_header_Copy)
  from this [of "[]"] show ?thesis by (simp add: MergeHeaders_def)
qed

subsection \<open>Metadata\<close>

type_synonym md = "(string, json) gomap"

definition NewMD :: md where
  "NewMD = []"

text \<open>
  A context is what \<open>NewMDContext\<close> put into it: \<open>MDFromContext\<close> gives the map back, or says that
  there is none.
\<close>

record go_context =
  ctx_md :: "md option"

definition NewMDContext :: "go_context \<Rightarrow> md \<Rightarrow> go_context" where
  "NewMDContext ctx md = ctx\<lparr>ctx_md := Some md\<rparr>"

definition MDFromContext :: "go_context \<Rightarrow> md \<times> bool" where
  "MDFromContext ctx = (case ctx_md ctx of Some md \<Rightarrow> (md, True) | None \<Rightarrow> ([], False))"

lemma MDFromContext_NewMDContext: "MDFromContext (NewMDContext ctx md) = (md, True)"
  by (simp add: MDFromContext_def NewMDContext_def)

subsection \<open>Tests\<close>

record ('w, 'e) test =
  tName :: string
  tDescription :: string
  tRun :: "int \<Rightarrow> go_context \<Rightarrow> 'w \<Rightarrow> ('e list \<times> go_context \<times> 'w) run"

text \<open>A test that never panics, whatever it is run on.\<close>

definition never_panics :: "('w, 'e) test \<Rightarrow> bool" where
  "never_panics t \<longleftrightarrow> (\<forall>limit ctx w. returns (tRun t limit ctx w))"

end
