(* ===== verification/Notifier.thy ===== *)
theory Notifier
  imports Testsuite
begin

text \<open>
  Package \<open>notifier\<close> (\<open>notifier/notifier.go\<close>, \<open>notifier/multi.go\<close>): the report of a suite, the
  report of a test, and the notifiers that receive reports. Instants and durations are
  nanoseconds; a clock reading is an argument of the operations that call \<open>time.Now\<close>. An error
  is kept as a value of type \<open>'e\<close>, its text is the concern of who prints it. A \<open>TestReport\<close> is
  the \<open>Logger\<close> that the tests get.
\<close>

record ('t, 'e) TestReport =
  Test :: 't
  tr_Start :: int
  tr_Duration :: int
  Errs :: "'e list"

record ('s, 't, 'e) Report =
  r_Suite :: 's
  r_Start :: int
  r_Duration :: int
  TestReports :: "('t, 'e) TestReport list"
  NbFailed :: nat

definition NewReport :: "'s \<Rightarrow> int \<Rightarrow> ('s, 't, 'e) Report" where
  "NewReport s now =
     \<lparr>r_Suite = s, r_Start = now, r_Duration = 0, TestReports = [], NbFailed = 0\<rparr>"

definition new_TestReport :: "'t \<Rightarrow> int \<Rightarrow> ('t, 'e) TestReport" where
  "new_TestReport t now = \<lparr>Test = t, tr_Start = now, tr_Duration = 0, Errs = []\<rparr>"

text \<open>
  \<open>Report.NewTestReport\<close> appends a pointer to the new test report to the list of the report, and
  its caller goes on filling that test report in. \<open>add_TestReport\<close> is the append; the runner
  calls it with the test report as the test leaves it.
\<close>

definition add_TestReport ::
  "('t, 'e) TestReport \<Rightarrow> ('s, 't, 'e) Report \<Rightarrow> ('s, 't, 'e) Report" where
  "add_TestReport tr r = r\<lparr>TestReports := TestReports r @ [tr]\<rparr>"

definition Report_Done :: "int \<Rightarrow> ('s, 't, 'e) Report \<Rightarrow> ('s, 't, 'e) Report" where
  "Report_Done now r = r\<lparr>r_Duration := now - r_Start r\<rparr>"

definition tr_Error :: "'e \<Rightarrow> ('t, 'e) TestReport \<Rightarrow> ('t, 'e) TestReport" where
  "tr_Error e tr = tr\<lparr>Errs := Errs tr @ [e]\<rparr>"

definition tr_Reset :: "('t, 'e) TestReport \<Rightarrow> ('t, 'e) TestReport" where
  "tr_Reset tr = tr\<lparr>Errs := []\<rparr>"

definition tr_Done :: "int \<Rightarrow> ('t, 'e) TestReport \<Rightarrow> ('t, 'e) TestReport" where
  "tr_Done now tr = tr\<lparr>tr_Duration := now - tr_Start tr\<rparr>"

lemmas notifier_defs [go_defs] =
  NewReport_def new_TestReport_def add_TestReport_def Report_Done_def
  tr_Error_def tr_Reset_def tr_Done_def

text \<open>The messages a test logs end up in its report, in order, after those already there.\<close>

lemma log_messages: "Errs (fold tr_Error es tr) = Errs tr @ es"
  by (induction es arbitrary: tr) (simp_all add: tr_Error_def)

lemma log_messages_frame:
  "Test (fold tr_Error es tr) = Test tr" "tr_Start (fold tr_Error es tr) = tr_Start tr"
  by (induction es arbitrary: tr) (simp_all add: tr_Error_def)

subsection \<open>Notifiers\<close>

text \<open>A notifier acts on the outside world; \<open>None\<close> stands for the nil notifier.\<close>

type_synonym ('r, 'w) notifier = "'r \<Rightarrow> 'w \<Rightarrow> 'w"

definition Multi :: "('r, 'w) notifier list \<Rightarrow> ('r, 'w) notifier" where
  "Multi ns = (\<lambda>r w. fold (\<lambda>n w. n r w) ns w)"

end
