(* ===== verification/Suite.thy ===== *)
theory Suite
  imports Notifier
begin

text \<open>
  The suite runner (\<open>server/suite.go\<close>: \<open>Suite\<close>, \<open>Run\<close>, \<open>runTests\<close>, \<open>runTestWithRetry\<close>,
  \<open>runTest\<close>). What the runner asks of its surroundings is a record of functions on the world:
  the clock, the race between \<open>ctx.Done()\<close> and \<open>time.After(d)\<close> (\<open>True\<close> when the context won)
  and \<open>ctx.Err() != nil\<close>. Logging and tracing are left out. The attempt counter of the retry loop
  stays below \<open>retryCount\<close>, an \<open>int\<close> of the code, so it cannot overflow.
\<close>

record 'w runtime =
  rt_now :: "'w \<Rightarrow> int \<times> 'w"
  rt_wait :: "int \<Rightarrow> 'w \<Rightarrow> bool \<times> 'w"
  rt_ctx_err :: "'w \<Rightarrow> bool \<times> 'w"

record ('w, 'e) Suite =
  s_path :: string
  s_name :: string
  s_typ :: string
  s_runCron :: string
  s_runEvery :: int
  s_retryCount :: int
  s_retryWait :: int
  s_timeout :: int
  s_failfast :: bool
  s_tests :: "('w, 'e) test list"

type_synonym ('w, 'e) test_report = "(('w, 'e) test, 'e) TestReport"
type_synonym ('w, 'e) report = "(('w, 'e) Suite, ('w, 'e) test, 'e) Report"

text \<open>\<open>runTest\<close>: the test logs into its report, and passes when the report holds no error.\<close>

definition runTest ::
  "'w runtime \<Rightarrow> ('w, 'e) Suite \<Rightarrow> ('w, 'e) test \<Rightarrow> ('w, 'e) test_report \<Rightarrow> go_context \<Rightarrow> 'w
    \<Rightarrow> (bool \<times> ('w, 'e) test_report \<times> go_context \<times> 'w) run" where
  "runTest rt s t tr ctx w =
     bind_run (tRun t (s_timeout s) ctx w) (\<lambda>(msgs, ctx1, w1).
       let tr1 = fold tr_Error msgs tr;
           (now, w2) = rt_now rt w1;
           tr2 = tr_Done now tr1
       in Ret (Errs tr2 = [], tr2, ctx1, w2))"

text \<open>The loop of \<open>runTestWithRetry\<close>, from a given attempt on.\<close>

function retry_loop ::
  "'w runtime \<Rightarrow> ('w, 'e) Suite \<Rightarrow> ('w, 'e) test \<Rightarrow> int \<Rightarrow> ('w, 'e) test_report \<Rightarrow> go_context \<Rightarrow> 'w
    \<Rightarrow> (bool \<times> ('w, 'e) test_report \<times> go_context \<times> 'w) run" where
  "retry_loop rt s t attempt tr ctx w =
     (case runTest rt s t tr ctx w of
        Panics p \<Rightarrow> Panics p
      | Ret (ok, tr1, ctx1, w1) \<Rightarrow>
          if ok then Ret (True, tr1, ctx1, w1)
          else if s_retryCount s \<le> attempt then Ret (False, tr1, ctx1, w1)
          else
            (case rt_wait rt (s_retryWait s) w1 of
               (cancelled, w2) \<Rightarrow>
                 if cancelled then Ret (False, tr1, ctx1, w2)
                 else retry_loop rt s t (attempt + 1) (tr_Reset tr1) ctx1 w2))"
  by pat_completeness auto
termination
  by (relation "measure (\<lambda>(rt, s, t, attempt, tr, ctx, w). nat (s_retryCount s - attempt))") auto

declare retry_loop.simps [simp del]

definition runTestWithRetry ::
  "'w runtime \<Rightarrow> ('w, 'e) Suite \<Rightarrow> ('w, 'e) test \<Rightarrow> ('w, 'e) report \<Rightarrow> go_context \<Rightarrow> 'w
    \<Rightarrow> (bool \<times> ('w, 'e) report \<times> go_context \<times> 'w) run" where
  "runTestWithRetry rt s t r ctx w =
     (let (now, w1) = rt_now rt w in
      bind_run (retry_loop rt s t 1 (new_TestReport t now) ctx w1) (\<lambda>(ok, tr, ctx1, w2).
        Ret (ok, add_TestReport tr r, ctx1, w2)))"

definition count_failed :: "bool \<Rightarrow> ('w, 'e) report \<Rightarrow> ('w, 'e) report" where
  "count_failed ok r = (if ok then r else r\<lparr>NbFailed := NbFailed r + 1\<rparr>)"

text \<open>The loop of \<open>runTests\<close> over the tests still to run.\<close>

fun tests_loop ::
  "'w runtime \<Rightarrow> ('w, 'e) Suite \<Rightarrow> ('w, 'e) test list \<Rightarrow> ('w, 'e) report \<Rightarrow> go_context \<Rightarrow> 'w
    \<Rightarrow> (('w, 'e) report \<times> go_context \<times> 'w) run" where
  "tests_loop rt s [] r ctx w = Ret (r, ctx, w)"
| "tests_loop rt s (t # ts) r ctx w =
     (case runTestWithRetry rt s t r ctx w of
        Panics p \<Rightarrow> Panics p
      | Ret (ok, r1, ctx1, w1) \<Rightarrow>
          let r2 = count_failed ok r1 in
          if \<not> ok \<and> s_failfast s then Ret (r2, ctx1, w1)
          else
            (case rt_ctx_err rt w1 of
               (stopped, w2) \<Rightarrow>
                 if stopped then Ret (r2, ctx1, w2) else tests_loop rt s ts r2 ctx1 w2))"

text \<open>\<open>runTests\<close>: a fresh metadata map for every run of the suite.\<close>

definition runTests ::
  "'w runtime \<Rightarrow> ('w, 'e) Suite \<Rightarrow> go_context \<Rightarrow> 'w \<Rightarrow> (('w, 'e) report \<times> 'w) run" where
  "runTests rt s ctx w =
     (let (now, w1) = rt_now rt w in
      bind_run (tests_loop rt s (s_tests s) (NewReport s now) (NewMDContext ctx NewMD) w1)
        (\<lambda>(r, _, w2). let (now', w3) = rt_now rt w2 in Ret (Report_Done now' r, w3)))"

definition Suite_Run ::
  "'w runtime \<Rightarrow> ('w, 'e) Suite \<Rightarrow> go_context \<Rightarrow> 'w \<Rightarrow> (('w, 'e) report \<times> 'w) run" where
  "Suite_Run rt s ctx w = runTests rt s ctx w"

subsection \<open>One test\<close>

lemma runTest_Ret:
  assumes "runTest rt s t tr ctx w = Ret (ok, tr', ctx', w')"
  shows "ok \<longleftrightarrow> Errs tr' = []" and "Test tr' = Test tr"
proof -
  obtain msgs ctx1 w1 where run: "tRun t (s_timeout s) ctx w = Ret (msgs, ctx1, w1)"
    using assms by (auto simp: runTest_def bind_run_Ret_iff)
  obtain now w2 where now: "rt_now rt w1 = (now, w2)" by fastforce
  from assms run now show "ok \<longleftrightarrow> Errs tr' = []" and "Test tr' = Test tr"
    by (auto simp: runTest_def tr_Done_def log_messages_frame Let_def)
qed

text \<open>
  \<open>attempts rt s t tr ctx w k out\<close>: running the test \<open>k\<close> times in a row, the first time from
  \<open>(tr, ctx, w)\<close>, every time but the last failing and followed by a wait that the context did not
  cut short, ends with \<open>out\<close>.
\<close>

inductive attempts ::
  "'w runtime \<Rightarrow> ('w, 'e) Suite \<Rightarrow> ('w, 'e) test \<Rightarrow> ('w, 'e) test_report \<Rightarrow> go_context \<Rightarrow> 'w
    \<Rightarrow> nat \<Rightarrow> bool \<times> ('w, 'e) test_report \<times> go_context \<times> 'w \<Rightarrow> bool"
  for rt s t where
  once: "runTest rt s t tr ctx w = Ret out \<Longrightarrow> attempts rt s t tr ctx w 1 out"
| again: "runTest rt s t tr ctx w = Ret (False, tr1, ctx1, w1) \<Longrightarrow>
    rt_wait rt (s_retryWait s) w1 = (False, w2) \<Longrightarrow>
    attempts rt s t (tr_Reset tr1) ctx1 w2 k out \<Longrightarrow>
    attempts rt s t tr ctx w (Suc k) out"

inductive_cases attemptsE: "attempts rt s t tr ctx w k out"

lemma attempts_ok:
  "attempts rt s t tr ctx w k (ok, tr', ctx', w') \<Longrightarrow> (ok \<longleftrightarrow> Errs tr' = []) \<and> Test tr' = Test tr"
proof (induction tr ctx w k "(ok, tr', ctx', w')" rule: attempts.induct)
  case (once tr ctx w)
  then show ?case by (auto dest: runTest_Ret)
next
  case (again tr ctx w tr1 ctx1 w1 w2 k)
  then show ?case by (auto dest: runTest_Ret simp: tr_Reset_def)
qed

lemma retry_loop_cases:
  assumes "retry_loop rt s t attempt tr ctx w = Ret (ok, tr', ctx', w')"
  obtains (last) "runTest rt s t tr ctx w = Ret (ok, tr', ctx', w')" "ok \<or> s_retryCount s \<le> attempt"
  | (cancelled) w1 where "runTest rt s t tr ctx w = Ret (False, tr', ctx', w1)" "\<not> ok"
      "rt_wait rt (s_retryWait s) w1 = (True, w')"
  | (again) tr1 ctx1 w1 w2 where "runTest rt s t tr ctx w = Ret (False, tr1, ctx1, w1)"
      "attempt < s_retryCount s" "rt_wait rt (s_retryWait s) w1 = (False, w2)"
      "retry_loop rt s t (attempt + 1) (tr_Reset tr1) ctx1 w2 = Ret (ok, tr', ctx', w')"
  using assms by (subst (asm) retry_loop.simps) (auto split: run.splits if_splits prod.splits)

text \<open>How a run of \<open>k\<close> attempts, with at most \<open>n\<close> to go, may end.\<close>

definition retry_ends :: "'w runtime \<Rightarrow> int \<Rightarrow> nat \<Rightarrow> int \<Rightarrow> bool \<Rightarrow> 'w \<Rightarrow> 'w \<Rightarrow> bool" where
  "retry_ends rt wait k n ok w0 w' \<longleftrightarrow>
     int k \<le> max 1 n \<and> (ok \<and> w' = w0 \<or> int k = max 1 n \<and> w' = w0 \<or> rt_wait rt wait w0 = (True, w'))"

lemma retry_loop_attempts:
  assumes "retry_loop rt s t attempt tr ctx w = Ret (ok, tr', ctx', w')"
  shows "\<exists>k w0. attempts rt s t tr ctx w k (ok, tr', ctx', w0) \<and>
    retry_ends rt (s_retryWait s) k (s_retryCount s - attempt + 1) ok w0 w'"
  using assms
proof (induction "nat (s_retryCount s - attempt)" arbitrary: attempt tr ctx w rule: less_induct)
  case less
  from less.prems show ?case
  proof (cases rule: retry_loop_cases)
    case last
    then show ?thesis
      by (intro exI [of _ 1] exI [of _ w'] conjI attempts.once) (auto simp: retry_ends_def)
  next
    case (cancelled w1)
    then show ?thesis
      by (intro exI [of _ 1] exI [of _ w1] conjI attempts.once) (auto simp: retry_ends_def)
  next
    case (again tr1 ctx1 w1 w2)
    with less.hyps [OF _ again(4)] obtain k w0 where
      k: "attempts rt s t (tr_Reset tr1) ctx1 w2 k (ok, tr', ctx', w0)"
      "retry_ends rt (s_retryWait s) k (s_retryCount s - (attempt + 1) + 1) ok w0 w'" by auto
    from attempts.again [OF again(1,3) k(1)] k(2) again(2) show ?thesis
      by (intro exI [of _ "Suc k"] exI [of _ w0]) (auto simp: retry_ends_def)
  qed
qed

lemma attempts_pos: "attempts rt s t tr ctx w k out \<Longrightarrow> 1 \<le> k"
  by (induction rule: attempts.induct) auto

lemma runTestWithRetry_Ret:
  assumes "runTestWithRetry rt s t r ctx w = Ret (ok, r', ctx', w')"
  obtains tr where "r' = add_TestReport tr r" "ok \<longleftrightarrow> Errs tr = []" "Test tr = t"
proof -
  obtain now w1 where now: "rt_now rt w = (now, w1)" by fastforce
  with assms obtain tr where tr: "retry_loop rt s t 1 (new_TestReport t now) ctx w1 = Ret (ok, tr, ctx', w')"
    and r': "r' = add_TestReport tr r"
    by (auto simp: runTestWithRetry_def bind_run_Ret_iff)
  from retry_loop_attempts [OF tr] attempts_ok have "(ok \<longleftrightarrow> Errs tr = []) \<and> Test tr = t"
    by (fastforce simp: new_TestReport_def)
  with r' that show ?thesis by blast
qed

subsection \<open>All tests\<close>

definition failed :: "('t, 'e) TestReport \<Rightarrow> bool" where
  "failed tr \<longleftrightarrow> Errs tr \<noteq> []"

text \<open>
  What a finished run over the tests \<open>ts\<close> leaves behind: \<open>trs\<close> are the reports of the tests that
  ran, and \<open>stopped\<close> says that the context was found cancelled after a test.
\<close>

definition ran_tests :: "bool \<Rightarrow> bool \<Rightarrow> 't list \<Rightarrow> ('t, 'e) TestReport list \<Rightarrow> bool" where
  "ran_tests failfast stopped ts trs \<longleftrightarrow>
     length trs \<le> length ts \<and> map Test trs = take (length trs) ts \<and>
     (failfast \<longrightarrow> (\<forall>tr \<in> set (butlast trs). \<not> failed tr)) \<and>
     (length trs < length ts \<longrightarrow> failfast \<and> trs \<noteq> [] \<and> failed (last trs) \<or> stopped)"

lemma ran_tests_Nil [simp]: "ran_tests ff st [] trs \<longleftrightarrow> trs = []"
  by (auto simp: ran_tests_def)

lemma ran_tests_stop:
  "Test tr = t \<Longrightarrow> ff \<and> failed tr \<or> st \<Longrightarrow> ran_tests ff st (t # ts) [tr]"
  by (auto simp: ran_tests_def)

lemma ran_tests_Cons:
  "Test tr = t \<Longrightarrow> \<not> (ff \<and> failed tr) \<Longrightarrow> ran_tests ff st ts trs
    \<Longrightarrow> ran_tests ff st (t # ts) (tr # trs)"
  by (auto simp: ran_tests_def)

lemma tests_loop_ran:
  assumes "tests_loop rt s ts r ctx w = Ret (r', ctx', w')"
  shows "\<exists>trs. TestReports r' = TestReports r @ trs \<and>
    NbFailed r' = NbFailed r + length (filter failed trs) \<and>
    r_Suite r' = r_Suite r \<and> r_Start r' = r_Start r \<and>
    ran_tests (s_failfast s) (\<exists>w1 w2. rt_ctx_err rt w1 = (True, w2)) ts trs"
  using assms
proof (induction ts arbitrary: r ctx w)
  case Nil
  then show ?case by auto
next
  case (Cons t ts)
  from Cons.prems obtain ok r1 ctx1 w1 where
    run: "runTestWithRetry rt s t r ctx w = Ret (ok, r1, ctx1, w1)"
    by (auto split: run.splits)
  then obtain tr where tr: "r1 = add_TestReport tr r" "ok \<longleftrightarrow> Errs tr = []" "Test tr = t"
    by (rule runTestWithRetry_Ret)
  let ?r2 = "count_failed ok r1"
  have r2: "TestReports ?r2 = TestReports r @ [tr]"
    "NbFailed ?r2 = NbFailed r + length (filter failed [tr])"
    "r_Suite ?r2 = r_Suite r" "r_Start ?r2 = r_Start r"
    using tr by (simp_all add: count_failed_def add_TestReport_def failed_def)
  obtain stopped w2 where err: "rt_ctx_err rt w1 = (stopped, w2)" by fastforce
  show ?case
  proof (cases "\<not> ok \<and> s_failfast s \<or> stopped")
    case True
    with Cons.prems run err have "r' = ?r2" by (auto simp: Let_def split: if_splits)
    moreover from True tr err
    have "ran_tests (s_failfast s) (\<exists>w1 w2. rt_ctx_err rt w1 = (True, w2)) (t # ts) [tr]"
      by (intro ran_tests_stop) (auto simp: failed_def)
    ultimately show ?thesis using r2 by (intro exI [of _ "[tr]"]) simp
  next
    case False
    with Cons.prems run err have "tests_loop rt s ts ?r2 ctx1 w2 = Ret (r', ctx', w')"
      by (auto simp: Let_def split: if_splits)
    from Cons.IH [OF this] obtain trs where trs:
      "TestReports r' = TestReports ?r2 @ trs"
      "NbFailed r' = NbFailed ?r2 + length (filter failed trs)"
      "r_Suite r' = r_Suite ?r2" "r_Start r' = r_Start ?r2"
      "ran_tests (s_failfast s) (\<exists>w1 w2. rt_ctx_err rt w1 = (True, w2)) ts trs"
      by blast
    from False tr trs(5)
    have "ran_tests (s_failfast s) (\<exists>w1 w2. rt_ctx_err rt w1 = (True, w2)) (t # ts) (tr # trs)"
      by (intro ran_tests_Cons) (auto simp: failed_def)
    with trs r2 show ?thesis by (intro exI [of _ "tr # trs"]) simp
  qed
qed

lemma Suite_Run_Ret:
  assumes "Suite_Run rt s ctx w = Ret (r, w')"
  obtains now w1 r1 ctx1 w2 now' where "rt_now rt w = (now, w1)"
    "tests_loop rt s (s_tests s) (NewReport s now) (NewMDContext ctx NewMD) w1 = Ret (r1, ctx1, w2)"
    "rt_now rt w2 = (now', w')" "r = Report_Done now' r1"
proof -
  obtain now w1 where now: "rt_now rt w = (now, w1)" by fastforce
  with assms obtain r1 ctx1 w2 where loop: "tests_loop rt s (s_tests s) (NewReport s now)
      (NewMDContext ctx NewMD) w1 = Ret (r1, ctx1, w2)"
    and r: "(let (now', w3) = rt_now rt w2 in Ret (Report_Done now' r1, w3)) = Ret (r, w')"
    by (auto simp: Suite_Run_def runTests_def bind_run_Ret_iff)
  moreover obtain now' w3 where "rt_now rt w2 = (now', w3)" by fastforce
  ultimately show ?thesis using that [OF now loop] by simp
qed

lemma Suite_Run_ran:
  assumes "Suite_Run rt s ctx w = Ret (r, w')"
  shows "r_Suite r = s \<and> NbFailed r = length (filter failed (TestReports r)) \<and>
    ran_tests (s_failfast s) (\<exists>w1 w2. rt_ctx_err rt w1 = (True, w2)) (s_tests s) (TestReports r)"
  using assms
  by (rule Suite_Run_Ret)
    (drule tests_loop_ran, auto simp: NewReport_def Report_Done_def)

subsection \<open>Running a suite ends\<close>

lemma runTest_returns: "never_panics t \<Longrightarrow> returns (runTest rt s t tr ctx w)"
proof -
  assume "never_panics t"
  then obtain msgs ctx1 w1 where "tRun t (s_timeout s) ctx w = Ret (msgs, ctx1, w1)"
    unfolding never_panics_def returns_iff by (metis prod_cases3)
  moreover obtain now w2 where "rt_now rt w1 = (now, w2)" by fastforce
  ultimately show ?thesis by (simp add: runTest_def Let_def)
qed

lemma retry_loop_returns: "never_panics t \<Longrightarrow> returns (retry_loop rt s t attempt tr ctx w)"
proof (induction rt s t attempt tr ctx w rule: retry_loop.induct)
  case (1 rt s t attempt tr ctx w)
  from runTest_returns [OF 1(2)] obtain ok tr1 ctx1 w1 where
    run: "runTest rt s t tr ctx w = Ret (ok, tr1, ctx1, w1)"
    by (metis returns_iff prod_cases4)
  obtain c w2 where wait: "rt_wait rt (s_retryWait s) w1 = (c, w2)" by fastforce
  show ?case
  proof (cases "ok \<or> s_retryCount s \<le> attempt \<or> c")
    case True
    with run wait show ?thesis by (subst retry_loop.simps) auto
  next
    case False
    with 1(1) [OF run refl refl refl _ _ wait [symmetric]] 1(2) run wait show ?thesis
      by (subst retry_loop.simps) auto
  qed
qed

lemma runTestWithRetry_returns:
  assumes "never_panics t"
  shows "returns (runTestWithRetry rt s t r ctx w)"
proof -
  obtain now w1 where now: "rt_now rt w = (now, w1)" by fastforce
  from retry_loop_returns [OF assms] obtain ok tr ctx1 w2 where
    "retry_loop rt s t 1 (new_TestReport t now) ctx w1 = Ret (ok, tr, ctx1, w2)"
    by (metis returns_iff prod_cases4)
  with now show ?thesis by (simp add: runTestWithRetry_def)
qed

lemma tests_loop_returns:
  "\<forall>t \<in> set ts. never_panics t \<Longrightarrow> returns (tests_loop rt s ts r ctx w)"
proof (induction ts arbitrary: r ctx w)
  case Nil
  then show ?case by simp
next
  case (Cons t ts)
  have "returns (runTestWithRetry rt s t r ctx w)"
    by (rule runTestWithRetry_returns) (use Cons.prems in simp)
  then obtain ok r1 ctx1 w1 where "runTestWithRetry rt s t r ctx w = Ret (ok, r1, ctx1, w1)"
    by (metis returns_iff prod_cases4)
  with Cons show ?case by (auto simp: Let_def split: prod.split)
qed

lemma Suite_Run_returns:
  assumes "\<forall>t \<in> set (s_tests s). never_panics t"
  shows "returns (Suite_Run rt s ctx w)"
proof -
  obtain now w1 where now: "rt_now rt w = (now, w1)" by fastforce
  from tests_loop_returns [OF assms] obtain r1 ctx1 w2 where
    "tests_loop rt s (s_tests s) (NewReport s now) (NewMDContext ctx NewMD) w1 = Ret (r1, ctx1, w2)"
    by (metis returns_iff prod_cases3)
  with now show ?thesis
    by (simp add: Suite_Run_def runTests_def Let_def case_prod_beta)
qed

subsection \<open>Properties\<close>

text \<open>
  The runs of the witnesses: the world counts the attempts, the clock stands still, the first test
  passes from its second attempt on, the second one never, the third one always.
\<close>

definition still_clock :: "nat runtime" where
  "still_clock = \<lparr>rt_now = (\<lambda>w. (0, w)), rt_wait = (\<lambda>_ w. (False, w)), rt_ctx_err = (\<lambda>w. (False, w))\<rparr>"

definition flaky_test :: "(nat, string) test" where
  "flaky_test = \<lparr>tName = ''flaky'', tDescription = [],
     tRun = (\<lambda>_ ctx w. Ret (if w = 0 then [''not yet''] else [], ctx, Suc w))\<rparr>"

definition failing_test :: "(nat, string) test" where
  "failing_test = \<lparr>tName = ''failing'', tDescription = [],
     tRun = (\<lambda>_ ctx w. Ret ([''no''], ctx, Suc w))\<rparr>"

definition passing_test :: "(nat, string) test" where
  "passing_test = \<lparr>tName = ''passing'', tDescription = [], tRun = (\<lambda>_ ctx w. Ret ([], ctx, Suc w))\<rparr>"

definition three_tests :: "bool \<Rightarrow> (nat, string) Suite" where
  "three_tests failfast = \<lparr>s_path = ''s.json'', s_name = ''three'', s_typ = ''HTTP'', s_runCron = [],
     s_runEvery = 0, s_retryCount = 2, s_retryWait = 1, s_timeout = 30, s_failfast = failfast,
     s_tests = [flaky_test, failing_test, passing_test]\<rparr>"

lemmas example_run_defs =
  still_clock_def flaky_test_def failing_test_def passing_test_def three_tests_def
  Suite_Run_def runTests_def runTestWithRetry_def runTest_def retry_loop.simps count_failed_def
  notifier_defs

text \<open>
  C1: The report of a suite run is complete and honest. It is about the suite; the tests with a
  report are the first tests of the suite, in their order; \<open>NbFailed\<close> is the number of reports that
  hold an error; with \<open>failFast\<close> no report but the last holds one; and a test may be left out only
  because fail-fast stopped at a failed test or because the context was found cancelled.
\<close>

theorem Suite_Run_report:
  assumes "Suite_Run rt s ctx w = Ret (r, w')"
  shows "r_Suite r = s \<and> NbFailed r = length (filter failed (TestReports r)) \<and>
    ran_tests (s_failfast s) (\<exists>w1 w2. rt_ctx_err rt w1 = (True, w2)) (s_tests s) (TestReports r)"
  using assms by (rule Suite_Run_ran)

theorem Suite_Run_report_witness:
  "\<exists>r w. Suite_Run still_clock (three_tests True) \<lparr>ctx_md = None\<rparr> 0 = Ret (r, w) \<and>
     NbFailed r = 1 \<and> length (filter failed (TestReports r)) = 1 \<and> length (TestReports r) = 2"
proof -
  let ?run = "Suite_Run still_clock (three_tests True) \<lparr>ctx_md = None\<rparr> 0"
  obtain r w where run: "?run = Ret (r, w)" "NbFailed r = 1" "length (TestReports r) = 2"
    by (simp add: example_run_defs)
  with Suite_Run_report [OF run(1)] show ?thesis by auto
qed

text \<open>
  C2: Without \<open>failFast\<close> and with a context that is never cancelled, every test of the suite gets
  exactly one report, in the order of the suite, and the run ends with a report whenever no test
  panics.
\<close>

theorem Suite_Run_complete:
  assumes "\<not> s_failfast s" and "\<forall>w. \<not> fst (rt_ctx_err rt w)"
    and "\<forall>t \<in> set (s_tests s). never_panics t"
  shows "\<exists>r w'. Suite_Run rt s ctx w = Ret (r, w') \<and> map Test (TestReports r) = s_tests s"
proof -
  from Suite_Run_returns [OF assms(3)] obtain r w' where run: "Suite_Run rt s ctx w = Ret (r, w')"
    by (metis returns_iff surj_pair)
  then have "map Test (TestReports r) = s_tests s"
  proof (rule Suite_Run_Ret)
    fix now w1 r1 ctx1 w2 now'
    assume "tests_loop rt s (s_tests s) (NewReport s now) (NewMDContext ctx NewMD) w1
      = Ret (r1, ctx1, w2)" and r: "r = Report_Done now' r1"
    then have "ran_tests (s_failfast s) (\<exists>w1 w2. rt_ctx_err rt w1 = (True, w2)) (s_tests s)
        (TestReports r1)"
      by (auto simp: NewReport_def dest: tests_loop_ran)
    moreover have "(\<exists>w1 w2. rt_ctx_err rt w1 = (True, w2)) = False"
      using assms(2) by (metis fst_conv)
    ultimately have "ran_tests (s_failfast s) False (s_tests s) (TestReports r1)"
      by simp
    with assms(1) r show ?thesis by (auto simp: ran_tests_def Report_Done_def)
  qed
  with run show ?thesis by blast
qed

theorem Suite_Run_complete_witness:
  "\<exists>r w'. Suite_Run still_clock (three_tests False) \<lparr>ctx_md = None\<rparr> 0 = Ret (r, w') \<and>
     map Test (TestReports r) = [flaky_test, failing_test, passing_test]"
proof -
  have "\<exists>r w'. Suite_Run still_clock (three_tests False) \<lparr>ctx_md = None\<rparr> 0 = Ret (r, w') \<and>
     map Test (TestReports r) = s_tests (three_tests False)"
    by (rule Suite_Run_complete)
      (auto simp: three_tests_def still_clock_def never_panics_def flaky_test_def failing_test_def
        passing_test_def)
  then show ?thesis by (simp add: three_tests_def)
qed



end
