(* ===== verification/Go_Path.thy ===== *)
theory Go_Path
  imports Go_Strings
begin

text \<open>
  Package \<open>path/filepath\<close> on Unix, as far as the program uses it. \<open>clean_path\<close> keeps the
  components seen so far on a stack (the last one first), as \<open>Clean\<close> keeps them in its output
  buffer: \<open>.\<close> and empty components are dropped and \<open>..\<close> removes the component before it.
\<close>

definition is_abs :: "string \<Rightarrow> bool" where
  "is_abs p \<longleftrightarrow> has_prefix p ''/''"

definition clean_step :: "bool \<Rightarrow> string \<Rightarrow> string list \<Rightarrow> string list" where
  "clean_step rooted c st =
     (if c = [] \<or> c = ''.'' then st
      else if c = ''..'' then
        (case st of
           [] \<Rightarrow> if rooted then [] else [''..'']
         | t # ts \<Rightarrow> if t = ''..'' then ''..'' # st else ts)
      else c # st)"

definition clean_path :: "string \<Rightarrow> string" where
  "clean_path p =
     (if p = [] then ''.''
      else
        let rooted = (hd p = CHR ''/'');
            body = join_with ''/'' (rev (fold (clean_step rooted) (split_on CHR ''/'' p) []))
        in if rooted then CHR ''/'' # body else if body = [] then ''.'' else body)"

text \<open>\<open>filepath.Join\<close>: leading empty elements are dropped; all empty gives the empty string.\<close>

definition path_join :: "string list \<Rightarrow> string" where
  "path_join es =
     (case dropWhile (\<lambda>e. e = []) es of
        [] \<Rightarrow> []
      | e # es' \<Rightarrow> clean_path (join_with ''/'' (e # es')))"

text \<open>\<open>filepath.Dir\<close>: everything up to and including the last slash, cleaned.\<close>

definition path_dir :: "string \<Rightarrow> string" where
  "path_dir p = clean_path (rev (dropWhile (\<lambda>c. c \<noteq> CHR ''/'') (rev p)))"

definition path_base :: "string \<Rightarrow> string" where
  "path_base p =
     (if p = [] then ''.''
      else
        let q = rev (dropWhile (\<lambda>c. c = CHR ''/'') (rev p));
            b = rev (takeWhile (\<lambda>c. c \<noteq> CHR ''/'') (rev q))
        in if b = [] then ''/'' else b)"

text \<open>\<open>filepath.Abs\<close>, given what \<open>os.Getwd\<close> returns.\<close>

definition path_abs :: "string option \<Rightarrow> string \<Rightarrow> string option" where
  "path_abs cwd p =
     (if is_abs p then Some (clean_path p)
      else (case cwd of None \<Rightarrow> None | Some wd \<Rightarrow> Some (path_join [wd, p])))"

lemma is_abs_iff: "is_abs p \<longleftrightarrow> (\<exists>q. p = CHR ''/'' # q)"
  by (auto simp: is_abs_def has_prefix_iff)

lemma clean_path_rooted: "is_abs p \<Longrightarrow> is_abs (clean_path p)"
  by (auto simp: is_abs_iff clean_path_def Let_def)

lemma clean_path_not_Nil [simp]: "clean_path p \<noteq> []"
  by (auto simp: clean_path_def Let_def)

text \<open>
  A component of the cleaned path is a component of the path: cleaning invents nothing. With the
  separator as the only thing added, \<open>clean_path\<close> of a path without a colon has none.
\<close>

lemma fold_clean_step_set:
  "set (fold (clean_step r) cs st) \<subseteq> set cs \<union> set st \<union> {''..''}"
proof (induction cs arbitrary: st)
  case Nil
  then show ?case by auto
next
  case (Cons c cs)
  have "set (clean_step r c st) \<subseteq> insert c (set st) \<union> {''..''}"
    by (auto simp: clean_step_def split: list.splits)
  with Cons.IH [of "clean_step r c st"] show ?case by auto
qed

lemma set_join_with: "set (join_with sep ss) \<subseteq> set sep \<union> \<Union> (set ` set ss)"
  by (induction sep ss rule: join_with.induct) auto

lemma split_on_chars: "p \<in> set (split_on d s) \<Longrightarrow> set p \<subseteq> set s"
proof (induction s arbitrary: p)
  case Nil
  then show ?case by simp
next
  case (Cons c s)
  obtain q qs where qs: "split_on d s = q # qs"
    by (cases "split_on d s") auto
  with Cons.IH have "set q \<subseteq> set s" and "\<forall>r \<in> set qs. set r \<subseteq> set s"
    by auto
  with Cons.prems qs show ?case by (auto split: if_splits)
qed

lemma clean_path_chars: "set (clean_path p) \<subseteq> set p \<union> {CHR ''/'', CHR ''.''}"
proof -
  have body: "set (join_with ''/'' (rev (fold (clean_step r) (split_on CHR ''/'' p) [])))
      \<subseteq> set p \<union> {CHR ''/'', CHR ''.''}" for r
    using set_join_with [of "''/''" "rev (fold (clean_step r) (split_on CHR ''/'' p) [])"]
      fold_clean_step_set [of r "split_on CHR ''/'' p" "[]"] split_on_chars [of _ "CHR ''/''" p]
    by (fastforce simp: image_iff)
  then show ?thesis
    by (auto simp: clean_path_def Let_def)
qed

lemma path_join_abs: "is_abs d \<Longrightarrow> is_abs (path_join [d, p])"
  by (auto simp: path_join_def is_abs_iff intro!: clean_path_rooted [unfolded is_abs_iff])

lemma path_abs_abs:
  assumes "path_abs cwd p = Some q" and "\<And>wd. cwd = Some wd \<Longrightarrow> is_abs wd"
  shows "is_abs q"
  using assms
  by (auto simp: path_abs_def clean_path_rooted path_join_abs split: if_splits option.splits)

end
