(* ===== verification/Plugin.thy ===== *)
theory Plugin
  imports Go_Path
begin

text \<open>
  Package \<open>plugin\<close> (\<open>plugin/plugin.go\<close>): the registry of test suite and notifier plugins. The
  state is the map \<open>register.r\<close>, from plugin URIs to registrations; the operations hold the
  registry's lock from their first line to their last, so each is one step on that map.

  A registration is generic in the configuration \<open>'c\<close> and in what \<open>Init\<close> gives, \<open>'i\<close>. The only
  thing the program does with \<open>Registration.Config\<close> is to allocate a zero value of the type it
  points to, so the model keeps that zero value, and \<open>None\<close> when \<open>Config\<close> is no pointer.
\<close>

type_synonym plugin_type = string

definition TestSuitePlugin :: plugin_type where
  "TestSuitePlugin = ''aragorn.testsuite.v1''"

definition NotifierPlugin :: plugin_type where
  "NotifierPlugin = ''aragorn.notifier.v1''"

record 'c InitContext =
  ic_Config :: 'c
  ic_Path :: string
  ic_Root :: string

record ('c, 'i) Registration =
  reg_Type :: plugin_type
  reg_ID :: string
  reg_Config :: "'c option"
  InitFn :: "'c InitContext \<Rightarrow> (string + 'i) run"

type_synonym ('c, 'i) registry = "(string, ('c, 'i) Registration) gomap"

definition registrationURI :: "plugin_type \<Rightarrow> string \<Rightarrow> string" where
  "registrationURI t i = t @ ''.'' @ i"

definition URI :: "('c, 'i) Registration \<Rightarrow> string" where
  "URI r = registrationURI (reg_Type r) (reg_ID r)"

definition Init :: "('c, 'i) Registration \<Rightarrow> 'c InitContext \<Rightarrow> (string + 'i) run" where
  "Init r ic = InitFn r ic"

definition Register :: "('c, 'i) Registration \<Rightarrow> ('c, 'i) registry \<Rightarrow> ('c, 'i) registry run" where
  "Register r reg =
     (if reg_Type r = [] then Panics (Explicit_Panic ''plugin: no type'')
      else if reg_ID r = [] then Panics (Explicit_Panic ''plugin: no id'')
      else Ret (AList.update (URI r) r reg))"

definition NewContext :: "('c, 'i) Registration \<Rightarrow> string \<Rightarrow> 'c InitContext run" where
  "NewContext r path =
     (case reg_Config r of
        None \<Rightarrow> Panics (Explicit_Panic ''reflect: Elem of invalid type'')
      | Some zero \<Rightarrow> Ret \<lparr>ic_Config = zero, ic_Path = path, ic_Root = path_dir path\<rparr>)"

text \<open>A plugin that is not registered is \<open>None\<close>, the nil pointer of the code.\<close>

definition Get :: "('c, 'i) registry \<Rightarrow> plugin_type \<Rightarrow> string \<Rightarrow> ('c, 'i) Registration option" where
  "Get reg t i = map_of reg (registrationURI t i)"

definition ForType :: "('c, 'i) registry \<Rightarrow> plugin_type \<Rightarrow> ('c, 'i) Registration list" where
  "ForType reg t = map snd (filter (\<lambda>(k, r). has_prefix k t) reg)"

subsection \<open>The registry as a keyed store\<close>

text \<open>
  Two pairs of a type and an id name the same entry when they have the same URI, whatever the
  types are; for one type, and for the two types of the program, the URI determines the pair.
\<close>

definition uri_key :: "plugin_type \<times> string \<Rightarrow> plugin_type \<times> string" where
  "uri_key = (\<lambda>(t, i). (registrationURI t i, []))"

interpretation plugin_store: key_value
  "\<lambda>(t, i) r reg. AList.update (registrationURI t i) r reg" "\<lambda>reg (t, i). Get reg t i" uri_key
proof unfold_locales
  fix k k' :: "plugin_type \<times> string" and v :: "('a, 'b) Registration" and m :: "('a, 'b) registry"
  show "(case k' of (t, i) \<Rightarrow> Get ((case k of (t, i) \<Rightarrow> \<lambda>r. AList.update (registrationURI t i) r) v m) t i)
    = (if uri_key k = uri_key k' then Some v else (case k' of (t, i) \<Rightarrow> Get m t i))"
    by (cases k; cases k') (simp add: Get_def uri_key_def update_conv' eq_commute)
qed

definition known_type :: "plugin_type \<Rightarrow> bool" where
  "known_type t \<longleftrightarrow> t = TestSuitePlugin \<or> t = NotifierPlugin"

lemma has_prefix_URI_known:
  assumes "known_type t" and "known_type t'"
  shows "has_prefix (registrationURI t i) t' \<longleftrightarrow> t = t'"
  using assms by (auto simp: known_type_def registrationURI_def TestSuitePlugin_def NotifierPlugin_def)

lemma registrationURI_same_type [simp]: "registrationURI t i = registrationURI t j \<longleftrightarrow> i = j"
  by (simp add: registrationURI_def)

lemma registrationURI_known:
  assumes "known_type t" and "known_type t'"
  shows "registrationURI t i = registrationURI t' j \<longleftrightarrow> t = t' \<and> i = j"
proof
  assume eq: "registrationURI t i = registrationURI t' j"
  then have "has_prefix (registrationURI t i) t'"
    by (simp add: registrationURI_def)
  with has_prefix_URI_known [OF assms] have "t = t'" by blast
  with eq show "t = t' \<and> i = j" by simp
qed auto

text \<open>What every sequence of registrations of the two plugin types keeps true.\<close>

definition registry_ok :: "('c, 'i) registry \<Rightarrow> bool" where
  "registry_ok reg \<longleftrightarrow> wf_map reg \<and> (\<forall>(k, r) \<in> set reg. k = URI r \<and> known_type (reg_Type r))"

lemma registry_ok_Nil: "registry_ok []"
  by (simp add: registry_ok_def)

lemma registry_ok_Register:
  assumes "registry_ok reg" and "known_type (reg_Type r)" and "Register r reg = Ret reg'"
  shows "registry_ok reg'"
proof -
  from assms(3) have "reg' = AList.update (URI r) r reg"
    by (auto simp: Register_def split: if_splits)
  with assms(1,2) set_update_subset [of "URI r" r reg] show ?thesis
    by (fastforce simp: registry_ok_def)
qed

subsection \<open>Properties\<close>

definition null_plugin :: "plugin_type \<Rightarrow> string \<Rightarrow> (unit, unit) Registration" where
  "null_plugin t i =
     \<lparr>reg_Type = t, reg_ID = i, reg_Config = Some (), InitFn = (\<lambda>_. Ret (Inr ()))\<rparr>"

text \<open>
  Registering a plugin of one of the two types changes what \<open>Get\<close> finds for that type and id
  and nothing else: the last registration wins, an entry of the other type or of another id is
  what it was before. A registration without an id panics and registers nothing.
\<close>

theorem Get_Register:
  assumes "known_type (reg_Type r)" and "known_type t"
  shows "(case Register r reg of
            Panics p \<Rightarrow> reg_ID r = [] \<and> p = Explicit_Panic ''plugin: no id''
          | Ret reg' \<Rightarrow> reg_ID r \<noteq> [] \<and>
              Get reg' t i = (if t = reg_Type r \<and> i = reg_ID r then Some r else Get reg t i))"
proof -
  have "reg_Type r \<noteq> []"
    using assms(1) by (auto simp: known_type_def TestSuitePlugin_def NotifierPlugin_def)
  moreover have "Get (AList.update (URI r) r reg) t i
      = (if t = reg_Type r \<and> i = reg_ID r then Some r else Get reg t i)"
    using plugin_store.get_put [of "(reg_Type r, reg_ID r)" r reg "(t, i)"]
      registrationURI_known [OF assms, of "reg_ID r" i]
    by (auto simp: uri_key_def URI_def)
  ultimately show ?thesis by (simp add: Register_def)
qed

theorem Get_Register_witness:
  "\<exists>reg'. Register (null_plugin NotifierPlugin ''HTTP'') [] = Ret reg' \<and>
     Get reg' NotifierPlugin ''HTTP'' = Some (null_plugin NotifierPlugin ''HTTP'') \<and>
     Get reg' TestSuitePlugin ''HTTP'' = None"
proof -
  let ?r = "null_plugin NotifierPlugin ''HTTP''"
  have k: "known_type (reg_Type ?r)" "known_type NotifierPlugin" "known_type TestSuitePlugin"
    by (simp_all add: null_plugin_def known_type_def)
  have reg: "Register ?r [] = Ret [(URI ?r, ?r)]"
    by (simp add: Register_def null_plugin_def NotifierPlugin_def)
  have "Get [(URI ?r, ?r)] NotifierPlugin ''HTTP'' = Some ?r"
    using Get_Register [OF k(1,2), where reg = "[]" and i = "''HTTP''"] unfolding reg
    by (simp add: null_plugin_def)
  moreover have "TestSuitePlugin \<noteq> NotifierPlugin"
    by (simp add: TestSuitePlugin_def NotifierPlugin_def)
  then have "Get [(URI ?r, ?r)] TestSuitePlugin ''HTTP'' = None"
    using Get_Register [OF k(1,3), where reg = "[]" and i = "''HTTP''"] unfolding reg
    by (simp add: null_plugin_def Get_def)
  ultimately show ?thesis using reg by blast
qed

text \<open>
  \<open>ForType\<close> gives exactly the plugins of that type, each of them one that \<open>Get\<close> finds under its
  id, although it only compares a prefix of the URI: the two types of the program are not a prefix
  of one another's URIs.
\<close>

theorem ForType_exact:
  assumes "registry_ok reg" and "known_type t"
  shows "r \<in> set (ForType reg t) \<longleftrightarrow> reg_Type r = t \<and> Get reg t (reg_ID r) = Some r"
proof
  assume "r \<in> set (ForType reg t)"
  then obtain k where kr: "(k, r) \<in> set reg" "has_prefix k t" by (auto simp: ForType_def)
  with assms(1) have "k = URI r" "known_type (reg_Type r)" by (auto simp: registry_ok_def)
  moreover from this kr(2) assms(2) have "reg_Type r = t"
    by (simp add: URI_def has_prefix_URI_known)
  moreover have "map_of reg k = Some r"
    using assms(1) kr(1) by (simp add: registry_ok_def wf_map_in_iff)
  ultimately show "reg_Type r = t \<and> Get reg t (reg_ID r) = Some r"
    by (auto simp: Get_def URI_def)
next
  assume "reg_Type r = t \<and> Get reg t (reg_ID r) = Some r"
  then have "(registrationURI t (reg_ID r), r) \<in> set reg"
    by (auto simp: Get_def dest: map_of_SomeD)
  then show "r \<in> set (ForType reg t)"
    using assms(2) by (force simp: ForType_def has_prefix_URI_known)
qed

theorem ForType_exact_witness:
  "\<exists>reg. registry_ok reg \<and> null_plugin TestSuitePlugin ''HTTP'' \<in> set (ForType reg TestSuitePlugin)"
proof -
  let ?r = "null_plugin TestSuitePlugin ''HTTP''"
  have reg: "Register ?r [] = Ret [(URI ?r, ?r)]"
    by (simp add: Register_def null_plugin_def TestSuitePlugin_def)
  have k: "known_type TestSuitePlugin" by (simp add: known_type_def)
  have ok: "registry_ok [(URI ?r, ?r)]"
    using registry_ok_Register [OF registry_ok_Nil _ reg] k by (simp add: null_plugin_def)
  from ForType_exact [OF this k, of ?r] ok show ?thesis
    by (auto simp: Get_def URI_def null_plugin_def)
qed

end
