(* ===== verification/Suite_Config.thy ===== *)
theory Suite_Config
  imports Suite Plugin
begin

text \<open>
  How suites and notifiers are built from configuration (\<open>server/config.go\<close>,
  \<open>server/suite_option.go\<close>, and \<open>SuiteConfig\<close>, \<open>NewSuite\<close>, \<open>NewSuiteFromReader\<close>,
  \<open>NewSuiteFromFile\<close> of \<open>server/suite.go\<close>).

  The surroundings are a record of functions: the files, the reflective JSON decoding of a Go
  struct over its present value (as \<open>json.Decode\<close> and \<open>json.Unmarshal\<close> do, an error being its
  text), and \<open>regexp.Compile\<close>, which gives the match predicate. The two kinds of plugins share one
  registry, so what \<open>Init\<close> returns is a sum, and the type assertions of the code panic on the other
  summand. A reader is its content and, when it has one, its name. Errors keep the structure that
  the code's \<open>fmt.Errorf\<close> wrappings print.
\<close>

record SuiteConfig =
  sc_Path :: string
  sc_Name :: string
  sc_RunEvery :: int
  sc_RunCron :: string
  sc_RetryCount :: int
  sc_RetryWait :: int
  sc_Timeout :: int
  sc_FailFast :: bool
  sc_Type :: string
  sc_Suite :: "string option"
  sc_baseSuite :: "string option"
  sc_filter :: string

text \<open>The list of suites holds pointers: \<open>None\<close> is the nil pointer a JSON null gives.\<close>

record Config =
  cfg_Notifiers :: "(string, string) gomap"
  cfg_Suites :: "SuiteConfig option list"
  cfg_path :: string
  cfg_dir :: string

datatype config_error =
    Bad_Config string
  | Cannot_Open_Config string
  | Bad_Suite string
  | Unsupported_Type string
  | Bad_Test_Suite string
  | Bad_Base_Suite string
  | Init_Failed string
  | Bad_Filter string
  | Cannot_Open_Suite string
  | Plugin_Not_Found
  | Bad_Notifier_Config string
  | In_File string config_error

datatype ('w, 'e) plugin_instance =
    Suite_Instance "('w, 'e) test list"
  | Notifier_Instance "(('w, 'e) report, 'w) notifier"

type_synonym reader = "string \<times> string option"

record ('c, 'w, 'e) config_env =
  open_file :: "string \<Rightarrow> string + string"
  decode_suite :: "string \<Rightarrow> SuiteConfig \<Rightarrow> string + SuiteConfig"
  decode_config :: "string \<Rightarrow> string + (string, string) gomap \<times> SuiteConfig option list"
  unmarshal :: "string \<Rightarrow> 'c \<Rightarrow> string + 'c"
  compile_regexp :: "string \<Rightarrow> string + (string \<Rightarrow> bool)"
  plugins :: "('c, ('w, 'e) plugin_instance) registry"

subsection \<open>Suite options\<close>

type_synonym SuiteOption = "SuiteConfig \<Rightarrow> SuiteConfig"

definition Timeout :: "int \<Rightarrow> SuiteOption" where
  "Timeout d = (\<lambda>cfg. cfg\<lparr>sc_Timeout := d\<rparr>)"

definition FailFast :: "bool \<Rightarrow> SuiteOption" where
  "FailFast ff = (\<lambda>cfg. cfg\<lparr>sc_FailFast := ff\<rparr>)"

definition Filter :: "string \<Rightarrow> SuiteOption" where
  "Filter f = (\<lambda>cfg. cfg\<lparr>sc_filter := f\<rparr>)"

definition baseSuite :: "string \<Rightarrow> SuiteOption" where
  "baseSuite bs = (\<lambda>cfg. cfg\<lparr>sc_baseSuite := Some bs\<rparr>)"

definition applyOptions :: "SuiteOption list \<Rightarrow> SuiteConfig \<Rightarrow> SuiteConfig" where
  "applyOptions opts cfg = fold (\<lambda>opt c. opt c) opts cfg"

definition applyConfig ::
  "('c, 'w, 'e) config_env \<Rightarrow> SuiteConfig \<Rightarrow> ('w, 'e) Suite \<Rightarrow> config_error + ('w, 'e) Suite" where
  "applyConfig env cfg s =
     (let s1 = (if sc_Name cfg \<noteq> [] then s\<lparr>s_name := sc_Name cfg\<rparr> else s);
          s2 = (if 0 < sc_RunEvery cfg then s1\<lparr>s_runEvery := sc_RunEvery cfg\<rparr> else s1);
          s3 = (if sc_RunCron cfg \<noteq> [] then s2\<lparr>s_runCron := sc_RunCron cfg\<rparr> else s2);
          s4 = (if 0 < sc_RetryCount cfg then s3\<lparr>s_retryCount := sc_RetryCount cfg\<rparr> else s3);
          s5 = (if 0 < sc_RetryWait cfg then s4\<lparr>s_retryWait := sc_RetryWait cfg\<rparr> else s4);
          s6 = (if 0 < sc_Timeout cfg then s5\<lparr>s_timeout := sc_Timeout cfg\<rparr> else s5);
          s7 = (if sc_FailFast cfg then s6\<lparr>s_failfast := True\<rparr> else s6)
      in if sc_filter cfg = [] then Inr s7
         else case compile_regexp env (sc_filter cfg) of
                Inl e \<Rightarrow> Inl (Bad_Filter e)
              | Inr re \<Rightarrow> Inr (s7\<lparr>s_tests := filter (\<lambda>t. re (tName t)) (s_tests s7)\<rparr>))"

subsection \<open>Suites\<close>

definition NewSuite ::
  "('c, 'w, 'e) config_env \<Rightarrow> string \<Rightarrow> string \<Rightarrow> ('w, 'e) test list \<Rightarrow> SuiteConfig
    \<Rightarrow> config_error + ('w, 'e) Suite" where
  "NewSuite env path typ tests cfg =
     applyConfig env cfg
       \<lparr>s_path = path, s_name = [], s_typ = typ, s_runCron = [], s_runEvery = 0, s_retryCount = 0,
        s_retryWait = 0, s_timeout = 0, s_failfast = False, s_tests = tests\<rparr>"

definition default_SuiteConfig :: SuiteConfig where
  "default_SuiteConfig =
     \<lparr>sc_Path = [], sc_Name = [], sc_RunEvery = 0, sc_RunCron = [], sc_RetryCount = 1,
      sc_RetryWait = 1000000000, sc_Timeout = 30000000000, sc_FailFast = False, sc_Type = [],
      sc_Suite = None, sc_baseSuite = None, sc_filter = []\<rparr>"

definition raw_bytes :: "string option \<Rightarrow> string" where
  "raw_bytes b = (case b of None \<Rightarrow> [] | Some s \<Rightarrow> s)"

text \<open>The type assertion \<open>suite.(testsuite.Suite)\<close> and the call of \<open>Tests\<close>.\<close>

definition instance_tests :: "('w, 'e) plugin_instance \<Rightarrow> ('w, 'e) test list run" where
  "instance_tests i =
     (case i of
        Suite_Instance ts \<Rightarrow> Ret ts
      | Notifier_Instance _ \<Rightarrow> Panics (Explicit_Panic ''interface conversion''))"

definition NewSuiteFromReader ::
  "('c, 'w, 'e) config_env \<Rightarrow> reader \<Rightarrow> SuiteOption list \<Rightarrow> (config_error + ('w, 'e) Suite) run" where
  "NewSuiteFromReader env r opts =
     (case decode_suite env (fst r) default_SuiteConfig of
        Inl e \<Rightarrow> Ret (Inl (Bad_Suite e))
      | Inr cfg0 \<Rightarrow>
          let cfg = applyOptions opts cfg0;
              path = (case snd r of None \<Rightarrow> [] | Some n \<Rightarrow> n)
          in case Get (plugins env) TestSuitePlugin (sc_Type cfg) of
               None \<Rightarrow> Ret (Inl (Unsupported_Type (sc_Type cfg)))
             | Some reg \<Rightarrow>
                 bind_run (NewContext reg path) (\<lambda>ic.
                   case unmarshal env (raw_bytes (sc_Suite cfg)) (ic_Config ic) of
                     Inl e \<Rightarrow> Ret (Inl (Bad_Test_Suite e))
                   | Inr c1 \<Rightarrow>
                       (case (case sc_baseSuite cfg of None \<Rightarrow> Inr c1 | Some bs \<Rightarrow> unmarshal env bs c1) of
                          Inl e \<Rightarrow> Ret (Inl (Bad_Base_Suite e))
                        | Inr c2 \<Rightarrow>
                            bind_run (Init reg (ic\<lparr>ic_Config := c2\<rparr>)) (\<lambda>res.
                              case res of
                                Inl e \<Rightarrow> Ret (Inl (Init_Failed e))
                              | Inr i \<Rightarrow>
                                  bind_run (instance_tests i) (\<lambda>ts.
                                    Ret (NewSuite env path (sc_Type cfg) ts cfg))))))"

definition NewSuiteFromFile ::
  "('c, 'w, 'e) config_env \<Rightarrow> string \<Rightarrow> SuiteOption list \<Rightarrow> (config_error + ('w, 'e) Suite) run" where
  "NewSuiteFromFile env path opts =
     (case open_file env path of
        Inl e \<Rightarrow> Ret (Inl (Cannot_Open_Suite e))
      | Inr text \<Rightarrow> NewSuiteFromReader env (text, Some path) opts)"

subsection \<open>The base configuration\<close>

definition NewConfigFromReader ::
  "('c, 'w, 'e) config_env \<Rightarrow> reader \<Rightarrow> config_error + Config" where
  "NewConfigFromReader env r =
     (case decode_config env (fst r) of
        Inl e \<Rightarrow> Inl (Bad_Config e)
      | Inr (ns, ss) \<Rightarrow>
          (case snd r of
             None \<Rightarrow> Inr \<lparr>cfg_Notifiers = ns, cfg_Suites = ss, cfg_path = [], cfg_dir = []\<rparr>
           | Some n \<Rightarrow> Inr \<lparr>cfg_Notifiers = ns, cfg_Suites = ss, cfg_path = n, cfg_dir = path_dir n\<rparr>))"

definition NewConfigFromFile :: "('c, 'w, 'e) config_env \<Rightarrow> string \<Rightarrow> config_error + Config" where
  "NewConfigFromFile env path =
     (case open_file env path of
        Inl e \<Rightarrow> Inl (Cannot_Open_Config e)
      | Inr text \<Rightarrow> NewConfigFromReader env (text, Some path))"

definition getFilePath :: "Config \<Rightarrow> string \<Rightarrow> string" where
  "getFilePath cfg path = (if is_abs path then path else path_join [cfg_dir cfg, path])"

text \<open>
  \<open>genSuite\<close> returns its result and the suite configuration as it leaves it: the options are
  applied to the configuration the base configuration points to.
\<close>

definition genSuite ::
  "('c, 'w, 'e) config_env \<Rightarrow> string \<Rightarrow> SuiteOption list \<Rightarrow> SuiteConfig
    \<Rightarrow> ((config_error + ('w, 'e) Suite) \<times> SuiteConfig) run" where
  "genSuite env path options scfg =
     (case open_file env path of
        Inl e \<Rightarrow> Ret (Inl (Cannot_Open_Suite e), scfg)
      | Inr text \<Rightarrow>
          let opts = (case sc_Suite scfg of None \<Rightarrow> [] | Some bs \<Rightarrow> [baseSuite bs]) in
          bind_run (NewSuiteFromReader env (text, Some path) opts) (\<lambda>res.
            case res of
              Inl e \<Rightarrow> Ret (Inl e, scfg)
            | Inr s \<Rightarrow>
                let scfg1 = applyOptions options scfg in
                Ret (applyConfig env scfg1 s, scfg1)))"

fun gen_suites ::
  "('c, 'w, 'e) config_env \<Rightarrow> Config \<Rightarrow> SuiteOption list \<Rightarrow> SuiteConfig option list
    \<Rightarrow> ((config_error + ('w, 'e) Suite list) \<times> SuiteConfig option list) run" where
  "gen_suites env cfg options [] = Ret (Inr [], [])"
| "gen_suites env cfg options (None # rest) = Panics Nil_Dereference"
| "gen_suites env cfg options (Some scfg # rest) =
     (let path = getFilePath cfg (sc_Path scfg) in
      bind_run (genSuite env path options scfg) (\<lambda>(res, scfg1).
        case res of
          Inl e \<Rightarrow> Ret (Inl (In_File path e), Some scfg1 # rest)
        | Inr s \<Rightarrow>
            bind_run (gen_suites env cfg options rest) (\<lambda>(res', rest1).
              Ret (case res' of Inl e \<Rightarrow> Inl e | Inr ss \<Rightarrow> Inr (s # ss), Some scfg1 # rest1))))"

definition GenSuites ::
  "('c, 'w, 'e) config_env \<Rightarrow> Config \<Rightarrow> SuiteOption list
    \<Rightarrow> ((config_error + ('w, 'e) Suite list) \<times> Config) run" where
  "GenSuites env cfg options =
     bind_run (gen_suites env cfg options (cfg_Suites cfg)) (\<lambda>(res, scfgs).
       Ret (res, cfg\<lparr>cfg_Suites := scfgs\<rparr>))"

definition instance_notifier ::
  "('w, 'e) plugin_instance \<Rightarrow> (('w, 'e) report, 'w) notifier run" where
  "instance_notifier i =
     (case i of
        Notifier_Instance n \<Rightarrow> Ret n
      | Suite_Instance _ \<Rightarrow> Panics (Explicit_Panic ''interface conversion''))"

definition genNotifierPlugin ::
  "('c, 'w, 'e) config_env \<Rightarrow> Config \<Rightarrow> string \<Rightarrow> string
    \<Rightarrow> (config_error + (('w, 'e) report, 'w) notifier) run" where
  "genNotifierPlugin env cfg i b =
     (case Get (plugins env) NotifierPlugin i of
        None \<Rightarrow> Ret (Inl Plugin_Not_Found)
      | Some reg \<Rightarrow>
          bind_run (NewContext reg (cfg_path cfg)) (\<lambda>ic.
            case unmarshal env b (ic_Config ic) of
              Inl e \<Rightarrow> Ret (Inl (Bad_Notifier_Config e))
            | Inr c \<Rightarrow>
                bind_run (Init reg (ic\<lparr>ic_Config := c\<rparr>)) (\<lambda>res.
                  case res of
                    Inl e \<Rightarrow> Ret (Inl (Init_Failed e))
                  | Inr n \<Rightarrow> map_run Inr (instance_notifier n))))"

text \<open>The loop of \<open>GenNotifier\<close>: a notifier that cannot be set up is logged and left out.\<close>

fun gen_notifiers ::
  "('c, 'w, 'e) config_env \<Rightarrow> Config \<Rightarrow> (string, string) gomap
    \<Rightarrow> (('w, 'e) report, 'w) notifier list run" where
  "gen_notifiers env cfg [] = Ret []"
| "gen_notifiers env cfg ((i, b) # rest) =
     bind_run (genNotifierPlugin env cfg i b) (\<lambda>res.
       bind_run (gen_notifiers env cfg rest) (\<lambda>ns.
         Ret (case res of Inl _ \<Rightarrow> ns | Inr n \<Rightarrow> n # ns)))"

definition GenNotifier ::
  "('c, 'w, 'e) config_env \<Rightarrow> Config \<Rightarrow> (('w, 'e) report, 'w) notifier option run" where
  "GenNotifier env cfg =
     bind_run (gen_notifiers env cfg (cfg_Notifiers cfg)) (\<lambda>ns.
       Ret (case ns of [] \<Rightarrow> None | [n] \<Rightarrow> Some n | _ \<Rightarrow> Some (Multi ns)))"

subsection \<open>What the settings of a suite come from\<close>

definition pick_pos :: "int \<Rightarrow> int \<Rightarrow> int" where
  "pick_pos new old = (if 0 < new then new else old)"

definition pick_str :: "string \<Rightarrow> string \<Rightarrow> string" where
  "pick_str new old = (if new \<noteq> [] then new else old)"

text \<open>\<open>overlay\<close> is the effect of a configuration on the settings, \<open>keeps\<close> its effect on the tests.\<close>

definition overlay :: "SuiteConfig \<Rightarrow> ('w, 'e) Suite \<Rightarrow> ('w, 'e) Suite" where
  "overlay cfg s = s\<lparr>s_name := pick_str (sc_Name cfg) (s_name s),
     s_runCron := pick_str (sc_RunCron cfg) (s_runCron s),
     s_runEvery := pick_pos (sc_RunEvery cfg) (s_runEvery s),
     s_retryCount := pick_pos (sc_RetryCount cfg) (s_retryCount s),
     s_retryWait := pick_pos (sc_RetryWait cfg) (s_retryWait s),
     s_timeout := pick_pos (sc_Timeout cfg) (s_timeout s),
     s_failfast := sc_FailFast cfg \<or> s_failfast s\<rparr>"

definition keeps ::
  "('c, 'w, 'e) config_env \<Rightarrow> string \<Rightarrow> ('w, 'e) test list \<Rightarrow> ('w, 'e) test list \<Rightarrow> bool" where
  "keeps env f ts ts' \<longleftrightarrow>
     (if f = [] then ts' = ts
      else (\<exists>re. compile_regexp env f = Inr re \<and> ts' = filter (\<lambda>t. re (tName t)) ts))"

lemma applyConfig_Inr_iff:
  "applyConfig env cfg s = Inr s' \<longleftrightarrow>
     (\<exists>ts. keeps env (sc_filter cfg) (s_tests s) ts \<and> s' = (overlay cfg s)\<lparr>s_tests := ts\<rparr>)"
proof -
  let ?s7 = "overlay cfg s"
  have "applyConfig env cfg s =
      (if sc_filter cfg = [] then Inr ?s7
       else case compile_regexp env (sc_filter cfg) of
              Inl e \<Rightarrow> Inl (Bad_Filter e)
            | Inr re \<Rightarrow> Inr (?s7\<lparr>s_tests := filter (\<lambda>t. re (tName t)) (s_tests s)\<rparr>))"
    by (cases s) (simp add: applyConfig_def overlay_def pick_pos_def pick_str_def Let_def
        split: sum.split)
  moreover have "?s7 = ?s7\<lparr>s_tests := s_tests s\<rparr>" by (cases s) (simp add: overlay_def)
  ultimately show ?thesis
    by (auto simp: keeps_def split: sum.splits)
qed

lemma NewSuite_Inr:
  assumes "NewSuite env path typ tests cfg = Inr s"
  shows "s_path s = path" "s_typ s = typ" "s_name s = sc_Name cfg" "s_runCron s = sc_RunCron cfg"
    "s_runEvery s = pick_pos (sc_RunEvery cfg) 0" "s_retryCount s = pick_pos (sc_RetryCount cfg) 0"
    "s_retryWait s = pick_pos (sc_RetryWait cfg) 0" "s_timeout s = pick_pos (sc_Timeout cfg) 0"
    "s_failfast s = sc_FailFast cfg" "keeps env (sc_filter cfg) tests (s_tests s)"
  using assms
  by (auto simp: NewSuite_def applyConfig_Inr_iff overlay_def pick_str_def)

text \<open>A suite that \<open>NewSuiteFromReader\<close> returns: the plugin gave the tests, \<open>NewSuite\<close> the rest.\<close>

lemma NewSuiteFromReader_Inr:
  assumes "NewSuiteFromReader env (text, Some path) opts = Ret (Inr s)"
    and "decode_suite env text default_SuiteConfig = Inr cfg0"
  obtains reg c ts where
    "Get (plugins env) TestSuitePlugin (sc_Type (applyOptions opts cfg0)) = Some reg"
    "Init reg \<lparr>ic_Config = c, ic_Path = path, ic_Root = path_dir path\<rparr> = Ret (Inr (Suite_Instance ts))"
    "NewSuite env path (sc_Type (applyOptions opts cfg0)) ts (applyOptions opts cfg0) = Inr s"
proof -
  let ?cfg = "applyOptions opts cfg0"
  from assms obtain reg where reg: "Get (plugins env) TestSuitePlugin (sc_Type ?cfg) = Some reg"
    by (auto simp: NewSuiteFromReader_def Let_def split: option.splits)
  with assms obtain ic where ic: "NewContext reg path = Ret ic"
    by (auto simp: NewSuiteFromReader_def Let_def bind_run_Ret_iff)
  from assms reg ic obtain c2 i where i: "Init reg (ic\<lparr>ic_Config := c2\<rparr>) = Ret (Inr i)"
    "bind_run (instance_tests i) (\<lambda>ts. Ret (NewSuite env path (sc_Type ?cfg) ts ?cfg)) = Ret (Inr s)"
    by (auto simp: NewSuiteFromReader_def Let_def bind_run_Ret_iff case_Ret_iff)
  then obtain ts where "i = Suite_Instance ts" "NewSuite env path (sc_Type ?cfg) ts ?cfg = Inr s"
    by (cases i) (auto simp: instance_tests_def)
  moreover have "ic\<lparr>ic_Config := c2\<rparr> = \<lparr>ic_Config = c2, ic_Path = path, ic_Root = path_dir path\<rparr>"
    using ic by (auto simp: NewContext_def split: option.splits)
  ultimately show ?thesis using i(1) by (intro that [OF reg]) auto
qed

lemma applyOptions_baseSuite:
  "applyOptions (case b of None \<Rightarrow> [] | Some bs \<Rightarrow> [baseSuite bs]) cfg
     = cfg\<lparr>sc_baseSuite := (case b of None \<Rightarrow> sc_baseSuite cfg | Some bs \<Rightarrow> Some bs)\<rparr>"
  by (cases b) (simp_all add: applyOptions_def baseSuite_def)

subsection \<open>Properties\<close>

text \<open>The plugin of the witnesses has one test suite type, whose tests are the two tests below.\<close>

definition two_tests :: "(nat, string) test list" where
  "two_tests = [passing_test, failing_test]"

definition demo_plugin :: "(unit, (nat, string) plugin_instance) Registration" where
  "demo_plugin = \<lparr>reg_Type = TestSuitePlugin, reg_ID = ''DEMO'', reg_Config = Some (),
     InitFn = (\<lambda>_. Ret (Inr (Suite_Instance two_tests)))\<rparr>"

definition demo_env :: "(unit, nat, string) config_env" where
  "demo_env = \<lparr>open_file = (\<lambda>p. if p = ''/d/s.json'' then Inr ''{}'' else Inl ''no such file''),
     decode_suite = (\<lambda>_ cfg. Inr (cfg\<lparr>sc_Type := ''DEMO'', sc_RetryCount := 4, sc_FailFast := True\<rparr>)),
     decode_config = (\<lambda>_. Inr ([], [])),
     unmarshal = (\<lambda>_ c. Inr c),
     compile_regexp = (\<lambda>f. Inr (\<lambda>s. s = f)),
     plugins = [(''aragorn.testsuite.v1.DEMO'', demo_plugin)]\<rparr>"

definition demo_entry :: SuiteConfig where
  "demo_entry = default_SuiteConfig\<lparr>sc_Path := ''s.json'', sc_RetryCount := 0, sc_RetryWait := 0\<rparr>"

lemmas demo_defs =
  demo_env_def demo_plugin_def demo_entry_def two_tests_def genSuite_def NewSuiteFromReader_def
  NewContext_def Get_def registrationURI_def TestSuitePlugin_def Init_def instance_tests_def
  NewSuite_def applyConfig_def applyOptions_def default_SuiteConfig_def raw_bytes_def
  Filter_def FailFast_def Timeout_def baseSuite_def

text \<open>
  C9: Where the settings of a suite built from the base configuration come from. The entry of the
  base configuration, after the command-line options, wins over the suite file, setting by setting,
  when it is not empty or zero; fail-fast is on when either says so; the settings of the file stand
  over the defaults; path and type are those of the file. The tests are those the plugin gave, less
  the ones whose name the filter does not match, in their order. The entry of the base
  configuration is left with the options applied.
\<close>

theorem genSuite_settings:
  assumes "open_file env path = Inr text"
    and "decode_suite env text default_SuiteConfig = Inr fcfg" and "sc_filter fcfg = []"
    and "genSuite env path options scfg = Ret (Inr s, scfg')"
  shows "scfg' = applyOptions options scfg \<and>
    s_path s = path \<and> s_typ s = sc_Type fcfg \<and>
    s_name s = pick_str (sc_Name scfg') (sc_Name fcfg) \<and>
    s_runCron s = pick_str (sc_RunCron scfg') (sc_RunCron fcfg) \<and>
    s_runEvery s = pick_pos (sc_RunEvery scfg') (pick_pos (sc_RunEvery fcfg) 0) \<and>
    s_retryCount s = pick_pos (sc_RetryCount scfg') (pick_pos (sc_RetryCount fcfg) 0) \<and>
    s_retryWait s = pick_pos (sc_RetryWait scfg') (pick_pos (sc_RetryWait fcfg) 0) \<and>
    s_timeout s = pick_pos (sc_Timeout scfg') (pick_pos (sc_Timeout fcfg) 0) \<and>
    (s_failfast s \<longleftrightarrow> sc_FailFast scfg' \<or> sc_FailFast fcfg) \<and>
    (\<exists>reg c ts. Get (plugins env) TestSuitePlugin (sc_Type fcfg) = Some reg \<and>
       Init reg \<lparr>ic_Config = c, ic_Path = path, ic_Root = path_dir path\<rparr>
         = Ret (Inr (Suite_Instance ts)) \<and>
       keeps env (sc_filter scfg') ts (s_tests s))"
proof -
  let ?opts = "case sc_Suite scfg of None \<Rightarrow> [] | Some bs \<Rightarrow> [baseSuite bs]"
  let ?file = "applyOptions ?opts fcfg"
  from assms(1,4) obtain s0 where
    s0: "NewSuiteFromReader env (text, Some path) ?opts = Ret (Inr s0)"
    and s: "applyConfig env scfg' s0 = Inr s" and scfg': "scfg' = applyOptions options scfg"
    by (auto simp: genSuite_def Let_def bind_run_Ret_iff case_Ret_iff)
  from s0 assms(2) obtain reg c ts where
    plugin: "Get (plugins env) TestSuitePlugin (sc_Type ?file) = Some reg"
      "Init reg \<lparr>ic_Config = c, ic_Path = path, ic_Root = path_dir path\<rparr>
         = Ret (Inr (Suite_Instance ts))"
    and new: "NewSuite env path (sc_Type ?file) ts ?file = Inr s0"
    by (rule NewSuiteFromReader_Inr)
  note base = applyOptions_baseSuite [of "sc_Suite scfg" fcfg]
  from NewSuite_Inr [OF new] assms(3) have ts: "s_tests s0 = ts"
    by (simp add: base keeps_def)
  from s obtain ts' where ts': "keeps env (sc_filter scfg') (s_tests s0) ts'"
    and s': "s = (overlay scfg' s0)\<lparr>s_tests := ts'\<rparr>"
    by (auto simp: applyConfig_Inr_iff)
  have "\<exists>reg c ts. Get (plugins env) TestSuitePlugin (sc_Type fcfg) = Some reg \<and>
       Init reg \<lparr>ic_Config = c, ic_Path = path, ic_Root = path_dir path\<rparr>
         = Ret (Inr (Suite_Instance ts)) \<and> keeps env (sc_filter scfg') ts (s_tests s)"
    using plugin ts ts' s' by (auto simp: base)
  with s' NewSuite_Inr(1-9) [OF new] scfg' show ?thesis
    by (simp add: overlay_def base disj_commute)
qed

theorem genSuite_settings_witness:
  "\<exists>s scfg'. genSuite demo_env ''/d/s.json'' [Filter ''passing''] demo_entry = Ret (Inr s, scfg') \<and>
     s_retryCount s = 4 \<and> s_retryWait s = 1000000000 \<and> s_failfast s"
proof -
  let ?file = "default_SuiteConfig\<lparr>sc_Type := ''DEMO'', sc_RetryCount := 4, sc_FailFast := True\<rparr>"
  obtain s scfg' where gen: "genSuite demo_env ''/d/s.json'' [Filter ''passing''] demo_entry = Ret (Inr s, scfg')"
    by (simp add: demo_defs)
  have "open_file demo_env ''/d/s.json'' = Inr ''{}''"
    and "decode_suite demo_env ''{}'' default_SuiteConfig = Inr ?file" and "sc_filter ?file = []"
    by (simp_all add: demo_env_def default_SuiteConfig_def)
  from genSuite_settings [OF this gen] gen show ?thesis
    by (auto simp: pick_pos_def applyOptions_def Filter_def demo_entry_def default_SuiteConfig_def)
qed

text \<open>Entry \<open>c\<close> of the base configuration gives the suite and is left as \<open>c'\<close>.\<close>

definition entry_gives ::
  "('c, 'w, 'e) config_env \<Rightarrow> Config \<Rightarrow> SuiteOption list \<Rightarrow> SuiteConfig option
    \<Rightarrow> (config_error + ('w, 'e) Suite) \<Rightarrow> SuiteConfig option \<Rightarrow> bool" where
  "entry_gives env cfg options c res c' \<longleftrightarrow> (\<exists>scfg scfg'. c = Some scfg \<and> c' = Some scfg' \<and>
     genSuite env (getFilePath cfg (sc_Path scfg)) options scfg = Ret (res, scfg'))"

lemma gen_suites_Inr:
  assumes "gen_suites env cfg options scfgs = Ret (Inr ss, scfgs')"
  shows "list_all2 (\<lambda>c (s, c'). entry_gives env cfg options c (Inr s) c') scfgs (zip ss scfgs') \<and>
    length ss = length scfgs \<and> length scfgs' = length scfgs"
  using assms
proof (induction scfgs arbitrary: ss scfgs')
  case Nil
  then show ?case by simp
next
  case (Cons c scfgs)
  from Cons.prems obtain scfg where c: "c = Some scfg" by (cases c) auto
  with Cons.prems obtain s scfg1 res rest where
    s: "genSuite env (getFilePath cfg (sc_Path scfg)) options scfg = Ret (Inr s, scfg1)"
    and rest: "gen_suites env cfg options scfgs = Ret (res, rest)"
    and out: "(case res of Inl e \<Rightarrow> Inl e | Inr ss \<Rightarrow> Inr (s # ss)) = Inr ss" "scfgs' = Some scfg1 # rest"
    by (auto simp: Let_def bind_run_Ret_iff case_Ret_iff)
  from out(1) obtain ss' where "res = Inr ss'" "ss = s # ss'" by (cases res) auto
  with Cons.IH [of ss' rest] rest s out(2) c show ?case by (simp add: entry_gives_def)
qed

lemma gen_suites_Inl:
  assumes "gen_suites env cfg options scfgs = Ret (Inl e, scfgs')"
  shows "\<exists>scfg e' c'. Some scfg \<in> set scfgs \<and> e = In_File (getFilePath cfg (sc_Path scfg)) e' \<and>
    entry_gives env cfg options (Some scfg) (Inl e') c'"
  using assms
proof (induction scfgs arbitrary: scfgs')
  case Nil
  then show ?case by simp
next
  case (Cons c scfgs)
  from Cons.prems obtain scfg where c: "c = Some scfg" by (cases c) auto
  with Cons.prems obtain r scfg1 where
    r: "genSuite env (getFilePath cfg (sc_Path scfg)) options scfg = Ret (r, scfg1)"
    by (auto simp: Let_def bind_run_Ret_iff)
  show ?case
  proof (cases r)
    case (Inl e')
    with Cons.prems r c show ?thesis by (auto simp: Let_def entry_gives_def)
  next
    case (Inr s)
    with Cons.prems r c obtain res rest where rest: "gen_suites env cfg options scfgs = Ret (res, rest)"
      "(case res of Inl e \<Rightarrow> Inl e | Inr ss \<Rightarrow> Inr (s # ss)) = Inl e"
      by (auto simp: Let_def bind_run_Ret_iff)
    then have "res = Inl e" by (cases res) auto
    with Cons.IH [of rest] rest(1) show ?thesis by auto
  qed
qed


definition demo_config :: "string list \<Rightarrow> Config" where
  "demo_config paths = \<lparr>cfg_Notifiers = [], cfg_Suites = map (\<lambda>p. Some (demo_entry\<lparr>sc_Path := p\<rparr>)) paths,
     cfg_path = ''/d/c.json'', cfg_dir = ''/d''\<rparr>"


definition notify :: "(('w, 'e) report, 'w) notifier option \<Rightarrow> ('w, 'e) report \<Rightarrow> 'w \<Rightarrow> 'w" where
  "notify n r w = (case n of None \<Rightarrow> w | Some f \<Rightarrow> f r w)"

definition ready_notifiers ::
  "('c, 'w, 'e) config_env \<Rightarrow> Config \<Rightarrow> (('w, 'e) report, 'w) notifier list" where
  "ready_notifiers env cfg = List.map_filter
     (\<lambda>(i, b). case genNotifierPlugin env cfg i b of Ret (Inr n) \<Rightarrow> Some n | _ \<Rightarrow> None)
     (cfg_Notifiers cfg)"

lemma gen_notifiers_ready:
  assumes "\<forall>(i, b) \<in> set ns. returns (genNotifierPlugin env cfg i b)"
  shows "gen_notifiers env cfg ns = Ret (List.map_filter
     (\<lambda>(i, b). case genNotifierPlugin env cfg i b of Ret (Inr n) \<Rightarrow> Some n | _ \<Rightarrow> None) ns)"
  using assms
proof (induction ns)
  case Nil
  then show ?case by (simp add: List.map_filter_def)
next
  case (Cons nb ns)
  obtain i b where nb: "nb = (i, b)" by fastforce
  with Cons.prems obtain res where "genNotifierPlugin env cfg i b = Ret res" by auto
  with Cons nb show ?case by (cases res) (simp_all add: List.map_filter_def)
qed

lemma ready_notifiers_order:
  assumes "wf_map (cfg_Notifiers cfg)" and "wf_map ns" and "map_of (cfg_Notifiers cfg) = map_of ns"
  shows "mset (ready_notifiers env cfg) = mset (ready_notifiers env (cfg\<lparr>cfg_Notifiers := ns\<rparr>))"
proof -
  have "cfg_path (cfg\<lparr>cfg_Notifiers := ns\<rparr>) = cfg_path cfg" by simp
  then have "genNotifierPlugin env (cfg\<lparr>cfg_Notifiers := ns\<rparr>) = genNotifierPlugin env cfg"
    by (intro ext) (simp only: genNotifierPlugin_def)
  with same_map_filter_mset [OF assms] show ?thesis by (simp add: ready_notifiers_def)
qed

text \<open>
  \<open>GenNotifier\<close> gives what notifies exactly the notifiers that could be set up, in the order
  the configuration's map is ranged over: none when there is none, that one when there is one, all
  of them one after the other otherwise. A notifier that fails to initialise never stops the others.
\<close>

theorem GenNotifier_notifies:
  assumes "\<forall>(i, b) \<in> set (cfg_Notifiers cfg). returns (genNotifierPlugin env cfg i b)"
  shows "\<exists>n. GenNotifier env cfg = Ret n \<and>
    (\<forall>r w. notify n r w = fold (\<lambda>f. f r) (ready_notifiers env cfg) w)"
proof -
  have "gen_notifiers env cfg (cfg_Notifiers cfg) = Ret (ready_notifiers env cfg)"
    using gen_notifiers_ready [OF assms] by (simp add: ready_notifiers_def)
  then show ?thesis
    by (auto simp: GenNotifier_def notify_def Multi_def split: list.split)
qed

definition count_plugin :: "(unit, (nat, string) plugin_instance) Registration" where
  "count_plugin = \<lparr>reg_Type = NotifierPlugin, reg_ID = ''count'', reg_Config = Some (),
     InitFn = (\<lambda>_. Ret (Inr (Notifier_Instance (\<lambda>r w. w + NbFailed r))))\<rparr>"

definition notify_env :: "(unit, nat, string) config_env" where
  "notify_env = demo_env\<lparr>plugins := [(''aragorn.notifier.v1.count'', count_plugin)]\<rparr>"

definition notify_config :: Config where
  "notify_config = (demo_config [])\<lparr>cfg_Notifiers := [(''gone'', ''{}''), (''count'', ''{}'')]\<rparr>"

theorem GenNotifier_notifies_witness:
  "\<exists>n. GenNotifier notify_env notify_config = Ret n \<and>
     notify n ((NewReport (three_tests True) 0)\<lparr>NbFailed := 5\<rparr>) 2 = 7"
proof -
  have gone: "genNotifierPlugin notify_env notify_config ''gone'' ''{}'' = Ret (Inl Plugin_Not_Found)"
    by (simp add: genNotifierPlugin_def notify_env_def Get_def registrationURI_def NotifierPlugin_def)
  have count: "genNotifierPlugin notify_env notify_config ''count'' ''{}'' = Ret (Inr (\<lambda>r w. w + NbFailed r))"
    by (simp add: genNotifierPlugin_def notify_env_def demo_env_def Get_def registrationURI_def
        NotifierPlugin_def count_plugin_def NewContext_def Init_def instance_notifier_def)
  have cfg: "cfg_Notifiers notify_config = [(''gone'', ''{}''), (''count'', ''{}'')]"
    by (simp add: notify_config_def)
  have "ready_notifiers notify_env notify_config = [\<lambda>r w. w + NbFailed r]"
    by (simp add: ready_notifiers_def cfg gone count List.map_filter_def)
  moreover have "\<forall>(i, b) \<in> set (cfg_Notifiers notify_config). returns (genNotifierPlugin notify_env notify_config i b)"
    by (simp add: cfg gone count)
  ultimately show ?thesis
    using GenNotifier_notifies [of notify_config notify_env] by auto
qed

end
