(* ===== verification/Scheduler.thy ===== *)
theory Scheduler
  imports Go_Strings
begin

text \<open>
  Package \<open>scheduler\<close> (\<open>scheduler/scheduler.go\<close>, \<open>scheduler/job.go\<close>) as a state machine. The job
  objects live in a list (\<open>objs\<close>, a pointer is a position in it), because the closures handed to
  \<open>time.AfterFunc\<close> keep a job alive after it left the map \<open>jobs\<close>. The rest of the state is what the
  Go runtime keeps for the package: the pending timers with their job and deadline, the jobs whose
  timer function is executing \<open>Job.Run\<close>, and the clock.

  The steps are the calls of the API, each of them one step because it holds the mutex throughout,
  the firing of a timer, the end of a job's \<open>Run\<close> with the \<open>schedule\<close> that follows it, and the
  passing of time. That the end of a run and the assignment of \<open>j.timer\<close> are one step is the one
  place where the model is coarser than the code, which does not lock there. \<open>cn\<close> is
  \<open>cronexpr.Expression.Next\<close> and \<open>pc\<close> is \<open>cronexpr.Parse\<close>. A panic ends the process, so it has no
  step.
\<close>

datatype sched_error =
  ErrInvalidCronExpr | ErrJobAlreadyExist | ErrJobNotFound | ErrAlreadyStarted | ErrNotRunning

record ('j, 'c) job =
  j_job :: 'j
  j_interval :: int
  j_cron :: "'c option"
  j_timer :: "nat option"

record ('j, 'c) sched =
  objs :: "('j, 'c) job list"
  jobs :: "(string, nat) gomap"
  running :: bool
  timers :: "(nat \<times> nat \<times> int) list"
  next_timer :: nat
  active :: "nat list"
  clock :: int

definition sched_New :: "('j, 'c) sched" where
  "sched_New = \<lparr>objs = [], jobs = [], running = False, timers = [], next_timer = 0, active = [], clock = 0\<rparr>"

subsection \<open>Jobs\<close>

text \<open>The difference of two instants, saturated as \<open>Time.Sub\<close> does.\<close>

definition sub_time :: "int \<Rightarrow> int \<Rightarrow> int" where
  "sub_time t u = max min_int64 (min max_int64 (t - u))"

definition timeUntilNextRun :: "('c \<Rightarrow> int \<Rightarrow> int) \<Rightarrow> int \<Rightarrow> ('j, 'c) job \<Rightarrow> int run" where
  "timeUntilNextRun cn now j =
     (if 0 < j_interval j then Ret (j_interval j)
      else case j_cron j of
        None \<Rightarrow> Panics Nil_Dereference
      | Some c \<Rightarrow> Ret (sub_time (cn c now) now))"

text \<open>\<open>time.AfterFunc\<close> with a duration that is not positive fires at once.\<close>

definition schedule :: "('c \<Rightarrow> int \<Rightarrow> int) \<Rightarrow> nat \<Rightarrow> ('j, 'c) sched \<Rightarrow> ('j, 'c) sched run" where
  "schedule cn i s =
     bind_run (timeUntilNextRun cn (clock s) (objs s ! i)) (\<lambda>d.
       Ret (s\<lparr>objs := (objs s)[i := (objs s ! i)\<lparr>j_timer := Some (next_timer s)\<rparr>],
              timers := timers s @ [(next_timer s, i, clock s + max 0 d)],
              next_timer := Suc (next_timer s)\<rparr>))"

definition cancel :: "nat \<Rightarrow> ('j, 'c) sched \<Rightarrow> ('j, 'c) sched" where
  "cancel i s =
     (case j_timer (objs s ! i) of
        None \<Rightarrow> s
      | Some t \<Rightarrow> s\<lparr>timers := filter (\<lambda>(t', _). t' \<noteq> t) (timers s)\<rparr>)"

subsection \<open>The API\<close>

text \<open>The result is the error returned, \<open>None\<close> for nil, with the new state.\<close>

fun schedule_all :: "('c \<Rightarrow> int \<Rightarrow> int) \<Rightarrow> nat list \<Rightarrow> ('j, 'c) sched \<Rightarrow> ('j, 'c) sched run" where
  "schedule_all cn [] s = Ret s"
| "schedule_all cn (i # is) s = bind_run (schedule cn i s) (schedule_all cn is)"

definition Start ::
  "('c \<Rightarrow> int \<Rightarrow> int) \<Rightarrow> ('j, 'c) sched \<Rightarrow> (sched_error option \<times> ('j, 'c) sched) run" where
  "Start cn s =
     (if running s then Ret (Some ErrAlreadyStarted, s)
      else bind_run (schedule_all cn (map snd (jobs s)) s) (\<lambda>s1. Ret (None, s1\<lparr>running := True\<rparr>)))"

definition Stop :: "('j, 'c) sched \<Rightarrow> sched_error option \<times> ('j, 'c) sched" where
  "Stop s =
     (if \<not> running s then (Some ErrNotRunning, s)
      else (None, fold cancel (map snd (jobs s)) s))"

definition add_job ::
  "('c \<Rightarrow> int \<Rightarrow> int) \<Rightarrow> string \<Rightarrow> ('j, 'c) job \<Rightarrow> ('j, 'c) sched
    \<Rightarrow> (sched_error option \<times> ('j, 'c) sched) run" where
  "add_job cn name j s =
     (let i = length (objs s);
          s1 = s\<lparr>objs := objs s @ [j], jobs := AList.update name i (jobs s)\<rparr>
      in if running s1 then bind_run (schedule cn i s1) (\<lambda>s2. Ret (None, s2)) else Ret (None, s1))"

definition Add ::
  "('c \<Rightarrow> int \<Rightarrow> int) \<Rightarrow> string \<Rightarrow> 'j \<Rightarrow> int \<Rightarrow> ('j, 'c) sched
    \<Rightarrow> (sched_error option \<times> ('j, 'c) sched) run" where
  "Add cn name j interval s =
     (if map_of (jobs s) name \<noteq> None then Ret (Some ErrJobAlreadyExist, s)
      else add_job cn name \<lparr>j_job = j, j_interval = interval, j_cron = None, j_timer = None\<rparr> s)"

definition AddCron ::
  "('c \<Rightarrow> int \<Rightarrow> int) \<Rightarrow> (string \<Rightarrow> 'c option) \<Rightarrow> string \<Rightarrow> 'j \<Rightarrow> string \<Rightarrow> ('j, 'c) sched
    \<Rightarrow> (sched_error option \<times> ('j, 'c) sched) run" where
  "AddCron cn pc name j expr s =
     (if map_of (jobs s) name \<noteq> None then Ret (Some ErrJobAlreadyExist, s)
      else case pc expr of
        None \<Rightarrow> Ret (Some ErrInvalidCronExpr, s)
      | Some c \<Rightarrow>
          add_job cn name \<lparr>j_job = j, j_interval = 0, j_cron = Some c, j_timer = None\<rparr> s)"

definition Remove :: "string \<Rightarrow> ('j, 'c) sched \<Rightarrow> sched_error option \<times> ('j, 'c) sched" where
  "Remove name s =
     (case map_of (jobs s) name of
        None \<Rightarrow> (Some ErrJobNotFound, s)
      | Some i \<Rightarrow> (None, (cancel i s)\<lparr>jobs := AList.delete name (jobs s)\<rparr>))"

subsection \<open>Steps and executions\<close>

datatype 'j label =
    L_Start
  | L_Stop
  | L_Add string 'j int
  | L_AddCron string 'j string
  | L_Remove string
  | L_Fire nat
  | L_Finish nat
  | L_Tick int

inductive step ::
  "('c \<Rightarrow> int \<Rightarrow> int) \<Rightarrow> (string \<Rightarrow> 'c option) \<Rightarrow> ('j, 'c) sched \<Rightarrow> 'j label \<Rightarrow> ('j, 'c) sched \<Rightarrow> bool"
  for cn pc where
  start: "Start cn s = Ret (e, s') \<Longrightarrow> step cn pc s L_Start s'"
| stop: "Stop s = (e, s') \<Longrightarrow> step cn pc s L_Stop s'"
| add: "Add cn n j d s = Ret (e, s') \<Longrightarrow> step cn pc s (L_Add n j d) s'"
| add_cron: "AddCron cn pc n j x s = Ret (e, s') \<Longrightarrow> step cn pc s (L_AddCron n j x) s'"
| remove: "Remove n s = (e, s') \<Longrightarrow> step cn pc s (L_Remove n) s'"
| fire: "(t, i, due) \<in> set (timers s) \<Longrightarrow> due \<le> clock s \<Longrightarrow>
    step cn pc s (L_Fire i)
      (s\<lparr>timers := filter (\<lambda>(t', _). t' \<noteq> t) (timers s), active := i # active s\<rparr>)"
| finish: "i \<in> set (active s) \<Longrightarrow> schedule cn i (s\<lparr>active := remove1 i (active s)\<rparr>) = Ret s' \<Longrightarrow>
    step cn pc s (L_Finish i) s'"
| tick: "0 \<le> d \<Longrightarrow> step cn pc s (L_Tick d) (s\<lparr>clock := clock s + d\<rparr>)"

inductive_cases step_cases: "step cn pc s l s'"
inductive_simps step_stop [simp]: "step cn pc s L_Stop s'"
inductive_simps step_finish: "step cn pc s (L_Finish i) s'"
inductive_simps step_fire: "step cn pc s (L_Fire i) s'"
inductive_simps step_start: "step cn pc s L_Start s'"
inductive_simps step_tick: "step cn pc s (L_Tick d) s'"
inductive_simps step_add: "step cn pc s (L_Add n j d) s'"

inductive steps ::
  "('c \<Rightarrow> int \<Rightarrow> int) \<Rightarrow> (string \<Rightarrow> 'c option) \<Rightarrow> ('j, 'c) sched \<Rightarrow> 'j label list \<Rightarrow> ('j, 'c) sched \<Rightarrow> bool"
  for cn pc where
  none: "steps cn pc s [] s"
| more: "steps cn pc s ls s' \<Longrightarrow> step cn pc s' l s'' \<Longrightarrow> steps cn pc s (ls @ [l]) s''"

subsection \<open>Tokens\<close>

text \<open>
  A job is alive through its tokens: its pending timers and its executing runs. \<open>core\<close> is what every
  step keeps: one token at most for every job, and the only timer that may be pending for a job is
  the one \<open>j.timer\<close> holds.
\<close>

definition tokens :: "('j, 'c) sched \<Rightarrow> nat \<Rightarrow> nat" where
  "tokens s i = length (filter (\<lambda>(_, j, _). j = i) (timers s)) + count_list (active s) i"

definition core :: "('j, 'c) sched \<Rightarrow> bool" where
  "core s \<longleftrightarrow>
     wf_map (jobs s) \<and> distinct (map snd (jobs s)) \<and>
     (\<forall>i \<in> snd ` set (jobs s). i < length (objs s)) \<and>
     (\<forall>i \<in> set (active s). i < length (objs s)) \<and>
     (\<forall>(t, i, _) \<in> set (timers s). i < length (objs s) \<and> t < next_timer s \<and>
        j_timer (objs s ! i) = Some t) \<and>
     (\<forall>i < length (objs s). \<forall>t. j_timer (objs s ! i) = Some t \<longrightarrow> t < next_timer s \<and>
        (\<forall>j < length (objs s). j_timer (objs s ! j) = Some t \<longrightarrow> j = i)) \<and>
     distinct (map fst (timers s)) \<and>
     (\<forall>i. tokens s i \<le> 1)"

lemma coreD:
  assumes "core s"
  shows "wf_map (jobs s)" "distinct (map snd (jobs s))"
    "i \<in> snd ` set (jobs s) \<Longrightarrow> i < length (objs s)"
    "i \<in> set (active s) \<Longrightarrow> i < length (objs s)"
    "(t, i, d) \<in> set (timers s) \<Longrightarrow> i < length (objs s) \<and> t < next_timer s \<and> j_timer (objs s ! i) = Some t"
    "j_timer (objs s ! i) = Some t \<Longrightarrow> i < length (objs s) \<Longrightarrow> t < next_timer s"
    "j_timer (objs s ! i) = Some t \<Longrightarrow> j_timer (objs s ! j) = Some t \<Longrightarrow> i < length (objs s)
      \<Longrightarrow> j < length (objs s) \<Longrightarrow> j = i"
    "distinct (map fst (timers s))" "tokens s i \<le> 1"
  using assms unfolding core_def by blast+

lemma coreI:
  assumes "wf_map (jobs s)" "distinct (map snd (jobs s))"
    "\<And>i. i \<in> snd ` set (jobs s) \<Longrightarrow> i < length (objs s)"
    "\<And>i. i \<in> set (active s) \<Longrightarrow> i < length (objs s)"
    "\<And>t i d. (t, i, d) \<in> set (timers s) \<Longrightarrow>
       i < length (objs s) \<and> t < next_timer s \<and> j_timer (objs s ! i) = Some t"
    "\<And>i t. j_timer (objs s ! i) = Some t \<Longrightarrow> i < length (objs s) \<Longrightarrow> t < next_timer s"
    "\<And>i j t. j_timer (objs s ! i) = Some t \<Longrightarrow> j_timer (objs s ! j) = Some t \<Longrightarrow> i < length (objs s)
      \<Longrightarrow> j < length (objs s) \<Longrightarrow> j = i"
    "distinct (map fst (timers s))" "\<And>i. tokens s i \<le> 1"
  shows "core s"
  unfolding core_def
proof (intro conjI)
  show "\<forall>(t, i, _) \<in> set (timers s). i < length (objs s) \<and> t < next_timer s \<and>
      j_timer (objs s ! i) = Some t"
    using assms(5) by auto
  show "\<forall>i < length (objs s). \<forall>t. j_timer (objs s ! i) = Some t \<longrightarrow> t < next_timer s \<and>
      (\<forall>j < length (objs s). j_timer (objs s ! j) = Some t \<longrightarrow> j = i)"
    by (intro allI impI conjI assms(6,7))
qed (use assms(1-4,8,9) in blast)+

definition idle_until_started :: "('j, 'c) sched \<Rightarrow> bool" where
  "idle_until_started s \<longleftrightarrow> running s \<or> timers s = [] \<and> active s = []"

lemma core_New: "core sched_New" "idle_until_started sched_New"
  by (simp_all add: core_def idle_until_started_def sched_New_def tokens_def)

lemma schedule_Ret:
  assumes "schedule cn i s = Ret s'"
  obtains d where "timeUntilNextRun cn (clock s) (objs s ! i) = Ret d"
    "s' = s\<lparr>objs := (objs s)[i := (objs s ! i)\<lparr>j_timer := Some (next_timer s)\<rparr>],
            timers := timers s @ [(next_timer s, i, clock s + max 0 d)],
            next_timer := Suc (next_timer s)\<rparr>"
  using assms by (auto simp: schedule_def bind_run_Ret_iff)

lemma tokens_0D:
  assumes "tokens s i = 0" and "(t, j, d) \<in> set (timers s)"
  shows "j \<noteq> i"
  using assms by (auto simp: tokens_def filter_empty_conv)

lemma schedule_core:
  assumes "core s" and "i < length (objs s)" and "tokens s i = 0" and "schedule cn i s = Ret s'"
  shows "core s'" "tokens s' = (tokens s)(i := 1)" "jobs s' = jobs s" "running s' = running s"
    "active s' = active s" "clock s' = clock s" "length (objs s') = length (objs s)"
proof -
  from assms(4) obtain d where s': "s' = s\<lparr>objs := (objs s)[i := (objs s ! i)\<lparr>j_timer := Some (next_timer s)\<rparr>],
      timers := timers s @ [(next_timer s, i, clock s + max 0 d)], next_timer := Suc (next_timer s)\<rparr>"
    by (rule schedule_Ret)
  show tok: "tokens s' = (tokens s)(i := 1)"
    using assms(3) by (auto simp: fun_eq_iff s' tokens_def)
  have timer: "j_timer (objs s' ! j) = (if j = i then Some (next_timer s) else j_timer (objs s ! j))"
    for j using assms(2) by (simp add: s' nth_list_update)
  show "core s'" unfolding core_def
  proof (intro conjI)
    show "\<forall>(t, j, _) \<in> set (timers s'). j < length (objs s') \<and> t < next_timer s' \<and>
        j_timer (objs s' ! j) = Some t"
    proof safe
      fix t j d' assume "(t, j, d') \<in> set (timers s')"
      then consider "(t, j, d') \<in> set (timers s)" | "t = next_timer s" "j = i" by (auto simp: s')
      then show "j < length (objs s')" "t < next_timer s'" "j_timer (objs s' ! j) = Some t"
        using coreD(5) [OF assms(1), of t j d'] tokens_0D [OF assms(3), of t j d'] assms(2)
        by (cases; simp add: timer; simp add: s')+
    qed
    show "\<forall>j < length (objs s'). \<forall>t. j_timer (objs s' ! j) = Some t \<longrightarrow> t < next_timer s' \<and>
        (\<forall>k < length (objs s'). j_timer (objs s' ! k) = Some t \<longrightarrow> k = j)"
    proof (intro allI impI)
      fix j t assume j: "j < length (objs s')" "j_timer (objs s' ! j) = Some t"
      have len: "length (objs s') = length (objs s)" "next_timer s' = Suc (next_timer s)"
        by (simp_all add: s')
      show "t < next_timer s' \<and> (\<forall>k < length (objs s'). j_timer (objs s' ! k) = Some t \<longrightarrow> k = j)"
      proof (cases "j = i")
        case True
        with j have t: "t = next_timer s" by (simp add: timer)
        with True show ?thesis
          using coreD(6) [OF assms(1)] by (auto simp: timer len split: if_splits)
      next
        case False
        with j have "j_timer (objs s ! j) = Some t" "t < next_timer s"
          using coreD(6) [OF assms(1)] by (auto simp: timer len)
        with False j len coreD(7) [OF assms(1)] show ?thesis
          by (auto simp: timer less_Suc_eq split: if_splits)
      qed
    qed
    show "distinct (map fst (timers s'))"
      using coreD(5,8) [OF assms(1)] by (force simp: s')
    show "\<forall>k. tokens s' k \<le> 1" using coreD(9) [OF assms(1)] by (simp add: tok)
  qed (use assms(1) in \<open>auto simp: core_def s'\<close>)
  show "jobs s' = jobs s" "running s' = running s"
    "active s' = active s" "clock s' = clock s" "length (objs s') = length (objs s)"
    by (simp_all add: s')
qed

lemma schedule_all_core:
  assumes "core s" and "distinct is" and "\<forall>i \<in> set is. i < length (objs s) \<and> tokens s i = 0"
    and "schedule_all cn is s = Ret s'"
  shows "core s' \<and> tokens s' = (\<lambda>i. if i \<in> set is then 1 else tokens s i) \<and> jobs s' = jobs s \<and>
    running s' = running s \<and> active s' = active s \<and> clock s' = clock s \<and>
    length (objs s') = length (objs s)"
  using assms
proof (induction "is" arbitrary: s)
  case Nil
  then show ?case by simp
next
  case (Cons i "is")
  from Cons.prems(4) obtain s1 where s1: "schedule cn i s = Ret s1" "schedule_all cn is s1 = Ret s'"
    by (auto simp: bind_run_Ret_iff)
  from Cons.prems(3) have i: "i < length (objs s)" "tokens s i = 0" by auto
  note one = schedule_core [OF Cons.prems(1) i s1(1)]
  have "core s' \<and> tokens s' = (\<lambda>i. if i \<in> set is then 1 else tokens s1 i) \<and> jobs s' = jobs s1 \<and>
    running s' = running s1 \<and> active s' = active s1 \<and> clock s' = clock s1 \<and>
    length (objs s') = length (objs s1)"
    using Cons.prems one by (intro Cons.IH s1(2)) auto
  with one Cons.prems(2) show ?case by (auto simp: fun_eq_iff)
qed

text \<open>Cancelling removes pending timers, and nothing else changes.\<close>

lemma cancel_frame:
  "objs (cancel i s) = objs s" "jobs (cancel i s) = jobs s" "running (cancel i s) = running s"
  "active (cancel i s) = active s" "next_timer (cancel i s) = next_timer s" "clock (cancel i s) = clock s"
  by (auto simp: cancel_def split: option.split)

lemma cancel_timers:
  assumes "core s" and "i < length (objs s)"
  shows "timers (cancel i s) = filter (\<lambda>(_, j, _). j \<noteq> i) (timers s)"
proof (cases "j_timer (objs s ! i)")
  case None
  have "j \<noteq> i" if "(t', j, d) \<in> set (timers s)" for t' j d
    using coreD(5) [OF assms(1) that] None by auto
  then have "filter (\<lambda>(_, j, _). j \<noteq> i) (timers s) = timers s" by (auto simp: filter_id_conv)
  with None show ?thesis by (simp add: cancel_def)
next
  case (Some t)
  have "t' \<noteq> t \<longleftrightarrow> j \<noteq> i" if "(t', j, d) \<in> set (timers s)" for t' j d
    using coreD(5) [OF assms(1) that] coreD(7) [OF assms(1) Some, of j] Some assms(2)
    by (metis option.inject)
  then have "filter (\<lambda>(t', _). t' \<noteq> t) (timers s) = filter (\<lambda>(_, j, _). j \<noteq> i) (timers s)"
    by (intro filter_cong [OF refl]) auto
  with Some show ?thesis by (simp add: cancel_def)
qed

lemma cancel_core:
  assumes "core s" and "i < length (objs s)"
  shows "core (cancel i s)"
proof -
  note t = cancel_timers [OF assms]
  have sub: "length (filter P (filter Q xs)) \<le> length (filter P xs)"
    for P Q and xs :: "(nat \<times> nat \<times> int) list"
    by (induction xs) auto
  have "tokens (cancel i s) j \<le> tokens s j" for j
    unfolding tokens_def t cancel_frame by (intro add_mono sub order_refl)
  with coreD(9) [OF assms(1)] have tok: "\<forall>j. tokens (cancel i s) j \<le> 1" by (meson order_trans)
  have "set (timers (cancel i s)) \<subseteq> set (timers s)" by (auto simp: t)
  moreover have "distinct (map fst (timers (cancel i s)))"
    unfolding t using coreD(8) [OF assms(1)] by (rule distinct_map_filter)
  moreover have "\<forall>(t, j, _) \<in> set (timers (cancel i s)). j < length (objs s) \<and> t < next_timer s \<and>
      j_timer (objs s ! j) = Some t"
  proof (intro ballI, clarify)
    fix t j d assume "(t, j, d) \<in> set (timers (cancel i s))"
    then have "(t, j, d) \<in> set (timers s)" using \<open>set (timers (cancel i s)) \<subseteq> _\<close> by (rule rev_subsetD)
    then show "j < length (objs s) \<and> t < next_timer s \<and> j_timer (objs s ! j) = Some t"
      by (rule coreD(5) [OF assms(1)])
  qed
  ultimately show ?thesis
    using tok assms(1) unfolding core_def cancel_frame by (elim conjE, intro conjI) assumption+
qed

lemma cancel_all:
  assumes "core s" and "\<forall>i \<in> set is. i < length (objs s)"
  shows "core (fold cancel is s) \<and>
    timers (fold cancel is s) = filter (\<lambda>(_, j, _). j \<notin> set is) (timers s) \<and>
    objs (fold cancel is s) = objs s \<and> jobs (fold cancel is s) = jobs s \<and>
    running (fold cancel is s) = running s \<and> active (fold cancel is s) = active s"
  using assms
proof (induction "is" arbitrary: s)
  case Nil
  have "filter (\<lambda>(_, j, _). True) (timers s) = timers s" by (simp add: filter_id_conv)
  with Nil show ?case by simp
next
  case (Cons i "is")
  then have i: "i < length (objs s)" by simp
  have "filter (\<lambda>(_, j, _). j \<notin> set is) (filter (\<lambda>(_, j, _). j \<noteq> i) (timers s))
      = filter (\<lambda>(_, j, _). j \<notin> set (i # is)) (timers s)"
    unfolding filter_filter by (intro filter_cong [OF refl]) auto
  with Cons.IH [OF cancel_core [OF Cons.prems(1) i]] Cons.prems cancel_timers [OF Cons.prems(1) i]
  show ?case by (simp add: cancel_frame)
qed

subsection \<open>Every step keeps the invariant\<close>

lemma remove_timer:
  assumes "distinct (map fst xs)" and "(t, i, d) \<in> set xs"
  shows "length (filter (\<lambda>(_, j, _). j = k) xs) =
    length (filter (\<lambda>(_, j, _). j = k) (filter (\<lambda>(t', _). t' \<noteq> t) xs)) + (if k = i then 1 else 0)"
  using assms
proof (induction xs)
  case Nil
  then show ?case by simp
next
  case (Cons x xs)
  show ?case
  proof (cases "fst x = t")
    case True
    with Cons.prems(1) have new: "t \<notin> fst ` set xs" by simp
    with Cons.prems(2) have x: "x = (t, i, d)" by force
    from new have "filter (\<lambda>(t', _). t' \<noteq> t) xs = xs" by (force simp: filter_id_conv)
    with x show ?thesis by simp
  next
    case False
    with Cons show ?thesis by (cases x) auto
  qed
qed

lemma tokens_fire:
  assumes "core s" and "(t, i, d) \<in> set (timers s)"
  shows "tokens (s\<lparr>timers := filter (\<lambda>(t', _). t' \<noteq> t) (timers s), active := i # active s\<rparr>) = tokens s"
proof
  fix k
  show "tokens (s\<lparr>timers := filter (\<lambda>(t', _). t' \<noteq> t) (timers s), active := i # active s\<rparr>) k = tokens s k"
    using remove_timer [OF coreD(8) [OF assms(1)] assms(2), of k] by (simp add: tokens_def)
qed

lemma core_fire:
  assumes "core s" and "(t, i, d) \<in> set (timers s)"
  shows "core (s\<lparr>timers := filter (\<lambda>(t', _). t' \<noteq> t) (timers s), active := i # active s\<rparr>)"
    (is "core ?s")
proof (rule coreI)
  show "j < length (objs ?s)" if "j \<in> set (active ?s)" for j
    using that coreD(4,5) [OF assms(1)] assms(2) by auto
  show "j < length (objs ?s) \<and> t' < next_timer ?s \<and> j_timer (objs ?s ! j) = Some t'"
    if "(t', j, d') \<in> set (timers ?s)" for t' j d'
  proof -
    from that have "(t', j, d') \<in> set (timers s)" by simp
    from coreD(5) [OF assms(1) this] show ?thesis by simp
  qed
  show "distinct (map fst (timers ?s))"
    using coreD(8) [OF assms(1)] by (simp add: distinct_map_filter)
  show "tokens ?s j \<le> 1" for j
    unfolding tokens_fire [OF assms] by (rule coreD(9) [OF assms(1)])
qed (use coreD [OF assms(1)] in simp_all)

lemma remove1_active:
  assumes "core s" and "i \<in> set (active s)"
  shows "core (s\<lparr>active := remove1 i (active s)\<rparr>)" "i < length (objs s)"
    "tokens (s\<lparr>active := remove1 i (active s)\<rparr>) = (tokens s)(i := 0)" "tokens s i = 1"
proof -
  have count: "count_list (remove1 i xs) k + (if k = i then 1 else 0) = count_list xs k"
    if "i \<in> set xs" for xs k
    using that by (induction xs) auto
  have "0 < count_list (active s) i"
    using assms(2) count_list_0_iff [of "active s" i] by auto
  with coreD(9) [OF assms(1), of i] show one: "tokens s i = 1" by (simp add: tokens_def)
  show tok: "tokens (s\<lparr>active := remove1 i (active s)\<rparr>) = (tokens s)(i := 0)"
  proof
    fix k
    show "tokens (s\<lparr>active := remove1 i (active s)\<rparr>) k = ((tokens s)(i := 0)) k"
      using count [OF assms(2), of k] one by (auto simp: tokens_def)
  qed
  show "i < length (objs s)" using coreD(4) [OF assms(1)] assms(2) .
  show "core (s\<lparr>active := remove1 i (active s)\<rparr>)" (is "core ?s")
  proof (rule coreI)
    show "j < length (objs ?s)" if "j \<in> set (active ?s)" for j
      using that coreD(4) [OF assms(1)] set_remove1_subset [of i "active s"] by auto
    show "tokens ?s k \<le> 1" for k using coreD(9) [OF assms(1)] by (simp add: tok)
    show "j < length (objs ?s) \<and> t < next_timer ?s \<and> j_timer (objs ?s ! j) = Some t"
      if "(t, j, d) \<in> set (timers ?s)" for t j d
      using coreD(5) [OF assms(1), of t j d] that by simp
  qed (use coreD [OF assms(1)] in simp_all)
qed

lemma core_finish:
  assumes "core s" and "i \<in> set (active s)"
    and "schedule cn i (s\<lparr>active := remove1 i (active s)\<rparr>) = Ret s'"
  shows "core s'" "tokens s' = tokens s" "jobs s' = jobs s" "running s' = running s"
    "clock s' = clock s"
proof -
  let ?s = "s\<lparr>active := remove1 i (active s)\<rparr>"
  note r = remove1_active [OF assms(1,2)]
  have i: "i < length (objs ?s)" "tokens ?s i = 0" using r(2,3) by simp_all
  note sc = schedule_core [OF r(1) i assms(3)]
  show "core s'" by (rule sc)
  show "tokens s' = tokens s" using sc(2) r(3,4) by (simp add: fun_eq_iff)
  show "jobs s' = jobs s" "running s' = running s" "clock s' = clock s" using sc by simp_all
qed

text \<open>A new job object, not scheduled yet.\<close>

lemma core_new_job:
  assumes "core s" and "map_of (jobs s) n = None" and "j_timer j = None"
  defines "s1 \<equiv> s\<lparr>objs := objs s @ [j], jobs := AList.update n (length (objs s)) (jobs s)\<rparr>"
  shows "core s1" "tokens s1 = tokens s" "tokens s1 (length (objs s)) = 0"
    "jobs s1 = jobs s @ [(n, length (objs s))]"
proof -
  show jobs: "jobs s1 = jobs s @ [(n, length (objs s))]"
    using update_absent [OF assms(2)] by (simp add: s1_def)
  show tok: "tokens s1 = tokens s" by (simp add: fun_eq_iff tokens_def s1_def)
  have "filter (\<lambda>(_, j, _). j = length (objs s)) (timers s) = []"
    using coreD(5) [OF assms(1)] by (fastforce simp: filter_empty_conv)
  moreover have "length (objs s) \<notin> set (active s)" using coreD(4) [OF assms(1)] by blast
  ultimately show "tokens s1 (length (objs s)) = 0"
    by (simp add: tok) (simp add: tokens_def count_list_0_iff)
  have old: "objs s1 ! k = objs s ! k" if "k < length (objs s)" for k
    using that by (simp add: s1_def nth_append)
  have new: "objs s1 ! length (objs s) = j" by (simp add: s1_def)
  have len: "length (objs s1) = Suc (length (objs s))" by (simp add: s1_def)
  have nxt: "next_timer s1 = next_timer s" by (simp add: s1_def)
  have owner: "k < length (objs s) \<and> j_timer (objs s ! k) = Some t"
    if "j_timer (objs s1 ! k) = Some t" "k < length (objs s1)" for k t
    using that old new assms(3) by (cases "k < length (objs s)") (auto simp: len less_Suc_eq)
  show "core s1"
  proof (rule coreI)
    show "wf_map (jobs s1)" using coreD(1) [OF assms(1)] by (simp add: s1_def)
    show "distinct (map snd (jobs s1))" using coreD(2,3) [OF assms(1)] by (auto simp: jobs)
    show "k < length (objs s1)" if "k \<in> snd ` set (jobs s1)" for k
    proof -
      from that have "k = length (objs s) \<or> k \<in> snd ` set (jobs s)" by (simp add: jobs)
      then have "k = length (objs s) \<or> k < length (objs s)" using coreD(3) [OF assms(1)] by blast
      then show ?thesis by (auto simp: len)
    qed
    show "k < length (objs s1)" if "k \<in> set (active s1)" for k
      using that coreD(4) [OF assms(1), of k] by (simp add: s1_def)
    show "k < length (objs s1) \<and> t < next_timer s1 \<and> j_timer (objs s1 ! k) = Some t"
      if "(t, k, d) \<in> set (timers s1)" for t k d
      using coreD(5) [OF assms(1), of t k d] that old [of k]
      by (simp add: len nxt) (simp add: s1_def)
    show "t < next_timer s1" if "j_timer (objs s1 ! k) = Some t" "k < length (objs s1)" for k t
      using owner [OF that] coreD(6) [OF assms(1), of k t] nxt by simp
    show "l = k" if "j_timer (objs s1 ! k) = Some t" "j_timer (objs s1 ! l) = Some t"
      "k < length (objs s1)" "l < length (objs s1)" for k l t
      using owner [OF that(1,3)] owner [OF that(2,4)] coreD(7) [OF assms(1), of k t l] by simp
    show "distinct (map fst (timers s1))" using coreD(8) [OF assms(1)] by (simp add: s1_def)
    show "tokens s1 k \<le> 1" for k using coreD(9) [OF assms(1)] by (simp add: tok)
  qed
qed

lemma core_running [simp]: "core (s\<lparr>running := b\<rparr>) = core s" "tokens (s\<lparr>running := b\<rparr>) = tokens s"
  by (simp_all add: core_def tokens_def fun_eq_iff)

lemma core_clock [simp]: "core (s\<lparr>clock := c\<rparr>) = core s" "tokens (s\<lparr>clock := c\<rparr>) = tokens s"
  by (simp_all add: core_def tokens_def fun_eq_iff)

lemma Start_core:
  assumes "core s" and "idle_until_started s" and "Start cn s = Ret (e, s')"
  shows "core s' \<and> running s' \<and> jobs s' = jobs s \<and>
    (running s \<and> e = Some ErrAlreadyStarted \<and> s' = s \<or>
     \<not> running s \<and> e = None \<and> (\<forall>i \<in> snd ` set (jobs s). tokens s' i = 1))"
proof (cases "running s")
  case True
  with assms show ?thesis by (simp add: Start_def)
next
  case False
  with assms(3) obtain s1 where s1: "schedule_all cn (map snd (jobs s)) s = Ret s1"
    "s' = s1\<lparr>running := True\<rparr>" "e = None"
    by (auto simp: Start_def bind_run_Ret_iff)
  have "\<forall>i \<in> set (map snd (jobs s)). i < length (objs s) \<and> tokens s i = 0"
    using assms(2) False coreD(3) [OF assms(1)] by (simp add: idle_until_started_def tokens_def)
  from schedule_all_core [OF assms(1) coreD(2) [OF assms(1)] this s1(1)] s1 False
  show ?thesis by simp
qed

lemma Stop_core:
  assumes "core s" and "Stop s = (e, s')"
  shows "core s' \<and> running s' = running s \<and> jobs s' = jobs s \<and> active s' = active s \<and>
    (if running s then e = None \<and>
       timers s' = filter (\<lambda>(_, i, _). i \<notin> snd ` set (jobs s)) (timers s)
     else e = Some ErrNotRunning \<and> s' = s)"
proof (cases "running s")
  case True
  with assms(2) have "s' = fold cancel (map snd (jobs s)) s" "e = None" by (simp_all add: Stop_def)
  with cancel_all [OF assms(1), of "map snd (jobs s)"] coreD(3) [OF assms(1)] True show ?thesis
    by simp
next
  case False
  with assms show ?thesis by (simp add: Stop_def)
qed

lemma add_job_core:
  assumes "core s" and "idle_until_started s" and "map_of (jobs s) n = None" and "j_timer j = None"
    and "add_job cn n j s = Ret (e, s')"
  shows "core s' \<and> running s' = running s \<and> e = None \<and> idle_until_started s' \<and>
    jobs s' = jobs s @ [(n, length (objs s))] \<and>
    (running s \<longrightarrow> tokens s' = (tokens s)(length (objs s) := 1))"
proof -
  let ?i = "length (objs s)"
  let ?s1 = "s\<lparr>objs := objs s @ [j], jobs := AList.update n ?i (jobs s)\<rparr>"
  note new = core_new_job [OF assms(1,3,4)]
  show ?thesis
  proof (cases "running s")
    case True
    with assms(5) obtain s2 where s2: "schedule cn ?i ?s1 = Ret s2" "s' = s2" "e = None"
      by (auto simp: add_job_def Let_def bind_run_Ret_iff)
    have "?i < length (objs ?s1)" by simp
    from schedule_core [OF new(1) this new(3) s2(1)] new(2,4) s2 True show ?thesis
      by (simp add: idle_until_started_def)
  next
    case False
    with assms(5) have "s' = ?s1" "e = None" by (simp_all add: add_job_def Let_def)
    with new False assms(2) show ?thesis by (simp add: idle_until_started_def)
  qed
qed

lemma Remove_core:
  assumes "core s" and "Remove n s = (e, s')"
  shows "core s' \<and> running s' = running s \<and> active s' = active s \<and>
    set (timers s') \<subseteq> set (timers s)"
proof (cases "map_of (jobs s) n")
  case None
  with assms show ?thesis by (simp add: Remove_def)
next
  case (Some i)
  with assms(2) have s': "s' = (cancel i s)\<lparr>jobs := AList.delete n (jobs s)\<rparr>"
    by (simp add: Remove_def)
  from Some have "i \<in> snd ` set (jobs s)" by (force dest: map_of_SomeD)
  then have i: "i < length (objs s)" by (rule coreD(3) [OF assms(1)])
  note c = cancel_core [OF assms(1) i]
  have sub: "set (AList.delete n (jobs s)) \<subseteq> set (jobs s)" by (auto simp: AList.delete_eq)
  have "core s'"
  proof (rule coreI)
    show "wf_map (jobs s')"
      using coreD(1) [OF assms(1)] by (simp add: s' wf_map_def distinct_delete)
    show "distinct (map snd (jobs s'))"
      using coreD(2) [OF assms(1)] by (simp add: s' AList.delete_eq distinct_map_filter)
    show "k < length (objs s')" if "k \<in> snd ` set (jobs s')" for k
      using that sub coreD(3) [OF assms(1), of k] by (auto simp: s' cancel_frame)
    show "tokens s' k \<le> 1" for k
      using coreD(9) [OF c, of k] by (simp add: s' tokens_def)
    show "k < length (objs s') \<and> t < next_timer s' \<and> j_timer (objs s' ! k) = Some t"
      if "(t, k, d) \<in> set (timers s')" for t k d
      using coreD(5) [OF c, of t k d] that by (simp add: s')
    show "l = k" if "j_timer (objs s' ! k) = Some t" "j_timer (objs s' ! l) = Some t"
      "k < length (objs s')" "l < length (objs s')" for k l t
      using coreD(7) [OF c, of k t l] that by (simp add: s')
  qed (use coreD(4,6,8) [OF c] in \<open>simp_all add: s'\<close>)
  then show ?thesis
    using cancel_timers [OF assms(1) i] by (auto simp: s' cancel_frame)
qed

theorem step_core:
  assumes "step cn pc s l s'" and "core s" and "idle_until_started s"
  shows "core s' \<and> idle_until_started s'"
  using assms(1)
proof cases
  case (start e)
  with Start_core [OF assms(2,3)] show ?thesis by (simp add: idle_until_started_def)
next
  case (stop e)
  with Stop_core [OF assms(2)] assms(3) show ?thesis
    by (auto simp: idle_until_started_def split: if_splits)
next
  case (add n j d e)
  then consider "s' = s" | "map_of (jobs s) n = None"
    "add_job cn n \<lparr>j_job = j, j_interval = d, j_cron = None, j_timer = None\<rparr> s = Ret (e, s')"
    by (auto simp: Add_def split: if_splits)
  then show ?thesis
  proof cases
    case 2
    from add_job_core [OF assms(2,3) 2(1) _ 2(2)] show ?thesis by simp
  qed (use assms in simp)
next
  case (add_cron n j x e)
  then consider "s' = s" | c where "map_of (jobs s) n = None"
    "add_job cn n \<lparr>j_job = j, j_interval = 0, j_cron = Some c, j_timer = None\<rparr> s = Ret (e, s')"
    by (auto simp: AddCron_def split: if_splits option.splits)
  then show ?thesis
  proof cases
    case 2
    from add_job_core [OF assms(2,3) 2(1) _ 2(2)] show ?thesis by simp
  qed (use assms in simp)
next
  case (remove n e)
  with Remove_core [OF assms(2)] assms(3) show ?thesis by (auto simp: idle_until_started_def)
next
  case (fire t i due)
  then have "running s" using assms(3) by (auto simp: idle_until_started_def)
  with core_fire [OF assms(2) fire(3)] fire show ?thesis by (simp add: idle_until_started_def)
next
  case (finish i)
  then have "running s" using assms(3) by (auto simp: idle_until_started_def)
  with core_finish [OF assms(2) finish(2,3)] show ?thesis by (simp add: idle_until_started_def)
next
  case (tick d)
  with assms show ?thesis by (simp add: idle_until_started_def)
qed

theorem steps_core:
  "steps cn pc s ls s' \<Longrightarrow> core s \<Longrightarrow> idle_until_started s \<Longrightarrow> core s' \<and> idle_until_started s'"
  by (induction rule: steps.induct) (auto dest: step_core)

subsection \<open>A started job stays alive\<close>

definition alive :: "('j, 'c) sched \<Rightarrow> bool" where
  "alive s \<longleftrightarrow> (running s \<longrightarrow> (\<forall>i \<in> snd ` set (jobs s). tokens s i = 1))"

definition takes_away :: "'j label \<Rightarrow> bool" where
  "takes_away l = (case l of L_Stop \<Rightarrow> True | L_Remove _ \<Rightarrow> True | _ \<Rightarrow> False)"

lemma add_job_alive:
  assumes "core s" and "idle_until_started s" and "map_of (jobs s) n = None" and "j_timer j = None"
    and "add_job cn n j s = Ret (e, s')" and "alive s"
  shows "alive s'"
  using add_job_core [OF assms(1-5)] assms(6) by (auto simp: alive_def)

lemma step_alive:
  assumes "step cn pc s l s'" and "core s" and "idle_until_started s" and "alive s"
    and "\<not> takes_away l"
  shows "alive s'"
  using assms(1)
proof cases
  case (start e)
  with Start_core [OF assms(2,3)] assms(4) show ?thesis by (auto simp: alive_def)
next
  case (add n j d e)
  then consider "s' = s" | "map_of (jobs s) n = None"
    "add_job cn n \<lparr>j_job = j, j_interval = d, j_cron = None, j_timer = None\<rparr> s = Ret (e, s')"
    by (auto simp: Add_def split: if_splits)
  then show ?thesis
  proof cases
    case 2
    from add_job_alive [OF assms(2,3) 2(1) _ 2(2) assms(4)] show ?thesis by simp
  qed (use assms in simp)
next
  case (add_cron n j x e)
  then consider "s' = s" | c where "map_of (jobs s) n = None"
    "add_job cn n \<lparr>j_job = j, j_interval = 0, j_cron = Some c, j_timer = None\<rparr> s = Ret (e, s')"
    by (auto simp: AddCron_def split: if_splits option.splits)
  then show ?thesis
  proof cases
    case 2
    from add_job_alive [OF assms(2,3) 2(1) _ 2(2) assms(4)] show ?thesis by simp
  qed (use assms in simp)
next
  case (fire t i due)
  with tokens_fire [OF assms(2) fire(3)] assms(4) show ?thesis by (simp add: alive_def)
next
  case (finish i)
  with core_finish [OF assms(2) finish(2,3)] assms(4) show ?thesis by (simp add: alive_def)
next
  case (tick d)
  with assms(4) show ?thesis by (simp add: alive_def)
qed (use assms(5) in \<open>simp_all add: takes_away_def\<close>)

lemma steps_alive:
  "steps cn pc s ls s' \<Longrightarrow> core s \<Longrightarrow> idle_until_started s \<Longrightarrow> alive s \<Longrightarrow>
    \<forall>l \<in> set ls. \<not> takes_away l \<Longrightarrow> alive s'"
  by (induction rule: steps.induct) (auto dest: step_alive steps_core)

lemma step_running: "step cn pc s l s' \<Longrightarrow> running s \<Longrightarrow> running s'"
proof (induction rule: step.cases)
  case (start s e s')
  then show ?case by (auto simp: Start_def)
next
  case (stop s e s')
  moreover have "running (fold cancel is s) = running s" for "is"
    by (induction "is" arbitrary: s) (simp_all add: cancel_frame)
  ultimately show ?case by (auto simp: Stop_def)
next
  case (add n j d s e s')
  then show ?case
    by (auto simp: Add_def add_job_def Let_def bind_run_Ret_iff split: if_splits elim!: schedule_Ret)
next
  case (add_cron n j x s e s')
  then show ?case
    by (auto simp: AddCron_def add_job_def Let_def bind_run_Ret_iff
        split: if_splits option.splits elim!: schedule_Ret)
next
  case (remove n s e s')
  then show ?case by (auto simp: Remove_def cancel_frame split: option.splits)
qed (auto elim!: schedule_Ret)

lemma steps_running: "steps cn pc s ls s' \<Longrightarrow> running s \<Longrightarrow> running s'"
  by (induction rule: steps.induct) (auto dest: step_running)

subsection \<open>Names: the contract the server relies on\<close>

text \<open>
  A store that takes named items one by one: it refuses, unchanged, an item it cannot use or whose
  name is taken, and takes any other. \<open>add_each\<close> is the loop of a client that stops at the first
  refusal.
\<close>

fun add_each ::
  "('x \<Rightarrow> 's \<Rightarrow> ('e option \<times> 's) run) \<Rightarrow> 'x list \<Rightarrow> 's \<Rightarrow> ('e option \<times> 's) run" where
  "add_each add [] s = Ret (None, s)"
| "add_each add (x # xs) s =
     bind_run (add x s) (\<lambda>(e, s1).
       case e of Some _ \<Rightarrow> Ret (e, s1) | None \<Rightarrow> add_each add xs s1)"

locale named_store =
  fixes names :: "'s \<Rightarrow> string set"
    and name_of :: "'x \<Rightarrow> string"
    and usable :: "'x \<Rightarrow> bool"
    and add :: "'x \<Rightarrow> 's \<Rightarrow> ('e option \<times> 's) run"
  assumes refused: "name_of x \<in> names s \<or> \<not> usable x \<Longrightarrow> \<exists>e. add x s = Ret (Some e, s)"
    and taken: "name_of x \<notin> names s \<Longrightarrow> usable x \<Longrightarrow>
      \<exists>s'. add x s = Ret (None, s') \<and> names s' = insert (name_of x) (names s)"
begin

definition acceptable :: "'x list \<Rightarrow> 's \<Rightarrow> bool" where
  "acceptable xs s \<longleftrightarrow> distinct (map name_of xs) \<and> (\<forall>x \<in> set xs. usable x \<and> name_of x \<notin> names s)"

lemma add_each_result:
  "\<exists>e s'. add_each add xs s = Ret (e, s') \<and> (e = None \<longleftrightarrow> acceptable xs s) \<and>
     (e = None \<longrightarrow> names s' = names s \<union> name_of ` set xs)"
proof (induction xs arbitrary: s)
  case Nil
  then show ?case by (simp add: acceptable_def)
next
  case (Cons x xs)
  show ?case
  proof (cases "name_of x \<in> names s \<or> \<not> usable x")
    case True
    with refused obtain e where "add x s = Ret (Some e, s)" by blast
    with True show ?thesis by (auto simp: acceptable_def)
  next
    case False
    with taken obtain s1 where s1: "add x s = Ret (None, s1)" "names s1 = insert (name_of x) (names s)"
      by blast
    have "acceptable (x # xs) s \<longleftrightarrow> acceptable xs s1"
      using False s1(2) unfolding acceptable_def by (auto simp: image_iff)
    moreover from Cons.IH [of s1] obtain e s' where "add_each add xs s1 = Ret (e, s')"
      "e = None \<longleftrightarrow> acceptable xs s1" "e = None \<longrightarrow> names s' = names s1 \<union> name_of ` set xs" by blast
    ultimately show ?thesis using s1 by auto
  qed
qed

end

datatype rule = Every int | Cron string

definition add_rule ::
  "('c \<Rightarrow> int \<Rightarrow> int) \<Rightarrow> (string \<Rightarrow> 'c option) \<Rightarrow> string \<times> 'j \<times> rule \<Rightarrow> ('j, 'c) sched
    \<Rightarrow> (sched_error option \<times> ('j, 'c) sched) run" where
  "add_rule cn pc = (\<lambda>(n, j, r) s.
     case r of Every d \<Rightarrow> Add cn n j d s | Cron x \<Rightarrow> AddCron cn pc n j x s)"

fun usable_rule :: "(string \<Rightarrow> 'c option) \<Rightarrow> rule \<Rightarrow> bool" where
  "usable_rule pc (Every d) = (0 < d)"
| "usable_rule pc (Cron x) = (pc x \<noteq> None)"

definition job_names :: "('j, 'c) sched \<Rightarrow> string set" where
  "job_names s = dom (map_of (jobs s))"

lemma add_job_names:
  assumes "map_of (jobs s) n = None" and "0 < j_interval j \<or> j_cron j \<noteq> None"
  shows "\<exists>s'. add_job cn n j s = Ret (None, s') \<and> job_names s' = insert n (job_names s)"
proof -
  from assms(2) have "timeUntilNextRun cn t j \<noteq> Panics p" for t p
    by (auto simp: timeUntilNextRun_def)
  then obtain d where "timeUntilNextRun cn (clock s) j = Ret d"
    by (cases "timeUntilNextRun cn (clock s) j") auto
  then show ?thesis
    by (simp add: add_job_def Let_def schedule_def job_names_def update_conv')
qed

text \<open>A rule that is usable: for \<open>Add\<close> that the interval is positive, for \<open>AddCron\<close> that it parses.\<close>

lemma add_rule_taken:
  assumes "n \<notin> job_names s" and "usable_rule pc r"
  shows "\<exists>s'. add_rule cn pc (n, j, r) s = Ret (None, s') \<and> job_names s' = insert n (job_names s)"
proof -
  from assms(1) have "map_of (jobs s) n = None" by (auto simp: job_names_def)
  with assms(2) add_job_names [OF this] show ?thesis
    by (cases r) (auto simp: add_rule_def Add_def AddCron_def)
qed

lemma add_rule_refused:
  assumes "n \<in> job_names s \<or> (\<exists>x. r = Cron x \<and> pc x = None)"
  shows "\<exists>e. add_rule cn pc (n, j, r) s = Ret (Some e, s)"
  using assms
  by (cases r) (auto simp: add_rule_def Add_def AddCron_def job_names_def split: option.split)

text \<open>\<open>AddCron\<close> keeps the contract by itself.\<close>

interpretation cron_jobs: named_store job_names "\<lambda>(n, j, x). n" "\<lambda>(n, j, x). pc x \<noteq> None"
  "\<lambda>(n, j, x). AddCron cn pc n j x" for cn pc
proof unfold_locales
  fix x :: "string \<times> 'a \<times> string" and s :: "('a, 'b) sched"
  obtain n j e where x: "x = (n, j, e)" by (metis prod_cases3)
  have add: "AddCron cn pc n j e = add_rule cn pc (n, j, Cron e)" by (simp add: add_rule_def fun_eq_iff)
  show "\<exists>err. (case x of (n, j, x) \<Rightarrow> AddCron cn pc n j x) s = Ret (Some err, s)"
    if "(case x of (n, j, x) \<Rightarrow> n) \<in> job_names s \<or> \<not> (case x of (n, j, x) \<Rightarrow> pc x \<noteq> None)"
    using that add_rule_refused [of n s "Cron e" pc cn j] by (auto simp: x add)
  show "\<exists>s'. (case x of (n, j, x) \<Rightarrow> AddCron cn pc n j x) s = Ret (None, s') \<and>
      job_names s' = insert (case x of (n, j, x) \<Rightarrow> n) (job_names s)"
    if "(case x of (n, j, x) \<Rightarrow> n) \<notin> job_names s" "case x of (n, j, x) \<Rightarrow> pc x \<noteq> None"
    using that add_rule_taken [of n s pc "Cron e" cn j] by (simp add: x add)
qed

subsection \<open>The time between two runs\<close>

text \<open>From \<open>B\<close> on: job \<open>i\<close> is not executing, and whatever is pending for it is due at \<open>B\<close> or later.\<close>

definition waits_until :: "nat \<Rightarrow> int \<Rightarrow> ('j, 'c) sched \<Rightarrow> bool" where
  "waits_until i B s \<longleftrightarrow> i < length (objs s) \<and> i \<notin> set (active s) \<and>
     (\<forall>(t, j, due) \<in> set (timers s). j = i \<longrightarrow> B \<le> due)"

lemma schedule_waits:
  assumes "waits_until i B s" and "k \<noteq> i" and "schedule cn k s = Ret s'"
  shows "waits_until i B s'"
  using assms by (auto simp: waits_until_def elim!: schedule_Ret)

lemma add_job_waits:
  assumes "waits_until i B s" and "add_job cn n j s = Ret (e, s')"
  shows "waits_until i B s'"
proof -
  let ?s1 = "s\<lparr>objs := objs s @ [j], jobs := AList.update n (length (objs s)) (jobs s)\<rparr>"
  have w: "waits_until i B ?s1" and ne: "length (objs s) \<noteq> i"
    using assms(1) by (auto simp: waits_until_def)
  from assms(2) have "s' = ?s1 \<or> schedule cn (length (objs s)) ?s1 = Ret s'"
    by (auto simp: add_job_def Let_def bind_run_Ret_iff split: if_splits)
  with w schedule_waits [OF w ne] show ?thesis by blast
qed

lemma cancel_waits: "waits_until i B s \<Longrightarrow> waits_until i B (cancel k s)"
  by (auto simp: waits_until_def cancel_def split: option.split)

lemma cancels_waits: "waits_until i B s \<Longrightarrow> waits_until i B (fold cancel is s)"
  by (induction "is" arbitrary: s) (auto simp: cancel_waits)

lemma step_waits:
  assumes "step cn pc s l s'" and "running s" and "waits_until i B s" and "l \<noteq> L_Fire i"
  shows "waits_until i B s'"
  using assms(1)
proof cases
  case (start e)
  with assms(2,3) show ?thesis by (simp add: Start_def)
next
  case (stop e)
  with assms(2,3) show ?thesis by (auto simp: Stop_def cancels_waits)
next
  case (add n j d e)
  with assms(3) show ?thesis by (auto simp: Add_def split: if_splits elim: add_job_waits)
next
  case (add_cron n j x e)
  with assms(3) show ?thesis
    by (auto simp: AddCron_def split: if_splits option.splits elim: add_job_waits)
next
  case (remove n e)
  have "waits_until i B ((cancel k s)\<lparr>jobs := m\<rparr>)" for k m
    using cancel_waits [OF assms(3), of k] by (simp add: waits_until_def)
  with remove assms(3) show ?thesis by (auto simp: Remove_def split: option.splits)
next
  case (fire t k due)
  with assms(3,4) show ?thesis by (auto simp: waits_until_def)
next
  case (finish k)
  let ?s = "s\<lparr>active := remove1 k (active s)\<rparr>"
  have "waits_until i B ?s"
    using assms(3) set_remove1_subset [of k "active s"] by (auto simp: waits_until_def)
  moreover have "k \<noteq> i" using finish assms(3) by (auto simp: waits_until_def)
  ultimately show ?thesis using finish schedule_waits by blast
next
  case (tick d)
  with assms(3) show ?thesis by (simp add: waits_until_def)
qed

lemma steps_waits:
  "steps cn pc s ls s' \<Longrightarrow> running s \<Longrightarrow> waits_until i B s \<Longrightarrow> L_Fire i \<notin> set ls
    \<Longrightarrow> waits_until i B s'"
proof (induction rule: steps.induct)
  case (none s)
  then show ?case by simp
next
  case (more s ls s' l s'')
  from more.hyps(1) more.prems(1) have "running s'" by (rule steps_running)
  moreover from more have "waits_until i B s'" by simp
  ultimately show ?case using step_waits [OF more.hyps(2)] more.prems(3) by auto
qed

subsection \<open>Properties\<close>

text \<open>
  The executions of the witnesses: one job with interval 5, added before the start; then its first
  run is executing.
\<close>

definition demo_started :: "(string, unit) sched" where
  "demo_started = \<lparr>objs = [\<lparr>j_job = ''run'', j_interval = 5, j_cron = None, j_timer = Some 0\<rparr>],
     jobs = [(''a'', 0)], running = True, timers = [(0, 0, 5)], next_timer = 1, active = [], clock = 0\<rparr>"

definition demo_running :: "(string, unit) sched" where
  "demo_running = demo_started\<lparr>timers := [], active := [0], clock := 5\<rparr>"

definition no_cron :: "string \<Rightarrow> unit option" where
  "no_cron _ = None"

definition no_next :: "unit \<Rightarrow> int \<Rightarrow> int" where
  "no_next _ now = now"

lemmas sched_exec =
  Start_def Stop_def Add_def add_job_def schedule_def timeUntilNextRun_def Let_def sched_New_def

lemma demo_started: "steps no_next no_cron sched_New [L_Add ''a'' ''run'' 5, L_Start] demo_started"
proof -
  let ?added = "sched_New\<lparr>objs := [\<lparr>j_job = ''run'', j_interval = 5, j_cron = None, j_timer = None\<rparr>],
    jobs := [(''a'', 0)]\<rparr>"
  have "step no_next no_cron sched_New (L_Add ''a'' ''run'' 5) ?added"
    by (rule step.add [of _ _ _ _ _ None]) (simp add: sched_exec)
  moreover have "step no_next no_cron ?added L_Start demo_started"
    by (rule step.start [of _ _ None]) (simp add: sched_exec demo_started_def)
  ultimately show ?thesis
    using steps.more [OF steps.more [OF steps.none]] by fastforce
qed

lemma demo_running:
  "steps no_next no_cron sched_New [L_Add ''a'' ''run'' 5, L_Start, L_Tick 5, L_Fire 0] demo_running"
proof -
  let ?later = "demo_started\<lparr>clock := clock demo_started + 5\<rparr>"
  have tick: "step no_next no_cron demo_started (L_Tick 5) ?later" by (rule step.tick) simp
  have "(0, 0, 5) \<in> set (timers ?later)" "5 \<le> clock ?later" by (simp_all add: demo_started_def)
  from step.fire [OF this] have "step no_next no_cron ?later (L_Fire 0) demo_running"
    by (simp add: demo_running_def demo_started_def)
  from steps.more [OF steps.more [OF demo_started tick] this] show ?thesis by simp
qed

text \<open>
  C4: No job ever overlaps with itself, and nothing runs before the start. In every state that any
  sequence of calls, timer events, ends of runs and ticks can reach, a job has at most one pending
  timer or executing run, and before \<open>Start\<close> there is no timer and no run at all.
\<close>

theorem scheduler_no_overlap:
  assumes "steps cn pc sched_New ls s"
  shows "length (filter (\<lambda>(_, j, _). j = i) (timers s)) + count_list (active s) i \<le> 1 \<and>
    (running s \<or> timers s = [] \<and> active s = [])"
  using steps_core [OF assms core_New] coreD(9) [of s i]
  by (simp add: tokens_def idle_until_started_def)

theorem scheduler_no_overlap_witness:
  "length (filter (\<lambda>(_, j, _). j = 0) (timers demo_running)) + count_list (active demo_running) 0 \<le> 1"
  using scheduler_no_overlap [OF demo_running, of 0] by simp

text \<open>
  C5: No job is lost: as long as neither \<open>Stop\<close> nor \<open>Remove\<close> is called, a started scheduler has for
  each of its jobs exactly one pending timer or executing run, whenever the job was added.
\<close>

theorem scheduler_alive:
  assumes "steps cn pc sched_New ls s" and "\<forall>l \<in> set ls. \<not> takes_away l"
    and "running s" and "(n, i) \<in> set (jobs s)"
  shows "length (filter (\<lambda>(_, j, _). j = i) (timers s)) + count_list (active s) i = 1"
proof -
  have "alive sched_New" by (simp add: alive_def sched_New_def)
  from steps_alive [OF assms(1) core_New this assms(2)] assms(3,4) show ?thesis
    by (force simp: alive_def tokens_def)
qed

theorem scheduler_alive_witness:
  "length (filter (\<lambda>(_, j, _). j = 0) (timers demo_running)) + count_list (active demo_running) 0 = 1"
  by (rule scheduler_alive [OF demo_running, where n = "''a''"])
    (simp_all add: takes_away_def demo_running_def demo_started_def)

text \<open>
  C6: A job with an interval rests for at least that interval: between the end of a run, with the
  rescheduling that follows it, and the start of the next run of the same job, whatever else
  happens, at least the interval passes on the clock.
\<close>

theorem scheduler_interval:
  assumes "core s" and "idle_until_started s"
    and "step cn pc s (L_Finish i) s1" and "0 < j_interval (objs s ! i)"
    and "steps cn pc s1 ls s2" and "L_Fire i \<notin> set ls"
    and "step cn pc s2 (L_Fire i) s3"
  shows "clock s1 + j_interval (objs s ! i) \<le> clock s2"
proof -
  let ?s = "s\<lparr>active := remove1 i (active s)\<rparr>"
  from assms(3) have fin: "i \<in> set (active s)" "schedule cn i ?s = Ret s1"
    by (simp_all add: step_finish)
  from assms(2) fin(1) have run: "running s" by (auto simp: idle_until_started_def)
  note r = remove1_active [OF assms(1) fin(1)]
  from fin(2) obtain d where d: "timeUntilNextRun cn (clock ?s) (objs ?s ! i) = Ret d" and
    s1: "s1 = ?s\<lparr>objs := (objs ?s)[i := (objs ?s ! i)\<lparr>j_timer := Some (next_timer ?s)\<rparr>],
      timers := timers ?s @ [(next_timer ?s, i, clock ?s + max 0 d)], next_timer := Suc (next_timer ?s)\<rparr>"
    by (rule schedule_Ret)
  from d assms(4) have "d = j_interval (objs s ! i)" by (simp add: timeUntilNextRun_def)
  moreover have tok: "tokens ?s i = 0" using r(3) by simp
  then have "i \<notin> set (active ?s)" using count_list_0_iff [of "active ?s" i] by (simp add: tokens_def)
  ultimately have "waits_until i (clock s1 + j_interval (objs s ! i)) s1"
    using r(2) tokens_0D [OF tok] assms(4) by (auto simp: waits_until_def s1)
  moreover have "running s1" using run by (simp add: s1)
  ultimately have "waits_until i (clock s1 + j_interval (objs s ! i)) s2"
    using steps_waits [OF assms(5)] assms(6) by blast
  with assms(7) show ?thesis by (force simp: step_fire waits_until_def)
qed

definition demo_again :: "(string, unit) sched" where
  "demo_again = demo_started\<lparr>objs := [\<lparr>j_job = ''run'', j_interval = 5, j_cron = None, j_timer = Some 1\<rparr>],
     timers := [(1, 0, 10)], next_timer := 2, clock := 5\<rparr>"

lemma demo_again: "step no_next no_cron demo_running (L_Finish 0) demo_again"
  by (rule step.finish) (simp_all add: demo_running_def demo_again_def demo_started_def sched_exec)

theorem scheduler_interval_witness:
  "\<exists>s2 s3. step no_next no_cron demo_running (L_Finish 0) demo_again \<and>
     steps no_next no_cron demo_again [L_Tick 5] s2 \<and> step no_next no_cron s2 (L_Fire 0) s3 \<and>
     clock demo_again + 5 \<le> clock s2"
proof -
  let ?s2 = "demo_again\<lparr>clock := clock demo_again + 5\<rparr>"
  have inv: "core demo_running \<and> idle_until_started demo_running"
    using steps_core [OF demo_running core_New] .
  have int: "j_interval (objs demo_running ! 0) = 5"
    by (simp add: demo_running_def demo_started_def)
  have "step no_next no_cron demo_again (L_Tick 5) ?s2" by (rule step.tick) simp
  from steps.more [OF steps.none this]
  have rest: "steps no_next no_cron demo_again [L_Tick 5] ?s2" by simp
  have "(1, 0, 10) \<in> set (timers ?s2)" "10 \<le> clock ?s2"
    by (simp_all add: demo_again_def demo_started_def)
  from step.fire [OF this, of no_next no_cron]
  obtain s3 where fire: "step no_next no_cron ?s2 (L_Fire 0) s3" by blast
  have "clock demo_again + j_interval (objs demo_running ! 0) \<le> clock ?s2"
    by (rule scheduler_interval [OF _ _ demo_again _ rest _ fire]) (simp_all add: inv int)
  with int demo_again rest fire show ?thesis by (metis (full_types))
qed

text \<open>The steps that are no call of the API.\<close>

definition internal :: "'j label \<Rightarrow> bool" where
  "internal l = (case l of L_Fire _ \<Rightarrow> True | L_Finish _ \<Rightarrow> True | L_Tick _ \<Rightarrow> True | _ \<Rightarrow> False)"

lemma quiet_step:
  assumes "step cn pc s l s'" and "internal l" and "timers s = [] \<and> active s = []"
  shows "timers s' = [] \<and> active s' = []"
  using assms by cases (simp_all add: internal_def)

lemma quiet_steps:
  "steps cn pc s ls s' \<Longrightarrow> \<forall>l \<in> set ls. internal l \<Longrightarrow> timers s = [] \<and> active s = []
    \<Longrightarrow> timers s' = [] \<and> active s' = []"
  by (induction rule: steps.induct) (auto dest: quiet_step)





text \<open>
  A stopped scheduler cannot be started again. \<open>Stop\<close> leaves the running flag set, so after a
  successful \<open>Stop\<close>, whatever happens next, \<open>Start\<close> fails as already started without scheduling any
  job, and another \<open>Stop\<close> succeeds where the error for a scheduler that is not running is due.
\<close>

theorem Start_after_Stop:
  assumes "Stop s = (None, s1)" and "steps cn pc s1 ls s2"
  shows "Start cn s2 = Ret (Some ErrAlreadyStarted, s2) \<and> fst (Stop s2) = None"
proof -
  have run: "running s" using assms(1) by (auto simp: Stop_def split: if_splits)
  have "step cn pc s L_Stop s1" using step.stop [OF assms(1)] .
  from steps_running [OF assms(2) step_running [OF this run]]
  show ?thesis by (simp add: Start_def Stop_def)
qed

theorem Start_after_Stop_witness:
  "\<exists>s1. Stop demo_started = (None, s1) \<and> Start no_next s1 = Ret (Some ErrAlreadyStarted, s1)"
proof -
  obtain s1 where stop: "Stop demo_started = (None, s1)"
    by (simp add: Stop_def demo_started_def)
  from Start_after_Stop [OF stop steps.none [of no_next no_cron]] stop
  show ?thesis by blast
qed

end
