(* ===== verification/Server.thy ===== *)
theory Server
  imports Suite_Config Scheduler
begin

text \<open>
  The server (\<open>server/server.go\<close>): it turns suites into jobs of the scheduler. A \<open>suiteRunner\<close> is a
  suite with the server's notifier; its \<open>Run\<close> is what the scheduler calls when a timer fires. The
  runner relies on the contract \<open>named_store\<close> of the scheduler, and offers the same contract, for
  suites and their paths, to the \<open>run\<close> command.
\<close>

record ('w, 'e) suiteRunner =
  sr_s :: "('w, 'e) Suite"
  sr_n :: "(('w, 'e) report, 'w) notifier option"

record ('w, 'e, 'c) Server =
  sch :: "(('w, 'e) suiteRunner, 'c) sched"
  srv_notifier :: "(('w, 'e) report, 'w) notifier option"

datatype schedule_error = No_Scheduling_Rule | Sched_Refused sched_error

datatype server_error = Could_Not_Schedule string schedule_error | Sched_Error sched_error

definition Server_New :: "(('w, 'e) report, 'w) notifier option \<Rightarrow> ('w, 'e, 'c) Server" where
  "Server_New n = \<lparr>sch = sched_New, srv_notifier = n\<rparr>"

definition suiteRunner_Run ::
  "'w runtime \<Rightarrow> ('w, 'e) suiteRunner \<Rightarrow> 'w \<Rightarrow> 'w run" where
  "suiteRunner_Run rt sr w =
     bind_run (Suite_Run rt (sr_s sr) \<lparr>ctx_md = None\<rparr> w) (\<lambda>(r, w1).
       Ret (case sr_n sr of None \<Rightarrow> w1 | Some n \<Rightarrow> n r w1))"

definition scheduleSuite ::
  "('c \<Rightarrow> int \<Rightarrow> int) \<Rightarrow> (string \<Rightarrow> 'c option) \<Rightarrow> ('w, 'e) Suite \<Rightarrow> ('w, 'e, 'c) Server
    \<Rightarrow> (schedule_error option \<times> ('w, 'e, 'c) Server) run" where
  "scheduleSuite cn pc suite srv =
     (let sr = \<lparr>sr_s = suite, sr_n = srv_notifier srv\<rparr>;
          done = (\<lambda>(e, s1). Ret (map_option Sched_Refused e, srv\<lparr>sch := s1\<rparr>))
      in if s_runCron suite \<noteq> [] then
           bind_run (AddCron cn pc (s_path suite) sr (s_runCron suite) (sch srv)) done
         else if 0 < s_runEvery suite then
           bind_run (Add cn (s_path suite) sr (s_runEvery suite) (sch srv)) done
         else Ret (Some No_Scheduling_Rule, srv))"

definition AddSuite ::
  "('c \<Rightarrow> int \<Rightarrow> int) \<Rightarrow> (string \<Rightarrow> 'c option) \<Rightarrow> ('w, 'e) Suite \<Rightarrow> ('w, 'e, 'c) Server
    \<Rightarrow> (server_error option \<times> ('w, 'e, 'c) Server) run" where
  "AddSuite cn pc suite srv =
     bind_run (scheduleSuite cn pc suite srv) (\<lambda>(e, srv1).
       Ret (map_option (Could_Not_Schedule (s_path suite)) e, srv1))"

definition Server_Start ::
  "('c \<Rightarrow> int \<Rightarrow> int) \<Rightarrow> ('w, 'e, 'c) Server \<Rightarrow> (server_error option \<times> ('w, 'e, 'c) Server) run" where
  "Server_Start cn srv =
     bind_run (Start cn (sch srv)) (\<lambda>(e, s1). Ret (map_option Sched_Error e, srv\<lparr>sch := s1\<rparr>))"

definition Server_Stop ::
  "('w, 'e, 'c) Server \<Rightarrow> server_error option \<times> ('w, 'e, 'c) Server" where
  "Server_Stop srv = (case Stop (sch srv) of (e, s1) \<Rightarrow> (map_option Sched_Error e, srv\<lparr>sch := s1\<rparr>))"

subsection \<open>The contract of the server\<close>

text \<open>A suite has a rule when its cron expression parses or, without one, its interval is positive.\<close>

definition has_rule :: "(string \<Rightarrow> 'c option) \<Rightarrow> ('w, 'e) Suite \<Rightarrow> bool" where
  "has_rule pc suite \<longleftrightarrow>
     (if s_runCron suite \<noteq> [] then pc (s_runCron suite) \<noteq> None else 0 < s_runEvery suite)"

definition suite_rule :: "('w, 'e) Suite \<Rightarrow> rule" where
  "suite_rule suite =
     (if s_runCron suite \<noteq> [] then Cron (s_runCron suite) else Every (s_runEvery suite))"

definition srv_names :: "('w, 'e, 'c) Server \<Rightarrow> string set" where
  "srv_names srv = job_names (sch srv)"

lemma has_rule_usable: "has_rule pc suite = usable_rule pc (suite_rule suite)"
  by (simp add: has_rule_def suite_rule_def)

lemma scheduleSuite_rule:
  "s_runCron suite \<noteq> [] \<or> 0 < s_runEvery suite \<Longrightarrow>
   scheduleSuite cn pc suite srv =
     bind_run (add_rule cn pc (s_path suite, \<lparr>sr_s = suite, sr_n = srv_notifier srv\<rparr>, suite_rule suite) (sch srv))
       (\<lambda>(e, s1). Ret (map_option Sched_Refused e, srv\<lparr>sch := s1\<rparr>))"
  by (auto simp: scheduleSuite_def Let_def suite_rule_def add_rule_def)

lemma AddSuite_taken:
  assumes "s_path suite \<notin> srv_names srv" and "has_rule pc suite"
  shows "\<exists>srv'. AddSuite cn pc suite srv = Ret (None, srv') \<and>
    srv_names srv' = insert (s_path suite) (srv_names srv)"
proof -
  have "s_runCron suite \<noteq> [] \<or> 0 < s_runEvery suite"
    using assms(2) by (auto simp: has_rule_def split: if_splits)
  with add_rule_taken [of "s_path suite" "sch srv" pc "suite_rule suite" cn
      "\<lparr>sr_s = suite, sr_n = srv_notifier srv\<rparr>"] assms
  show ?thesis
    by (auto simp: AddSuite_def scheduleSuite_rule srv_names_def has_rule_usable)
qed

lemma AddSuite_refused:
  assumes "s_path suite \<in> srv_names srv \<or> \<not> has_rule pc suite"
  shows "\<exists>e. AddSuite cn pc suite srv = Ret (Some e, srv)"
proof (cases "s_runCron suite \<noteq> [] \<or> 0 < s_runEvery suite")
  case True
  then have "s_path suite \<in> job_names (sch srv) \<or> (\<exists>x. suite_rule suite = Cron x \<and> pc x = None)"
    using assms by (auto simp: srv_names_def has_rule_def suite_rule_def)
  from add_rule_refused [OF this, of cn "\<lparr>sr_s = suite, sr_n = srv_notifier srv\<rparr>"] True
  show ?thesis by (auto simp: AddSuite_def scheduleSuite_rule)
next
  case False
  then show ?thesis by (simp add: AddSuite_def scheduleSuite_def)
qed

interpretation server_suites: named_store srv_names s_path "has_rule pc" "AddSuite cn pc" for cn pc
  by unfold_locales (use AddSuite_refused AddSuite_taken in blast)+

subsection \<open>Adding suites before the start\<close>

definition suite_job ::
  "(string \<Rightarrow> 'c option) \<Rightarrow> (('w, 'e) report, 'w) notifier option \<Rightarrow> ('w, 'e) Suite
    \<Rightarrow> (('w, 'e) suiteRunner, 'c) job" where
  "suite_job pc n suite =
     \<lparr>j_job = \<lparr>sr_s = suite, sr_n = n\<rparr>,
      j_interval = (if s_runCron suite \<noteq> [] then 0 else s_runEvery suite),
      j_cron = (if s_runCron suite \<noteq> [] then pc (s_runCron suite) else None), j_timer = None\<rparr>"

definition suite_jobs ::
  "(string \<Rightarrow> 'c option) \<Rightarrow> (('w, 'e) report, 'w) notifier option \<Rightarrow> ('w, 'e) Suite list
    \<Rightarrow> (('w, 'e) suiteRunner, 'c) sched" where
  "suite_jobs pc n suites = sched_New\<lparr>objs := map (suite_job pc n) suites,
     jobs := zip (map s_path suites) [0..<length suites]\<rparr>"

lemma AddSuite_suite_jobs:
  assumes "s_path suite \<notin> set (map s_path suites)" and "has_rule pc suite"
  shows "AddSuite cn pc suite \<lparr>sch = suite_jobs pc n suites, srv_notifier = n\<rparr> =
    Ret (None, \<lparr>sch = suite_jobs pc n (suites @ [suite]), srv_notifier = n\<rparr>)"
proof -
  have "map_of (zip (map s_path suites) [0..<length suites]) (s_path suite) = None"
    using assms(1) by simp
  with assms(2) show ?thesis
    by (auto simp: AddSuite_def scheduleSuite_def Let_def AddCron_def Add_def add_job_def
        suite_jobs_def sched_New_def has_rule_def suite_job_def update_absent
        split: if_splits option.splits)
qed

lemma add_each_suite_jobs:
  assumes "distinct (map s_path (suites0 @ suites))" and "\<forall>suite \<in> set suites. has_rule pc suite"
  shows "add_each (AddSuite cn pc) suites \<lparr>sch = suite_jobs pc n suites0, srv_notifier = n\<rparr> =
    Ret (None, \<lparr>sch = suite_jobs pc n (suites0 @ suites), srv_notifier = n\<rparr>)"
  using assms
proof (induction suites arbitrary: suites0)
  case Nil
  then show ?case by simp
next
  case (Cons suite suites)
  from Cons.prems have "s_path suite \<notin> set (map s_path suites0)" "has_rule pc suite" by auto
  from AddSuite_suite_jobs [OF this] Cons.IH [of "suites0 @ [suite]"] Cons.prems
  show ?case by simp
qed

text \<open>Scheduling keeps what a job is; only its timer changes.\<close>

definition same_job :: "('j, 'c) job \<Rightarrow> ('j, 'c) job \<Rightarrow> bool" where
  "same_job j k \<longleftrightarrow> j_job j = j_job k \<and> j_interval j = j_interval k \<and> j_cron j = j_cron k"

definition schedulable :: "('j, 'c) job \<Rightarrow> bool" where
  "schedulable j \<longleftrightarrow> 0 < j_interval j \<or> j_cron j \<noteq> None"

lemma schedule_returns:
  assumes "schedulable (objs s ! i)"
  obtains s' where "schedule cn i s = Ret s'" "list_all2 same_job (objs s) (objs s')"
proof -
  have "timeUntilNextRun cn (clock s) (objs s ! i) \<noteq> Panics p" for p
    using assms by (auto simp: schedulable_def timeUntilNextRun_def)
  then obtain d where "timeUntilNextRun cn (clock s) (objs s ! i) = Ret d"
    by (cases "timeUntilNextRun cn (clock s) (objs s ! i)") auto
  then have "schedule cn i s = Ret (s\<lparr>objs := (objs s)[i := (objs s ! i)\<lparr>j_timer := Some (next_timer s)\<rparr>],
      timers := timers s @ [(next_timer s, i, clock s + max 0 d)], next_timer := Suc (next_timer s)\<rparr>)"
    by (simp add: schedule_def)
  moreover have "list_all2 same_job (objs s) ((objs s)[i := (objs s ! i)\<lparr>j_timer := t\<rparr>])" for t
    by (cases "i < length (objs s)")
      (simp_all add: list_all2_conv_all_nth nth_list_update same_job_def)
  ultimately show ?thesis using that by simp
qed

lemma same_job_trans: "same_job a b \<Longrightarrow> same_job b c \<Longrightarrow> same_job a c"
  by (simp add: same_job_def)

lemma schedule_all_returns:
  assumes "\<forall>i \<in> set is. i < length (objs s) \<and> schedulable (objs s ! i)"
  shows "\<exists>s'. schedule_all cn is s = Ret s' \<and> list_all2 same_job (objs s) (objs s')"
  using assms
proof (induction "is" arbitrary: s)
  case Nil
  then show ?case by (simp add: list_all2_conv_all_nth same_job_def)
next
  case (Cons i "is")
  then have "schedulable (objs s ! i)" by simp
  then obtain s1 where s1: "schedule cn i s = Ret s1" "list_all2 same_job (objs s) (objs s1)"
    by (rule schedule_returns)
  have "schedulable (objs s1 ! k)" if "k < length (objs s)" "schedulable (objs s ! k)" for k
    using that list_all2_nthD [OF s1(2)] by (auto simp: same_job_def schedulable_def)
  with Cons.prems list_all2_lengthD [OF s1(2)]
  have "\<forall>k \<in> set is. k < length (objs s1) \<and> schedulable (objs s1 ! k)" by simp
  from Cons.IH [OF this] obtain s' where "schedule_all cn is s1 = Ret s'"
    "list_all2 same_job (objs s1) (objs s')" by blast
  with s1 list_all2_trans [OF same_job_trans] show ?case by auto
qed

lemma suite_jobs_core:
  assumes "distinct (map s_path suites)"
  shows "core (suite_jobs pc n suites)" "idle_until_started (suite_jobs pc n suites)"
proof -
  have len: "length (map s_path suites) = length [0..<length suites]" by simp
  have fsts: "map fst (zip (map s_path suites) [0..<length suites]) = map s_path suites"
    and snds: "map snd (zip (map s_path suites) [0..<length suites]) = [0..<length suites]"
    by (simp_all add: map_fst_zip map_snd_zip)
  show "core (suite_jobs pc n suites)"
  proof (rule coreI)
    show "wf_map (jobs (suite_jobs pc n suites))"
      using assms fsts by (simp add: wf_map_def suite_jobs_def)
    show "distinct (map snd (jobs (suite_jobs pc n suites)))"
      using snds by (simp add: suite_jobs_def)
    show "i < length (objs (suite_jobs pc n suites))" if "i \<in> snd ` set (jobs (suite_jobs pc n suites))" for i
    proof -
      from that have "i \<in> set (map snd (zip (map s_path suites) [0..<length suites]))"
        by (simp only: set_map) (simp add: suite_jobs_def)
      then have "i < length suites" unfolding snds by simp
      then show ?thesis by (simp add: suite_jobs_def)
    qed
  qed (simp_all add: suite_jobs_def sched_New_def suite_job_def tokens_def)
  show "idle_until_started (suite_jobs pc n suites)"
    by (simp add: idle_until_started_def suite_jobs_def sched_New_def)
qed

text \<open>The timers a start sets: each for a job of the list, due after the job's interval if it has one.\<close>

lemma schedule_all_due:
  "schedule_all cn is s = Ret s' \<Longrightarrow> (t, i, due) \<in> set (timers s') \<Longrightarrow>
    (t, i, due) \<in> set (timers s) \<or> (0 < j_interval (objs s ! i) \<longrightarrow> due = clock s + j_interval (objs s ! i))"
proof (induction "is" arbitrary: s)
  case Nil
  then show ?case by simp
next
  case (Cons k "is")
  from Cons.prems(1) obtain s1 where s1: "schedule cn k s = Ret s1" "schedule_all cn is s1 = Ret s'"
    by (auto simp: bind_run_Ret_iff)
  from s1(1) obtain d where d: "timeUntilNextRun cn (clock s) (objs s ! k) = Ret d"
    "s1 = s\<lparr>objs := (objs s)[k := (objs s ! k)\<lparr>j_timer := Some (next_timer s)\<rparr>],
       timers := timers s @ [(next_timer s, k, clock s + max 0 d)], next_timer := Suc (next_timer s)\<rparr>"
    by (rule schedule_Ret)
  have "j_interval (objs s1 ! i) = j_interval (objs s ! i)"
    by (cases "k < length (objs s)"; cases "i = k") (simp_all add: d(2) list_update_beyond)
  moreover have "d = j_interval (objs s ! k)" if "0 < j_interval (objs s ! k)"
    using d(1) that by (simp add: timeUntilNextRun_def)
  ultimately show ?case using Cons.IH [OF s1(2) Cons.prems(2)] by (auto simp: d(2))
qed

text \<open>The state in which a server is that was built from suites and started.\<close>

definition serving ::
  "(string \<Rightarrow> 'c option) \<Rightarrow> (('w, 'e) report, 'w) notifier option \<Rightarrow> ('w, 'e) Suite list
    \<Rightarrow> (('w, 'e) suiteRunner, 'c) sched \<Rightarrow> bool" where
  "serving pc n suites s \<longleftrightarrow> core s \<and> running s \<and> alive s \<and>
     jobs s = zip (map s_path suites) [0..<length suites] \<and>
     list_all2 same_job (map (suite_job pc n) suites) (objs s)"

lemma server_start_state:
  assumes "distinct (map s_path suites)" and "\<forall>suite \<in> set suites. has_rule pc suite"
  shows "\<exists>srv s. add_each (AddSuite cn pc) suites (Server_New n) = Ret (None, srv) \<and>
    Server_Start cn srv = Ret (None, \<lparr>sch = s, srv_notifier = n\<rparr>) \<and>
    serving pc n suites s \<and> active s = [] \<and>
    (\<forall>t i due. (t, i, due) \<in> set (timers s) \<and> 0 < j_interval (objs s ! i)
       \<longrightarrow> due = clock s + j_interval (objs s ! i))"
proof -
  let ?s = "suite_jobs pc n suites"
  have new: "Server_New n = \<lparr>sch = suite_jobs pc n [], srv_notifier = n\<rparr>"
    by (simp add: Server_New_def suite_jobs_def sched_New_def)
  have added: "add_each (AddSuite cn pc) suites (Server_New n) = Ret (None, \<lparr>sch = ?s, srv_notifier = n\<rparr>)"
    unfolding new using add_each_suite_jobs [of "[]" suites pc cn n] assms by simp
  note inv = suite_jobs_core [OF assms(1), of pc n]
  have ids: "map snd (jobs ?s) = [0..<length suites]" by (simp add: suite_jobs_def map_snd_zip)
  have "schedulable (objs ?s ! k)" if "k < length suites" for k
    using that assms(2) nth_mem [OF that]
    by (auto simp: suite_jobs_def schedulable_def suite_job_def has_rule_def split: if_splits)
  then have "\<forall>i \<in> set (map snd (jobs ?s)). i < length (objs ?s) \<and> schedulable (objs ?s ! i)"
    by (simp add: ids) (simp add: suite_jobs_def)
  from schedule_all_returns [OF this] obtain s1 where
    s1: "schedule_all cn (map snd (jobs ?s)) ?s = Ret s1" "list_all2 same_job (objs ?s) (objs s1)"
    by blast
  have idle: "\<not> running ?s" "timers ?s = []" by (simp_all add: suite_jobs_def sched_New_def)
  with s1(1) have start: "Start cn ?s = Ret (None, s1\<lparr>running := True\<rparr>)" by (simp add: Start_def)
  have all: "active s1 = [] \<and> clock s1 = clock ?s"
    using schedule_all_core [OF inv(1) _ _ s1(1)] coreD(2,3) [OF inv(1)] inv(2) idle
    by (simp add: idle_until_started_def tokens_def)
  have "due = clock s1 + j_interval (objs s1 ! i)"
    if "(t, i, due) \<in> set (timers s1)" "0 < j_interval (objs s1 ! i)" "i < length (objs s1)" for t i due
    using schedule_all_due [OF s1(1) that(1)] that list_all2_nthD2 [OF s1(2) that(3)] idle(2) all
    by (simp add: same_job_def)
  moreover from Start_core [OF inv start] idle(1)
  have "core s1" "jobs s1 = jobs ?s" "alive (s1\<lparr>running := True\<rparr>)" by (simp_all add: alive_def)
  ultimately show ?thesis using added start s1(2) all coreD(5) [OF \<open>core s1\<close>]
    by (intro exI [of _ "\<lparr>sch = ?s, srv_notifier = n\<rparr>"] exI [of _ "s1\<lparr>running := True\<rparr>"])
      (auto simp: Server_Start_def serving_def suite_jobs_def)
qed

text \<open>In such a state every suite has its job, with one timer pending or one run executing.\<close>

lemma serving_job:
  assumes "serving pc n suites s" and "distinct (map s_path suites)" and "k < length suites"
  shows "map_of (jobs s) (s_path (suites ! k)) = Some k" "same_job (suite_job pc n (suites ! k)) (objs s ! k)"
    "tokens s k = 1"
proof -
  from assms(1) have jobs: "jobs s = zip (map s_path suites) [0..<length suites]"
    and "alive s" "running s" by (simp_all add: serving_def)
  then show m: "map_of (jobs s) (s_path (suites ! k)) = Some k"
    using assms(2,3) map_of_zip_nth [of "map s_path suites" "[0..<length suites]" k] by simp
  from assms(1) have "list_all2 same_job (map (suite_job pc n) suites) (objs s)" by (simp add: serving_def)
  from list_all2_nthD [OF this, of k] assms(3)
  show "same_job (suite_job pc n (suites ! k)) (objs s ! k)" by simp
  from m have "k \<in> snd ` set (jobs s)" by (force dest: map_of_SomeD)
  with \<open>alive s\<close> \<open>running s\<close> show "tokens s k = 1" unfolding alive_def by blast
qed

lemma server_started:
  assumes "distinct (map s_path suites)" and "\<forall>suite \<in> set suites. has_rule pc suite"
  shows "\<exists>srv srv'. add_each (AddSuite cn pc) suites (Server_New n) = Ret (None, srv) \<and>
    Server_Start cn srv = Ret (None, srv') \<and>
    (\<forall>k < length suites. map_of (jobs (sch srv')) (s_path (suites ! k)) = Some k \<and>
       j_job (objs (sch srv') ! k) = \<lparr>sr_s = suites ! k, sr_n = n\<rparr> \<and>
       (\<exists>t due. (t, k, due) \<in> set (timers (sch srv'))))"
proof -
  from server_start_state [OF assms] obtain srv s where
    started: "add_each (AddSuite cn pc) suites (Server_New n) = Ret (None, srv)"
      "Server_Start cn srv = Ret (None, \<lparr>sch = s, srv_notifier = n\<rparr>)"
    and s: "serving pc n suites s" "active s = []" by blast
  have "\<exists>t due. (t, k, due) \<in> set (timers s)" if "k < length suites" for k
  proof -
    from serving_job(3) [OF s(1) assms(1) that] s(2) have "filter (\<lambda>(_, j, _). j = k) (timers s) \<noteq> []"
      by (auto simp: tokens_def)
    then show ?thesis by (auto simp: filter_empty_conv)
  qed
  with started serving_job(1,2) [OF s(1) assms(1)] show ?thesis
    by (intro exI [of _ srv] exI [of _ "\<lparr>sch = s, srv_notifier = n\<rparr>"]) (simp add: same_job_def suite_job_def)
qed

subsection \<open>Properties\<close>

text \<open>
  Which suites the server takes. Adding a list of suites one after the other ends without an
  error exactly when every suite has a usable rule, a cron expression that parses or, only when there
  is no cron expression, a positive interval, and no two suites have the same path and none has
  the path of a suite the server holds; then the server holds the paths it had and the new ones.
\<close>

theorem AddSuite_each:
  "\<exists>e srv'. add_each (AddSuite cn pc) suites srv = Ret (e, srv') \<and>
    (e = None \<longleftrightarrow> distinct (map s_path suites) \<and>
       (\<forall>suite \<in> set suites. has_rule pc suite \<and> s_path suite \<notin> srv_names srv)) \<and>
    (e = None \<longrightarrow> srv_names srv' = srv_names srv \<union> s_path ` set suites)"
  using server_suites.add_each_result [of cn pc suites srv]
  by (simp add: server_suites.acceptable_def)

definition hourly :: "string \<Rightarrow> (nat, string) Suite" where
  "hourly path = (three_tests False)\<lparr>s_path := path, s_runEvery := 3600000000000\<rparr>"

theorem AddSuite_each_witness:
  "\<exists>srv'. add_each (AddSuite no_next no_cron) [hourly ''a'', hourly ''b''] (Server_New None) = Ret (None, srv') \<and>
     srv_names srv' = {''a'', ''b''}"
proof -
  obtain e srv' where res: "add_each (AddSuite no_next no_cron) [hourly ''a'', hourly ''b''] (Server_New None) = Ret (e, srv')"
    "e = None \<longleftrightarrow> distinct (map s_path [hourly ''a'', hourly ''b'']) \<and>
       (\<forall>suite \<in> set [hourly ''a'', hourly ''b'']. has_rule no_cron suite \<and>
          s_path suite \<notin> srv_names (Server_New None :: (nat, string, unit) Server))"
    "e = None \<longrightarrow> srv_names srv' = srv_names (Server_New None :: (nat, string, unit) Server) \<union>
       s_path ` set [hourly ''a'', hourly ''b'']"
    using AddSuite_each [of no_next no_cron "[hourly ''a'', hourly ''b'']" "Server_New None"] by blast
  have empty: "srv_names (Server_New None :: (nat, string, unit) Server) = {}"
    by (simp add: srv_names_def Server_New_def sched_New_def job_names_def)
  then have "e = None" using res(2) by (simp add: hourly_def has_rule_def three_tests_def)
  with res(1,3) empty show ?thesis by (simp add: hourly_def)
qed

text \<open>
  A server built from suites with usable rules and distinct paths starts without a panic, and
  once started every suite has its own job, with the suite and the notifier of the server, waiting
  on a pending timer.
\<close>

theorem Server_Start_schedules:
  assumes "distinct (map s_path suites)" and "\<forall>suite \<in> set suites. has_rule pc suite"
  shows "\<exists>srv srv'. add_each (AddSuite cn pc) suites (Server_New n) = Ret (None, srv) \<and>
    Server_Start cn srv = Ret (None, srv') \<and>
    (\<forall>k < length suites. map_of (jobs (sch srv')) (s_path (suites ! k)) = Some k \<and>
       j_job (objs (sch srv') ! k) = \<lparr>sr_s = suites ! k, sr_n = n\<rparr> \<and>
       (\<exists>t due. (t, k, due) \<in> set (timers (sch srv'))))"
  using assms by (rule server_started)

theorem Server_Start_schedules_witness:
  "\<exists>srv srv'. add_each (AddSuite no_next no_cron) [hourly ''a'', hourly ''b''] (Server_New None) = Ret (None, srv) \<and>
    Server_Start no_next srv = Ret (None, srv') \<and> (\<exists>t due. (t, 1, due) \<in> set (timers (sch srv')))"
proof -
  have "distinct (map s_path [hourly ''a'', hourly ''b''])"
    and "\<forall>suite \<in> set [hourly ''a'', hourly ''b'']. has_rule no_cron suite"
    by (simp_all add: hourly_def has_rule_def three_tests_def)
  from Server_Start_schedules [OF this, of no_next None] show ?thesis by fastforce
qed

end
