(* ===== verification/Commands.thy ===== *)
theory Commands
  imports Server "HOL-Library.Word"
begin

text \<open>
  The commands of the program (\<open>cmd/aragorn/exec.go\<close>, \<open>list.go\<close>, \<open>watch.go\<close>, \<open>run.go\<close>,
  \<open>init.go\<close>): which suite files they load, with which options, and what they do with the suites.

  The surroundings add to those of the configuration: \<open>os.Stat\<close> as the mode of a file or an error,
  \<open>filepath.Walk\<close> as the calls it makes of its function for a directory (each a path with an
  optional error), and adding a path to the \<open>fsnotify\<close> watcher. A command returns an error or nil;
  \<open>exec -wait\<close> never returns, which is a value of its own.
\<close>

datatype file_mode = Is_Dir | Is_Regular | Is_Other

datatype cmd_error =
    Bad_Configuration config_error
  | Cannot_Stat string
  | Cannot_Walk string string
  | Bad_Suite_File string config_error
  | errSomethingWentWrong
  | Cannot_Watch string string
  | Server_Refused server_error
  | Unknown_Suite_Type string string
  | Cannot_Marshal_Example string
  | Init_File_Error string

datatype cmd_end = Returned "cmd_error option" | Waits_Forever

record ('c, 'w, 'e) cmd_env =
  ce_config :: "('c, 'w, 'e) config_env"
  ce_runtime :: "'w runtime"
  ce_stat :: "string \<Rightarrow> string + file_mode"
  ce_walk :: "string \<Rightarrow> (string \<times> string option) list"
  ce_add :: "string \<Rightarrow> string option"

definition testSuiteJSONSuffix :: string where
  "testSuiteJSONSuffix = ''.suite.json''"

subsection \<open>Suite files\<close>

text \<open>The function handed to \<open>filepath.Walk\<close>, over the calls the walk makes.\<close>

fun walk_paths :: "(string \<times> string option) list \<Rightarrow> string + string list" where
  "walk_paths [] = Inr []"
| "walk_paths ((path, Some e) # rest) = Inl e"
| "walk_paths ((path, None) # rest) =
     (case walk_paths rest of
        Inl e \<Rightarrow> Inl e
      | Inr ps \<Rightarrow> Inr (if has_suffix path testSuiteJSONSuffix then path # ps else ps))"

fun arg_paths :: "('c, 'w, 'e) cmd_env \<Rightarrow> string list \<Rightarrow> cmd_error + string list" where
  "arg_paths env [] = Inr []"
| "arg_paths env (arg # args) =
     (case ce_stat env arg of
        Inl e \<Rightarrow> Inl (Cannot_Stat e)
      | Inr mode \<Rightarrow>
          (case (case mode of
                   Is_Dir \<Rightarrow>
                     (case walk_paths (ce_walk env arg) of
                        Inl e \<Rightarrow> Inl (Cannot_Walk arg e)
                      | Inr ps \<Rightarrow> Inr ps)
                 | Is_Regular \<Rightarrow> Inr [arg]
                 | Is_Other \<Rightarrow> Inr []) of
             Inl e \<Rightarrow> Inl e
           | Inr ps \<Rightarrow>
               (case arg_paths env args of Inl e \<Rightarrow> Inl e | Inr qs \<Rightarrow> Inr (ps @ qs))))"

fun load_suites ::
  "('c, 'w, 'e) cmd_env \<Rightarrow> SuiteOption list \<Rightarrow> string list \<Rightarrow> (cmd_error + ('w, 'e) Suite list) run" where
  "load_suites env opts [] = Ret (Inr [])"
| "load_suites env opts (path # paths) =
     bind_run (NewSuiteFromFile (ce_config env) path opts) (\<lambda>res.
       case res of
         Inl e \<Rightarrow> Ret (Inl (Bad_Suite_File path e))
       | Inr s \<Rightarrow> map_run (\<lambda>res'. case res' of Inl e \<Rightarrow> Inl e | Inr ss \<Rightarrow> Inr (s # ss))
                    (load_suites env opts paths))"

definition getSuitesFromArgs ::
  "('c, 'w, 'e) cmd_env \<Rightarrow> string list \<Rightarrow> SuiteOption list \<Rightarrow> (cmd_error + ('w, 'e) Suite list) run" where
  "getSuitesFromArgs env args opts =
     (case arg_paths env (if args = [] then [''.''] else args) of
        Inl e \<Rightarrow> Ret (Inl e)
      | Inr paths \<Rightarrow> load_suites env opts paths)"

subsection \<open>exec\<close>

record execCommand =
  ex_config :: string
  ex_failfast :: bool
  ex_wait :: bool
  ex_filter :: string
  ex_timeout :: int

text \<open>The loop of \<open>exec\<close>; \<open>err\<close> says that the error is set already.\<close>

fun exec_loop ::
  "'w runtime \<Rightarrow> bool \<Rightarrow> (('w, 'e) report, 'w) notifier option \<Rightarrow> bool \<Rightarrow> ('w, 'e) Suite list \<Rightarrow> 'w
    \<Rightarrow> (bool \<times> 'w) run" where
  "exec_loop rt failfast n err [] w = Ret (err, w)"
| "exec_loop rt failfast n err (s # ss) w =
     bind_run (Suite_Run rt s \<lparr>ctx_md = None\<rparr> w) (\<lambda>(r, w1).
       let w2 = (case n of None \<Rightarrow> w1 | Some f \<Rightarrow> f r w1) in
       if \<not> err \<and> 0 < NbFailed r then
         (if failfast then Ret (True, w2) else exec_loop rt failfast n True ss w2)
       else exec_loop rt failfast n err ss w2)"

definition exec_suites ::
  "'w runtime \<Rightarrow> bool \<Rightarrow> ('w, 'e) Suite list \<Rightarrow> (('w, 'e) report, 'w) notifier option \<Rightarrow> 'w
    \<Rightarrow> (cmd_error option \<times> 'w) run" where
  "exec_suites rt failfast suites n w =
     map_run (\<lambda>(err, w1). (if err then Some errSomethingWentWrong else None, w1))
       (exec_loop rt failfast n False suites w)"

definition exec_options :: "execCommand \<Rightarrow> SuiteOption list" where
  "exec_options cmd = [FailFast (ex_failfast cmd), Filter (ex_filter cmd)] @
     (if 0 < ex_timeout cmd then [Timeout (ex_timeout cmd)] else [])"

definition exec_load ::
  "('c, 'w, 'e) cmd_env \<Rightarrow> execCommand \<Rightarrow> string list
    \<Rightarrow> (cmd_error + ('w, 'e) Suite list \<times> (('w, 'e) report, 'w) notifier option) run" where
  "exec_load env cmd args =
     (if ex_config cmd \<noteq> [] then
        (case NewConfigFromFile (ce_config env) (ex_config cmd) of
           Inl e \<Rightarrow> Ret (Inl (Bad_Configuration e))
         | Inr cfg \<Rightarrow>
             bind_run (GenSuites (ce_config env) cfg (exec_options cmd)) (\<lambda>(res, cfg1).
               case res of
                 Inl e \<Rightarrow> Ret (Inl (Bad_Configuration e))
               | Inr ss \<Rightarrow> map_run (\<lambda>n. Inr (ss, n)) (GenNotifier (ce_config env) cfg1)))
      else map_run (\<lambda>res. case res of Inl e \<Rightarrow> Inl e | Inr ss \<Rightarrow> Inr (ss, None))
             (getSuitesFromArgs env args (exec_options cmd)))"

definition exec_Run ::
  "('c, 'w, 'e) cmd_env \<Rightarrow> execCommand \<Rightarrow> string list \<Rightarrow> 'w \<Rightarrow> (cmd_end \<times> 'w) run" where
  "exec_Run env cmd args w =
     bind_run (exec_load env cmd args) (\<lambda>res.
       case res of
         Inl e \<Rightarrow> Ret (Returned (Some e), w)
       | Inr (suites, n) \<Rightarrow>
           map_run (\<lambda>(err, w1). (if ex_wait cmd then Waits_Forever else Returned err, w1))
             (exec_suites (ce_runtime env) (ex_failfast cmd) suites n w))"

subsection \<open>list\<close>

text \<open>The rows of the table, its header first.\<close>

definition list_Run ::
  "('c, 'w, 'e) cmd_env \<Rightarrow> string \<Rightarrow> string list \<Rightarrow> (cmd_error + string list list) run" where
  "list_Run env flt args =
     map_run (\<lambda>res. case res of
         Inl e \<Rightarrow> Inl e
       | Inr suites \<Rightarrow>
           Inr ([''Path'', ''Suite'', ''Type'', ''Test'', ''Description''] #
             concat (map (\<lambda>s. map (\<lambda>t. [s_path s, s_name s, s_typ s, tName t, tDescription t]) (s_tests s))
               suites)))
       (getSuitesFromArgs env args [Filter flt])"

subsection \<open>watch\<close>

text \<open>The operations of an event are the bits of \<open>fsnotify.Op\<close>: \<open>Create\<close> is 1, \<open>Write\<close> is 2.\<close>

unbundle bit_operations_syntax

record fs_event =
  ev_Name :: string
  ev_Op :: "32 word"

definition isValidEvent :: "32 word \<Rightarrow> bool" where
  "isValidEvent op \<longleftrightarrow> (op AND 1) = 1 \<or> (op AND 2) = 2"

text \<open>A suite that cannot be loaded is a line on the standard error, and its run has no notifier.\<close>

definition runSuiteFromFile ::
  "('c, 'w, 'e) cmd_env \<Rightarrow> bool \<Rightarrow> string \<Rightarrow> 'w \<Rightarrow> ((string \<times> config_error) list \<times> 'w) run" where
  "runSuiteFromFile env failfast path w =
     bind_run (NewSuiteFromFile (ce_config env) path [FailFast failfast]) (\<lambda>res.
       case res of
         Inl e \<Rightarrow> Ret ([(path, e)], w)
       | Inr s \<Rightarrow> map_run (\<lambda>(r, w1). ([], w1)) (Suite_Run (ce_runtime env) s \<lparr>ctx_md = None\<rparr> w))"

text \<open>The loop over the events until the channel is closed.\<close>

fun fsWatchEventLoop ::
  "('c, 'w, 'e) cmd_env \<Rightarrow> bool \<Rightarrow> (string, bool) gomap \<Rightarrow> fs_event list \<Rightarrow> 'w
    \<Rightarrow> ((string \<times> config_error) list \<times> 'w) run" where
  "fsWatchEventLoop env failfast argFiles [] w = Ret ([], w)"
| "fsWatchEventLoop env failfast argFiles (e # es) w =
     (if isValidEvent (ev_Op e) \<and>
         (has_suffix (ev_Name e) testSuiteJSONSuffix \<or> map_of argFiles (ev_Name e) = Some True)
      then
        bind_run (runSuiteFromFile env failfast (ev_Name e) w) (\<lambda>(errs, w1).
          map_run (\<lambda>(errs', w2). (errs @ errs', w2)) (fsWatchEventLoop env failfast argFiles es w1))
      else fsWatchEventLoop env failfast argFiles es w)"

fun watch_files :: "('c, 'w, 'e) cmd_env \<Rightarrow> (string, bool) gomap \<Rightarrow> string list \<Rightarrow> cmd_error + (string, bool) gomap" where
  "watch_files env files [] = Inr files"
| "watch_files env files (arg # args) =
     (let name = clean_path arg in
      case ce_add env name of
        Some e \<Rightarrow> Inl (Cannot_Watch arg e)
      | None \<Rightarrow>
          (case ce_stat env name of
             Inl e \<Rightarrow> Inl (Cannot_Stat e)
           | Inr mode \<Rightarrow>
               watch_files env (if mode = Is_Regular then AList.update name True files else files) args))"

text \<open>\<open>watch\<close>, for the events that arrive before one of the two channels is closed.\<close>

definition watch_Run ::
  "('c, 'w, 'e) cmd_env \<Rightarrow> bool \<Rightarrow> string list \<Rightarrow> fs_event list \<Rightarrow> 'w
    \<Rightarrow> (cmd_error option \<times> (string \<times> config_error) list \<times> 'w) run" where
  "watch_Run env failfast args events w =
     (case watch_files env [] (if args = [] then [''.''] else args) of
        Inl e \<Rightarrow> Ret (Some e, [], w)
      | Inr files \<Rightarrow>
          map_run (\<lambda>(errs, w1). (None, errs, w1)) (fsWatchEventLoop env failfast files events w))"

subsection \<open>run\<close>

text \<open>\<open>run\<close> up to the started server, and what it does when a signal arrives.\<close>

definition run_load ::
  "('c, 'w, 'e) cmd_env \<Rightarrow> string
    \<Rightarrow> (cmd_error + ('w, 'e) Suite list \<times> (('w, 'e) report, 'w) notifier option) run" where
  "run_load env config =
     (case NewConfigFromFile (ce_config env) config of
        Inl e \<Rightarrow> Ret (Inl (Bad_Configuration e))
      | Inr cfg \<Rightarrow>
          bind_run (GenSuites (ce_config env) cfg []) (\<lambda>(res, cfg1).
            case res of
              Inl e \<Rightarrow> Ret (Inl (Bad_Configuration e))
            | Inr ss \<Rightarrow> map_run (\<lambda>n. Inr (ss, n)) (GenNotifier (ce_config env) cfg1)))"

definition run_start ::
  "('x \<Rightarrow> int \<Rightarrow> int) \<Rightarrow> (string \<Rightarrow> 'x option) \<Rightarrow> ('c, 'w, 'e) cmd_env \<Rightarrow> string
    \<Rightarrow> (cmd_error + ('w, 'e, 'x) Server) run" where
  "run_start cn pc env config =
     and_then (run_load env config) (\<lambda>(suites, n).
       bind_run (add_each (AddSuite cn pc) suites (Server_New n)) (\<lambda>(e, srv).
         case e of
           Some e' \<Rightarrow> Ret (Inl (Server_Refused e'))
         | None \<Rightarrow>
             bind_run (Server_Start cn srv) (\<lambda>(e, srv1).
               Ret (case e of Some e' \<Rightarrow> Inl (Server_Refused e') | None \<Rightarrow> Inr srv1))))"

definition run_shutdown :: "('w, 'e, 'x) Server \<Rightarrow> cmd_error option \<times> ('w, 'e, 'x) Server" where
  "run_shutdown srv = (None, snd (Server_Stop srv))"

subsection \<open>init\<close>

text \<open>
  What \<open>init\<close> needs besides the registry: the encoded example of a plugin's configuration (\<open>None\<close>
  when it has none), the results of \<open>os.Mkdir\<close>, \<open>os.Getwd\<close> and \<open>os.Create\<close>, \<open>strings.Title\<close>, and
  the indented encoding of a suite configuration.
\<close>

record 'c init_env =
  in_example :: "'c \<Rightarrow> (string + string) option"
  in_mkdir :: "string option"
  in_getwd :: "string + string"
  in_create :: "string \<Rightarrow> string option"
  in_title :: "string \<Rightarrow> string"
  in_encode :: "SuiteConfig \<Rightarrow> string + string"

definition availableTestSuites :: "('c, 'i) registry \<Rightarrow> string \<Rightarrow> string" where
  "availableTestSuites reg sep = join_with sep (sort (map reg_ID (ForType reg TestSuitePlugin)))"

text \<open>The result: the error, and the file written with its content.\<close>

definition init_Run ::
  "'c init_env \<Rightarrow> ('c, 'i) registry \<Rightarrow> string list \<Rightarrow> cmd_error option \<times> (string \<times> string) option" where
  "init_Run env reg args =
     (let typ = (if args \<noteq> [] \<and> hd args \<noteq> [] then hd args else ''HTTP'') in
      case Get reg TestSuitePlugin typ of
        None \<Rightarrow> (Some (Unknown_Suite_Type typ (availableTestSuites reg '', '')), None)
      | Some r \<Rightarrow>
          (case (case reg_Config r of None \<Rightarrow> None | Some c \<Rightarrow> in_example env c) of
             Some (Inl e) \<Rightarrow> (Some (Cannot_Marshal_Example e), None)
           | ex \<Rightarrow>
               (case in_mkdir env of
                  Some e \<Rightarrow> (Some (Init_File_Error e), None)
                | None \<Rightarrow>
                    (case in_getwd env of
                       Inl e \<Rightarrow> (Some (Init_File_Error e), None)
                     | Inr dir \<Rightarrow>
                         let pkg = path_base dir;
                             path = path_join [''.aragorn'', pkg @ testSuiteJSONSuffix] in
                         (case in_create env path of
                            Some e \<Rightarrow> (Some (Init_File_Error e), None)
                          | None \<Rightarrow>
                              (case in_encode env
                                  \<lparr>sc_Path = [], sc_Name = in_title env pkg, sc_RunEvery = 0,
                                   sc_RunCron = [], sc_RetryCount = 0, sc_RetryWait = 0, sc_Timeout = 0,
                                   sc_FailFast = False, sc_Type = typ,
                                   sc_Suite = (case ex of Some (Inr b) \<Rightarrow> Some b | _ \<Rightarrow> None),
                                   sc_baseSuite = None, sc_filter = []\<rparr> of
                                 Inl e \<Rightarrow> (Some (Init_File_Error e), None)
                               | Inr content \<Rightarrow> (None, Some (path, content))))))))"


subsection \<open>Which files are loaded\<close>

definition arg_files :: "('c, 'w, 'e) cmd_env \<Rightarrow> string \<Rightarrow> string list" where
  "arg_files env arg =
     (case ce_stat env arg of
        Inr Is_Dir \<Rightarrow> filter (\<lambda>p. has_suffix p testSuiteJSONSuffix) (map fst (ce_walk env arg))
      | Inr Is_Regular \<Rightarrow> [arg]
      | _ \<Rightarrow> [])"

lemma walk_paths_Inr:
  "walk_paths vs = Inr ps \<Longrightarrow> ps = filter (\<lambda>p. has_suffix p testSuiteJSONSuffix) (map fst vs)"
  by (induction vs arbitrary: ps rule: walk_paths.induct) (auto split: sum.splits if_splits)

lemma arg_paths_Inr: "arg_paths env args = Inr ps \<Longrightarrow> ps = concat (map (arg_files env) args)"
  by (induction args arbitrary: ps)
    (auto simp: arg_files_def dest!: walk_paths_Inr split: sum.splits file_mode.splits)

lemma load_suites_Inr:
  "load_suites env opts paths = Ret (Inr ss) \<Longrightarrow>
    list_all2 (\<lambda>p s. NewSuiteFromFile (ce_config env) p opts = Ret (Inr s)) paths ss"
proof (induction paths arbitrary: ss)
  case (Cons p paths)
  then obtain s res where "NewSuiteFromFile (ce_config env) p opts = Ret (Inr s)"
    "load_suites env opts paths = Ret res" "(case res of Inl e \<Rightarrow> Inl e | Inr ss \<Rightarrow> Inr (s # ss)) = Inr ss"
    by (fastforce simp: bind_run_Ret_iff map_run_Ret_iff case_Ret_iff)
  with Cons.IH show ?case by (cases res) auto
qed simp

lemma NewSuiteFromFile_Inr:
  assumes "NewSuiteFromFile env path opts = Ret (Inr s)"
  obtains doc cfg where "open_file env path = Inr doc" "decode_suite env doc default_SuiteConfig = Inr cfg"
    "s_path s = path" "s_typ s = sc_Type (applyOptions opts cfg)"
    "s_failfast s = sc_FailFast (applyOptions opts cfg)"
proof -
  from assms obtain doc where doc: "open_file env path = Inr doc"
    "NewSuiteFromReader env (doc, Some path) opts = Ret (Inr s)"
    by (auto simp: NewSuiteFromFile_def split: sum.splits)
  then obtain cfg where cfg: "decode_suite env doc default_SuiteConfig = Inr cfg"
    by (auto simp: NewSuiteFromReader_def split: sum.splits)
  from doc(2) cfg show ?thesis
    by (rule NewSuiteFromReader_Inr) (rule that [OF doc(1) cfg]; rule NewSuite_Inr)
qed

lemma exec_options_failfast:
  "sc_FailFast (applyOptions (exec_options cmd) cfg) = ex_failfast cmd"
  by (simp add: applyOptions_def exec_options_def FailFast_def Filter_def Timeout_def)

subsection \<open>Running the suites of exec\<close>

text \<open>The reference: all suites in order, each report handed to the notifier.\<close>

fun run_all ::
  "'w runtime \<Rightarrow> (('w, 'e) report, 'w) notifier option \<Rightarrow> ('w, 'e) Suite list \<Rightarrow> 'w
    \<Rightarrow> (('w, 'e) report list \<times> 'w) run" where
  "run_all rt n [] w = Ret ([], w)"
| "run_all rt n (s # ss) w =
     bind_run (Suite_Run rt s \<lparr>ctx_md = None\<rparr> w) (\<lambda>(r, w1).
       map_run (\<lambda>(rs, w2). (r # rs, w2)) (run_all rt n ss (notify n r w1)))"

lemma exec_loop_err: "exec_loop rt ff n True ss w = map_run (\<lambda>(rs, w'). (True, w')) (run_all rt n ss w)"
proof (induction ss arbitrary: w)
  case (Cons s ss)
  show ?case
  proof (cases "Suite_Run rt s \<lparr>ctx_md = None\<rparr> w")
    case (Ret rw)
    obtain r w1 where "rw = (r, w1)" by fastforce
    with Ret Cons show ?thesis
      by (cases "run_all rt n ss (notify n r w1)") (auto simp: notify_def Let_def)
  qed simp
qed simp

definition exec_outcome ::
  "bool \<Rightarrow> ('w, 'e) Suite list \<Rightarrow> nat \<Rightarrow> ('w, 'e) report list \<Rightarrow> bool \<Rightarrow> bool" where
  "exec_outcome failfast ss k rs err \<longleftrightarrow>
     k \<le> length ss \<and> length rs = k \<and> (err \<longleftrightarrow> (\<exists>r \<in> set rs. 0 < NbFailed r)) \<and>
     (k < length ss \<longrightarrow> failfast \<and> rs \<noteq> [] \<and> 0 < NbFailed (last rs)) \<and>
     (failfast \<longrightarrow> (\<forall>r \<in> set (butlast rs). NbFailed r = 0))"

lemma run_all_length: "run_all rt n ss w = Ret (rs, w') \<Longrightarrow> length rs = length ss"
  by (induction ss arbitrary: w rs) (auto simp: bind_run_Ret_iff map_run_Ret_iff)

lemma exec_loop_outcome:
  assumes "exec_loop rt ff n False ss w = Ret (err, w')"
  shows "\<exists>k rs. run_all rt n (take k ss) w = Ret (rs, w') \<and> exec_outcome ff ss k rs err"
  using assms
proof (induction ss arbitrary: w)
  case Nil
  then show ?case by (auto simp: exec_outcome_def)
next
  case (Cons s ss)
  then obtain r w1 where run: "Suite_Run rt s \<lparr>ctx_md = None\<rparr> w = Ret (r, w1)"
    by (auto simp: bind_run_Ret_iff)
  let ?w2 = "notify n r w1"
  note loop = Cons.prems [simplified, unfolded run, simplified, folded notify_def, unfolded Let_def]
  show ?case
  proof (cases "0 < NbFailed r")
    case True
    show ?thesis
    proof (cases ff)
      case stop: True
      with loop True have "err \<and> w' = ?w2" by simp
      with run True stop show ?thesis
        by (intro exI [of _ 1] exI [of _ "[r]"]) (simp add: exec_outcome_def)
    next
      case False
      with loop True have "exec_loop rt ff n True ss ?w2 = Ret (err, w')" by simp
      then obtain rs where rs: "run_all rt n ss ?w2 = Ret (rs, w')" "err"
        by (auto simp: exec_loop_err map_run_Ret_iff)
      with run True False run_all_length [OF rs(1)] show ?thesis
        by (intro exI [of _ "Suc (length ss)"] exI [of _ "r # rs"]) (simp add: exec_outcome_def)
    qed
  next
    case False
    with loop have "exec_loop rt ff n False ss ?w2 = Ret (err, w')" by simp
    from Cons.IH [OF this] obtain k rs where k: "run_all rt n (take k ss) ?w2 = Ret (rs, w')"
      "exec_outcome ff ss k rs err" by blast
    with run False show ?thesis
      by (intro exI [of _ "Suc k"] exI [of _ "r # rs"]) (auto simp: exec_outcome_def)
  qed
qed

subsection \<open>Events\<close>

definition watched :: "(string, bool) gomap \<Rightarrow> fs_event \<Rightarrow> bool" where
  "watched files e \<longleftrightarrow> (bit (ev_Op e) 0 \<or> bit (ev_Op e) 1) \<and>
     (has_suffix (ev_Name e) testSuiteJSONSuffix \<or> map_of files (ev_Name e) = Some True)"

lemma and_mask_bit: "(op AND push_bit n 1 = push_bit n 1) \<longleftrightarrow> bit op n" if "n < LENGTH('a)" for op :: "'a :: len word"
  using that by (auto simp: bit_eq_iff [where 'a = "'a word"] bit_simps)

lemma isValidEvent_bits: "isValidEvent op \<longleftrightarrow> bit op 0 \<or> bit op 1"
  using and_mask_bit [of 0 op] and_mask_bit [of 1 op] by (simp add: isValidEvent_def push_bit_eq_mult)

fun run_files ::
  "('c, 'w, 'e) cmd_env \<Rightarrow> bool \<Rightarrow> string list \<Rightarrow> 'w \<Rightarrow> ((string \<times> config_error) list \<times> 'w) run" where
  "run_files env failfast [] w = Ret ([], w)"
| "run_files env failfast (f # fs) w =
     bind_run (runSuiteFromFile env failfast f w) (\<lambda>(errs, w1).
       map_run (\<lambda>(errs', w2). (errs @ errs', w2)) (run_files env failfast fs w1))"

lemma fsWatchEventLoop_files:
  "fsWatchEventLoop env ff files es w = run_files env ff (map ev_Name (filter (watched files) es)) w"
proof (induction es arbitrary: w)
  case (Cons e es)
  have w: "isValidEvent (ev_Op e) \<and>
      (has_suffix (ev_Name e) testSuiteJSONSuffix \<or> map_of files (ev_Name e) = Some True) \<longleftrightarrow> watched files e"
    by (simp add: watched_def isValidEvent_bits)
  show ?case
    by (simp only: fsWatchEventLoop.simps w Cons.IH) simp
qed simp


subsection \<open>Properties\<close>

definition demo_cmd_env :: "(unit, nat, string) cmd_env" where
  "demo_cmd_env = \<lparr>ce_config = demo_env, ce_runtime = still_clock,
     ce_stat = (\<lambda>p. if p = ''/d/s.json'' then Inr Is_Regular else Inr Is_Other),
     ce_walk = (\<lambda>_. []), ce_add = (\<lambda>_. None)\<rparr>"

definition demo_exec :: execCommand where
  "demo_exec = \<lparr>ex_config = [], ex_failfast = False, ex_wait = False, ex_filter = [], ex_timeout = 0\<rparr>"

lemmas demo_cmd_defs =
  demo_cmd_env_def demo_exec_def exec_load_def exec_options_def getSuitesFromArgs_def NewSuiteFromFile_def



text \<open>
  C24: Executing suites. The suites of \<open>exec\<close> are run in order, each report handed to the notifier before
  the next suite starts, all of them unless fail-fast stops after a suite with a failed test; and the
  command fails exactly when one of the reports counts a failed test.
\<close>

theorem exec_suites_outcome:
  assumes "exec_suites rt failfast ss n w = Ret (e, w')"
  shows "\<exists>k rs. run_all rt n (take k ss) w = Ret (rs, w') \<and> k \<le> length ss \<and> length rs = k \<and>
    e = (if \<exists>r \<in> set rs. 0 < NbFailed r then Some errSomethingWentWrong else None) \<and>
    (k < length ss \<longrightarrow> failfast \<and> rs \<noteq> [] \<and> 0 < NbFailed (last rs)) \<and>
    (failfast \<longrightarrow> (\<forall>r \<in> set (butlast rs). NbFailed r = 0))"
proof -
  from assms obtain err where loop: "exec_loop rt failfast n False ss w = Ret (err, w')"
    and e: "e = (if err then Some errSomethingWentWrong else None)"
    by (auto simp: exec_suites_def map_run_Ret_iff)
  from exec_loop_outcome [OF loop] obtain k rs where
    "run_all rt n (take k ss) w = Ret (rs, w')" "exec_outcome failfast ss k rs err" by blast
  with e show ?thesis by (auto simp: exec_outcome_def)
qed

theorem exec_suites_outcome_witness:
  "\<exists>w' rs. exec_suites still_clock True [three_tests False, three_tests False] None 0
      = Ret (Some errSomethingWentWrong, w') \<and> run_all still_clock None [three_tests False] 0 = Ret (rs, w')"
proof -
  obtain e w' where run: "exec_suites still_clock True [three_tests False, three_tests False] None 0 = Ret (e, w')"
    and e: "e = Some errSomethingWentWrong"
    by (simp add: exec_suites_def example_run_defs)
  from exec_suites_outcome [OF run] obtain k rs where k:
    "run_all still_clock None (take k [three_tests False, three_tests False]) 0 = Ret (rs, w')"
    "k \<le> length [three_tests False, three_tests False]" "length rs = k"
    "e = (if \<exists>r \<in> set rs. 0 < NbFailed r then Some errSomethingWentWrong else None)"
    "True \<longrightarrow> (\<forall>r \<in> set (butlast rs). NbFailed r = 0)" by blast
  from k(3,4) e have "k \<noteq> 0" by (auto split: if_splits)
  moreover have "k \<noteq> 2"
  proof
    assume "k = 2"
    obtain r w1 where r: "Suite_Run still_clock (three_tests False) \<lparr>ctx_md = None\<rparr> 0 = Ret (r, w1)" "NbFailed r = 1"
      by (simp add: example_run_defs)
    with k(1) \<open>k = 2\<close> obtain r' where "rs = [r, r']" by (auto simp: bind_run_Ret_iff map_run_Ret_iff)
    with k(5) r(2) show False by simp
  qed
  ultimately have "k = 1" using k(2) by (simp add: less_Suc_eq_le)
  with k(1) run e show ?thesis by auto
qed

text \<open>
  The command line turns fail-fast off. Without its flag \<open>exec\<close> runs suite files with fail-fast off,
  even those that ask for it themselves, and with the flag on for all of them: the option of the command
  replaces the setting of the file.
\<close>

theorem exec_replaces_failfast:
  assumes "exec_load env cmd args = Ret (Inr (ss, n))" and "ex_config cmd = []"
  shows "n = None \<and> (\<forall>s \<in> set ss. s_failfast s = ex_failfast cmd)"
proof -
  from assms obtain res where res: "getSuitesFromArgs env args (exec_options cmd) = Ret res"
    "(case res of Inl e \<Rightarrow> Inl e | Inr ss \<Rightarrow> Inr (ss, None)) = Inr (ss, n)"
    by (auto simp: exec_load_def map_run_Ret_iff)
  then have get: "getSuitesFromArgs env args (exec_options cmd) = Ret (Inr ss)" and "n = None"
    by (cases res; simp)+
  from get obtain ps where "load_suites env (exec_options cmd) ps = Ret (Inr ss)"
    by (auto simp: getSuitesFromArgs_def split: sum.splits)
  from load_suites_Inr [OF this] have "\<forall>s \<in> set ss. \<exists>p. NewSuiteFromFile (ce_config env) p (exec_options cmd) = Ret (Inr s)"
    by (induction rule: list_all2_induct) auto
  then have "s_failfast s = ex_failfast cmd" if s: "s \<in> set ss" for s
  proof -
    from s \<open>\<forall>s \<in> set ss. _\<close> obtain p where "NewSuiteFromFile (ce_config env) p (exec_options cmd) = Ret (Inr s)"
      by blast
    then show ?thesis by (rule NewSuiteFromFile_Inr) (simp only: exec_options_failfast)
  qed
  with \<open>n = None\<close> show ?thesis by blast
qed

theorem exec_replaces_failfast_witness:
  "\<exists>s n. exec_load demo_cmd_env demo_exec [''/d/s.json''] = Ret (Inr ([s], n)) \<and> \<not> s_failfast s \<and>
     (\<exists>cfg. decode_suite (ce_config demo_cmd_env) ''{}'' default_SuiteConfig = Inr cfg \<and> sc_FailFast cfg)"
proof -
  obtain s n where s: "exec_load demo_cmd_env demo_exec [''/d/s.json''] = Ret (Inr ([s], n))"
    by (simp add: demo_cmd_defs demo_defs)
  from exec_replaces_failfast [OF this] s show ?thesis by (simp add: demo_exec_def demo_cmd_env_def demo_env_def)
qed

text \<open>
  C26: Watching. \<open>watch\<close> runs a suite exactly for the events that have the create or the write bit, which
  are the two lowest bits of their operations, and name a suite file or a file given as an operand;
  it does so once for each event, in order, and goes on after files that cannot be loaded.
\<close>

theorem watch_runs_events:
  "fsWatchEventLoop env failfast files events w =
     run_files env failfast (map ev_Name (filter (watched files) events)) w"
  by (rule fsWatchEventLoop_files)

definition demo_run_env :: "(unit, nat, string) cmd_env" where
  "demo_run_env = demo_cmd_env\<lparr>ce_config := demo_env\<lparr>open_file := (\<lambda>_. Inr ''{}''),
     decode_config := (\<lambda>_. Inr ([], [Some (demo_entry\<lparr>sc_RunEvery := 60000000000\<rparr>)]))\<rparr>\<rparr>"

lemma demo_run_load:
  obtains s where "run_load demo_run_env ''/d/config.json'' = Ret (Inr ([s], None))" "has_rule no_cron s"
    "s_runCron s = []" "s_runEvery s = 60000000000"
proof -
  have "\<exists>s. run_load demo_run_env ''/d/config.json'' = Ret (Inr ([s], None)) \<and> has_rule no_cron s \<and>
      s_runCron s = [] \<and> s_runEvery s = 60000000000"
    by (simp add: run_load_def demo_run_env_def demo_cmd_env_def NewConfigFromFile_def NewConfigFromReader_def
        GenSuites_def GenNotifier_def demo_defs Let_def has_rule_def)
  with that show thesis by blast
qed

end
