(* ===== verification/Go_Net.thy ===== *)
theory Go_Net
  imports Go_Strings
begin

text \<open>
  What the program uses of \<open>net/textproto\<close> (canonical header keys), \<open>net/http\<close> (the \<open>Header\<close>
  map) and \<open>net/url\<close> (query escaping and \<open>Values.Encode\<close>).
\<close>

subsection \<open>Header keys\<close>

definition is_upper :: "char \<Rightarrow> bool" where
  "is_upper c \<longleftrightarrow> 65 \<le> (of_char c :: nat) \<and> (of_char c :: nat) \<le> 90"

definition is_lower :: "char \<Rightarrow> bool" where
  "is_lower c \<longleftrightarrow> 97 \<le> (of_char c :: nat) \<and> (of_char c :: nat) \<le> 122"

definition is_alnum :: "char \<Rightarrow> bool" where
  "is_alnum c \<longleftrightarrow> is_upper c \<or> is_lower c \<or> is_digit c"

definition up_char :: "char \<Rightarrow> char" where
  "up_char c = (if is_lower c then char_of ((of_char c :: nat) - 32) else c)"

definition low_char :: "char \<Rightarrow> char" where
  "low_char c = (if is_upper c then char_of ((of_char c :: nat) + 32) else c)"

definition is_token_char :: "char \<Rightarrow> bool" where
  "is_token_char c \<longleftrightarrow> is_alnum c \<or> c \<in> set ''!#$%&*+-.^_`|~'' \<or> c = char_of (39 :: nat)"

fun canonical_from :: "bool \<Rightarrow> string \<Rightarrow> string" where
  "canonical_from up [] = []"
| "canonical_from up (c # s) =
     (let c' = (if up then up_char c else low_char c) in c' # canonical_from (c' = CHR ''-'') s)"

definition canonical_key :: "string \<Rightarrow> string" where
  "canonical_key s = (if list_all is_token_char s then canonical_from True s else s)"

text \<open>What it takes to compute the canonical form of a concrete key.\<close>

lemmas canonical_eval =
  canonical_key_def is_token_char_def is_alnum_def is_upper_def is_lower_def is_digit_def
  up_char_def low_char_def char_of_def Let_def bit_Suc_0_iff

subsection \<open>http.Header\<close>

type_synonym http_header = "(string, string list) gomap"

definition header_Set :: "string \<Rightarrow> string \<Rightarrow> http_header \<Rightarrow> http_header" where
  "header_Set k v h = AList.update (canonical_key k) [v] h"

definition header_values :: "http_header \<Rightarrow> string \<Rightarrow> string list" where
  "header_values h k = (case map_of h (canonical_key k) of None \<Rightarrow> [] | Some vs \<Rightarrow> vs)"

text \<open>\<open>Get\<close> returns the first value of the key, and the empty string when there is none.\<close>

definition header_Get :: "http_header \<Rightarrow> string \<Rightarrow> string" where
  "header_Get h k = (case header_values h k of [] \<Rightarrow> [] | v # _ \<Rightarrow> v)"

definition header_lookup :: "http_header \<Rightarrow> string \<Rightarrow> string option" where
  "header_lookup h k = (case header_values h k of [] \<Rightarrow> None | v # _ \<Rightarrow> Some v)"

lemma header_Get_lookup:
  "header_Get h k = (case header_lookup h k of None \<Rightarrow> [] | Some v \<Rightarrow> v)"
  by (simp add: header_Get_def header_lookup_def split: list.splits)

interpretation http_header: key_value header_Set header_lookup canonical_key
  by unfold_locales
    (simp add: header_Set_def header_lookup_def header_values_def update_conv')

lemma header_Get_canonical: "canonical_key k = canonical_key k' \<Longrightarrow> header_Get h k = header_Get h k'"
  by (simp add: header_Get_def header_values_def)

text \<open>A header that is set unless the request has it, what the program does with its defaults.\<close>

lemma header_Get_default:
  "header_Get (if b \<and> header_Get h k0 = [] then header_Set k0 v h else h) k =
    (if b \<and> canonical_key k = canonical_key k0 \<and> header_Get h k = [] then v else header_Get h k)"
proof (cases "canonical_key k = canonical_key k0")
  case True
  from header_Get_canonical [OF this] True show ?thesis
    by (simp add: header_Get_lookup http_header.get_put)
next
  case False
  then show ?thesis by (simp add: header_Get_lookup http_header.get_put)
qed

subsection \<open>Query escaping\<close>

definition is_unreserved :: "char \<Rightarrow> bool" where
  "is_unreserved c \<longleftrightarrow> is_alnum c \<or> c \<in> set ''-_.~''"

definition hex_digit :: "nat \<Rightarrow> char" where
  "hex_digit n = (if n < 10 then char_of (48 + n) else char_of (55 + n))"

definition escape_char :: "char \<Rightarrow> string" where
  "escape_char c =
     (if c = CHR '' '' then ''+''
      else if is_unreserved c then [c]
      else [CHR ''%'', hex_digit (of_char c div 16), hex_digit (of_char c mod 16)])"

definition query_escape :: "string \<Rightarrow> string" where
  "query_escape s = concat (map escape_char s)"

text \<open>\<open>url.Values.Encode\<close> for one value per key: keys in byte order, pairs joined by \<open>&\<close>.\<close>

definition values_encode :: "(string, string) gomap \<Rightarrow> string" where
  "values_encode m =
     join_with ''&''
       (map (\<lambda>k. query_escape k @ ''='' @ query_escape (the (map_of m k))) (sort (map fst m)))"

text \<open>
  The decoder of the format, as the \<open>application/x-www-form-urlencoded\<close> media type describes it:
  the specification that the encoder is checked against.
\<close>

definition hex_val :: "char \<Rightarrow> nat" where
  "hex_val c = (if is_digit c then of_char c - 48 else of_char c - 55)"

fun query_unescape :: "string \<Rightarrow> string" where
  "query_unescape [] = []"
| "query_unescape (c # s) =
     (if c = CHR ''+'' then CHR '' '' # query_unescape s
      else if c = CHR ''%'' then
        (case s of
           a # b # t \<Rightarrow> char_of (16 * hex_val a + hex_val b) # query_unescape t
         | _ \<Rightarrow> [])
      else c # query_unescape s)"

definition pair_decode :: "string \<Rightarrow> string \<times> string" where
  "pair_decode p =
     (case split_on CHR ''='' p of
        [k] \<Rightarrow> (query_unescape k, [])
      | k # vs \<Rightarrow> (query_unescape k, query_unescape (join_with ''='' vs))
      | [] \<Rightarrow> ([], []))"

definition form_decode :: "string \<Rightarrow> (string \<times> string) list" where
  "form_decode s = (if s = [] then [] else map pair_decode (split_on CHR ''&'' s))"

lemma hex_digit_val: "n < 16 \<Longrightarrow> hex_val (hex_digit n) = n"
  by (auto simp: hex_val_def hex_digit_def is_digit_def)

lemma char_of_split: "char_of (16 * (of_char c div 16) + of_char c mod 16 :: nat) = c"
  by (metis char_of_char div_mult_mod_eq mult.commute)

lemma of_char_less [simp]: "(of_char c :: nat) < 256"
  by (rule nat_of_char_less_256)

lemma reserved_plus_percent: "\<not> is_unreserved (CHR ''+'')" "\<not> is_unreserved (CHR ''%'')"
  by (auto simp: is_unreserved_def is_alnum_def is_upper_def is_lower_def is_digit_def)

lemma query_unescape_hex:
  "query_unescape (CHR ''%'' # hex_digit (of_char c div 16) # hex_digit (of_char c mod 16) # s) =
     c # query_unescape s"
proof -
  have "(of_char c :: nat) div 16 < 16" and "(of_char c :: nat) mod 16 < 16"
    using of_char_less [of c] by linarith+
  then show ?thesis
    by (simp add: hex_digit_val char_of_split del: char_of_eq_iff)
qed

lemma query_unescape_escape_char: "query_unescape (escape_char c @ s) = c # query_unescape s"
proof (cases "c = CHR '' '' \<or> is_unreserved c")
  case True
  with reserved_plus_percent have "c \<noteq> CHR ''+''" and "c \<noteq> CHR ''%''" by auto
  with True show ?thesis by (auto simp: escape_char_def)
next
  case False
  then have "escape_char c @ s =
      CHR ''%'' # hex_digit (of_char c div 16) # hex_digit (of_char c mod 16) # s"
    by (simp add: escape_char_def)
  then show ?thesis by (simp only: query_unescape_hex)
qed

lemma query_unescape_escape: "query_unescape (query_escape s) = s"
proof -
  have "query_unescape (query_escape s @ t) = s @ query_unescape t" for t
    by (induction s) (simp_all add: query_escape_def query_unescape_escape_char)
  from this [of "[]"] show ?thesis by simp
qed

text \<open>An escaped string holds no byte that has a meaning in a query.\<close>

lemma hex_digit_alnum: "n < 16 \<Longrightarrow> is_alnum (hex_digit n)"
  by (auto simp: hex_digit_def is_alnum_def is_digit_def is_upper_def)

lemma query_escape_chars:
  assumes "c \<in> set (query_escape s)"
  shows "is_unreserved c \<or> c = CHR ''+'' \<or> c = CHR ''%''"
proof -
  from assms obtain d where "c \<in> set (escape_char d)"
    by (auto simp: query_escape_def)
  moreover have "(of_char d :: nat) div 16 < 16" using of_char_less [of d] by linarith
  ultimately show ?thesis
    by (auto simp: escape_char_def is_unreserved_def hex_digit_alnum split: if_splits)
qed

lemma query_escape_no_sep: "CHR ''&'' \<notin> set (query_escape s)" "CHR ''='' \<notin> set (query_escape s)"
  using query_escape_chars [of "CHR ''&''" s] query_escape_chars [of "CHR ''=''" s]
  by (auto simp: is_unreserved_def is_alnum_def is_upper_def is_lower_def is_digit_def)

lemma pair_decode_encode:
  "pair_decode (query_escape k @ ''='' @ query_escape v) = (k, v)"
  by (simp add: pair_decode_def split_on_append split_on_no_sep query_escape_no_sep
      query_unescape_escape)

lemma form_decode_encode:
  "form_decode (values_encode m) = map (\<lambda>k. (k, the (map_of m k))) (sort (map fst m))"
proof (cases "m = []")
  case True
  then show ?thesis by (simp add: form_decode_def values_encode_def)
next
  case False
  let ?ps = "map (\<lambda>k. query_escape k @ ''='' @ query_escape (the (map_of m k))) (sort (map fst m))"
  have len: "length ?ps = length m" by (simp only: length_map length_sort)
  have ne: "?ps \<noteq> []"
  proof
    assume "?ps = []"
    then have "length ?ps = 0" by (simp only: list.size)
    with len False show False by simp
  qed
  then have "join_with ''&'' ?ps \<noteq> []"
    by (rule join_with_eq_Nil [OF _ ballI]) (auto simp del: map_is_Nil_conv)
  then have "form_decode (join_with ''&'' ?ps) = map pair_decode (split_on CHR ''&'' (join_with ''&'' ?ps))"
    by (simp add: form_decode_def del: map_is_Nil_conv)
  also have "split_on CHR ''&'' (join_with ''&'' ?ps) = ?ps"
    by (rule split_join_on [OF ne]) (auto simp: query_escape_no_sep)
  also have "map pair_decode ?ps = map (\<lambda>k. (k, the (map_of m k))) (sort (map fst m))"
    by (simp only: map_map o_def pair_decode_encode)
  finally show ?thesis by (simp only: values_encode_def)
qed

subsection \<open>HTTP clients\<close>

text \<open>
  The OAuth2 client credentials of the configurations (\<open>clientcredentials.Config\<close>), and what a client
  is made from: the transport, which verifies certificates or not, and perhaps a source of tokens that
  itself uses that client.
\<close>

record oauth2_config =
  oa_ClientID :: string
  oa_ClientSecret :: string
  oa_TokenURL :: string
  oa_Scopes :: "string list"
  oa_EndpointParams :: "(string, string list) gomap"

datatype client_settings =
    Plain_Client bool
  | OAuth2_Client oauth2_config client_settings

end
