(* ===== verification/Duration.thy ===== *)
theory Duration
  imports Go_Strings
begin

text \<open>
  Durations in configuration files (\<open>pkg/util/json/duration.go\<close>): a string for
  \<open>time.ParseDuration\<close> or an integer of nanoseconds. \<open>time.ParseDuration\<close> is written out, with its
  overflow checks on wrapped 64-bit sums, up to one parameter: \<open>frac f k unit\<close> is the value of
  \<open>int64(float64(f) * (float64(unit) / scale))\<close> for \<open>scale\<close> the \<open>k\<close>-th power of ten, floating-point
  arithmetic that the program leaves to the library.
\<close>

definition wrap64 :: "int \<Rightarrow> int" where
  "wrap64 i = (i + 2 ^ 63) mod 2 ^ 64 - 2 ^ 63"

datatype duration_error = Invalid_Duration | Missing_Unit | Unknown_Unit | Bad_Integer num_error

fun lead_int :: "int \<Rightarrow> string \<Rightarrow> (int \<times> string) option" where
  "lead_int x [] = Some (x, [])"
| "lead_int x (c # s) =
     (if \<not> is_digit c then Some (x, c # s)
      else if max_int64 div 10 < x then None
      else let y = wrap64 (x * 10 + int (digit_val c)) in if y < 0 then None else lead_int y s)"

fun lead_frac :: "bool \<Rightarrow> int \<Rightarrow> nat \<Rightarrow> string \<Rightarrow> int \<times> nat \<times> string" where
  "lead_frac ovf x k [] = (x, k, [])"
| "lead_frac ovf x k (c # s) =
     (if \<not> is_digit c then (x, k, c # s)
      else if ovf \<or> max_int64 div 10 < x then lead_frac True x k s
      else let y = wrap64 (x * 10 + int (digit_val c)) in
        if y < 0 then lead_frac True x k s else lead_frac False y (Suc k) s)"

definition unit_char :: "char \<Rightarrow> bool" where
  "unit_char c \<longleftrightarrow> c \<noteq> CHR ''.'' \<and> \<not> is_digit c"

definition unit_ns :: "string \<Rightarrow> int option" where
  "unit_ns u =
     (if u = ''ns'' then Some 1
      else if u = ''us'' \<or> u = CHR 0xC2 # CHR 0xB5 # ''s'' \<or> u = CHR 0xCE # CHR 0xBC # ''s''
      then Some 1000
      else if u = ''ms'' then Some 1000000
      else if u = ''s'' then Some 1000000000
      else if u = ''m'' then Some 60000000000
      else if u = ''h'' then Some 3600000000000
      else None)"

text \<open>One number with its unit: the value in nanoseconds and what follows it.\<close>

definition duration_term ::
  "(int \<Rightarrow> nat \<Rightarrow> int \<Rightarrow> int) \<Rightarrow> string \<Rightarrow> duration_error + int \<times> string" where
  "duration_term frac s =
     (if s = [] \<or> \<not> (hd s = CHR ''.'' \<or> is_digit (hd s)) then Inl Invalid_Duration
      else case lead_int 0 s of
        None \<Rightarrow> Inl Invalid_Duration
      | Some (v, s1) \<Rightarrow>
          let pre = (length s \<noteq> length s1);
              dot = (s1 \<noteq> [] \<and> hd s1 = CHR ''.'');
              (f, k, s2) = (if dot then lead_frac False 0 0 (tl s1) else (0, 0, s1));
              post = (dot \<and> length (tl s1) \<noteq> length s2);
              u = takeWhile unit_char s2
          in if \<not> pre \<and> \<not> post then Inl Invalid_Duration
             else if u = [] then Inl Missing_Unit
             else case unit_ns u of
               None \<Rightarrow> Inl Unknown_Unit
             | Some unit \<Rightarrow>
                 if max_int64 div unit < v then Inl Invalid_Duration
                 else
                   let w = (if 0 < f then wrap64 (v * unit + frac f k unit) else v * unit)
                   in if w < 0 then Inl Invalid_Duration else Inr (w, dropWhile unit_char s2))"

lemma lead_int_length: "lead_int x s = Some (v, r) \<Longrightarrow> length r \<le> length s"
  by (induction x s rule: lead_int.induct) (auto simp: Let_def split: if_splits)

lemma lead_frac_length: "length (snd (snd (lead_frac ovf x k s))) \<le> length s"
  by (induction ovf x k s rule: lead_frac.induct) (auto simp: Let_def)

lemma takeWhile_progress: "takeWhile P s \<noteq> [] \<Longrightarrow> length (dropWhile P s) < length s"
  by (cases s) (auto simp: less_Suc_eq_le length_dropWhile_le split: if_splits)

lemma duration_term_length:
  assumes "duration_term frac s = Inr (v, r)"
  shows "length r < length s"
proof -
  from assms obtain v0 s1 where s1: "lead_int 0 s = Some (v0, s1)"
    by (auto simp: duration_term_def split: if_splits option.splits)
  let ?dot = "s1 \<noteq> [] \<and> hd s1 = CHR ''.''"
  let ?frac = "if ?dot then lead_frac False 0 0 (tl s1) else (0, 0, s1)"
  obtain f k s2 where s2: "?frac = (f, k, s2)" by (metis prod_cases3)
  have "length s2 \<le> length s1"
    using s2 lead_frac_length [of False 0 0 "tl s1"] by (auto split: if_splits)
  moreover have "takeWhile unit_char s2 \<noteq> [] \<and> r = dropWhile unit_char s2"
    using assms s1 s2 by (auto simp: duration_term_def Let_def split: if_splits option.splits)
  ultimately show ?thesis
    using lead_int_length [OF s1] takeWhile_progress [of unit_char s2] by auto
qed

text \<open>The loop over the terms, with the sum so far.\<close>

function duration_terms ::
  "(int \<Rightarrow> nat \<Rightarrow> int \<Rightarrow> int) \<Rightarrow> int \<Rightarrow> string \<Rightarrow> duration_error + int" where
  "duration_terms frac d s =
     (if s = [] then Inr d
      else case duration_term frac s of
        Inl e \<Rightarrow> Inl e
      | Inr (v, r) \<Rightarrow>
          if wrap64 (d + v) < 0 then Inl Invalid_Duration
          else duration_terms frac (wrap64 (d + v)) r)"
  by pat_completeness auto
termination
  by (relation "measure (\<lambda>(frac, d, s). length s)") (auto dest: duration_term_length)

declare duration_terms.simps [simp del]

definition ParseDuration :: "(int \<Rightarrow> nat \<Rightarrow> int \<Rightarrow> int) \<Rightarrow> string \<Rightarrow> duration_error + int" where
  "ParseDuration frac s =
     (let neg = (s \<noteq> [] \<and> hd s = CHR ''-'');
          s1 = (if s \<noteq> [] \<and> (hd s = CHR ''-'' \<or> hd s = CHR ''+'') then tl s else s)
      in if s1 = ''0'' then Inr 0
         else if s1 = [] then Inl Invalid_Duration
         else case duration_terms frac 0 s1 of
           Inl e \<Rightarrow> Inl e
         | Inr d \<Rightarrow> Inr (if neg then - d else d))"

text \<open>\<open>time.Duration.String\<close>, the text of a duration.\<close>

definition zero_pad :: "nat \<Rightarrow> string \<Rightarrow> string" where
  "zero_pad k s = replicate (k - length s) CHR ''0'' @ s"

text \<open>\<open>fmtFrac\<close>: the fraction of \<open>v\<close> over the power of ten, without trailing zeros, and the rest.\<close>

definition fmt_frac :: "nat \<Rightarrow> nat \<Rightarrow> string \<times> nat" where
  "fmt_frac v prec =
     (let ds = rev (dropWhile (\<lambda>c. c = CHR ''0'') (rev (zero_pad prec (nat_digits (v mod 10 ^ prec)))))
      in (if ds = [] then [] else ''.'' @ ds, v div 10 ^ prec))"

definition Duration_String :: "int \<Rightarrow> string" where
  "Duration_String d =
     (let u = nat \<bar>d\<bar>; sign = (if d < 0 then ''-'' else []) in
      if u = 0 then ''0s''
      else if u < 1000000000 then
        (let (prec, unit) = (if u < 1000 then (0, ''ns'')
                             else if u < 1000000 then (3, CHR 0xC2 # CHR 0xB5 # ''s'')
                             else (6, ''ms''));
             (frac, whole) = (if prec = 0 then ([], u) else fmt_frac u prec)
         in sign @ nat_digits whole @ frac @ unit)
      else
        (let (frac, secs) = fmt_frac u 9; mins = secs div 60; hours = mins div 60 in
         sign @
         (if 0 < mins then
            (if 0 < hours then nat_digits hours @ ''h'' else []) @ nat_digits (mins mod 60) @ ''m''
          else []) @
         nat_digits (secs mod 60) @ frac @ ''s''))"

text \<open>
  \<open>Duration.UnmarshalJSON\<close> on the bytes of the JSON value: what is stored in the duration, and the
  error returned. The duration is assigned on the error paths too.
\<close>

definition Duration_UnmarshalJSON ::
  "(int \<Rightarrow> nat \<Rightarrow> int \<Rightarrow> int) \<Rightarrow> string \<Rightarrow> int \<times> duration_error option" where
  "Duration_UnmarshalJSON frac b =
     (if 2 < length b \<and> hd b = CHR ''\"'' \<and> last b = CHR ''\"'' then
        (case ParseDuration frac (butlast (tl b)) of
           Inl e \<Rightarrow> (0, Some e)
         | Inr d \<Rightarrow> (d, None))
      else
        (case parse_int64 b of
           (d, None) \<Rightarrow> (d, None)
         | (d, Some e) \<Rightarrow> (d, Some (Bad_Integer e))))"

subsection \<open>Whole numbers of units\<close>

lemma wrap64_id: "int64 i \<Longrightarrow> wrap64 i = i"
  by (simp add: wrap64_def int64_def min_int64_def max_int64_def)

lemma wrap64_range: "int64 (wrap64 i)"
  using pos_mod_bound [of "2 ^ 64" "i + 2 ^ 63"] pos_mod_sign [of "2 ^ 64" "i + 2 ^ 63"]
  by (simp add: wrap64_def int64_def min_int64_def max_int64_def)

lemma is_digit_hd [simp]: "is_digit (hd (nat_digits n))" "is_digit (hd (nat_digits n @ s))"
  by (auto intro: nat_digits_digits [of _ n])

lemma lead_int_append:
  "lead_int x (a @ b) =
     (if \<forall>c \<in> set a. is_digit c then
        (case lead_int x a of None \<Rightarrow> None | Some (v, _) \<Rightarrow> lead_int v b)
      else lead_int x (a @ b))"
  by (induction x a rule: lead_int.induct) (auto simp: Let_def)

lemma lead_int_digits: "int n \<le> max_int64 \<Longrightarrow> lead_int 0 (nat_digits n) = Some (int n, [])"
proof (induction n rule: nat_digits.induct)
  case (1 n)
  show ?case
  proof (cases "n < 10")
    case True
    then show ?thesis
      by (simp add: nat_digits.simps [of n] wrap64_id int64_def min_int64_def max_int64_def)
  next
    case False
    with 1 have "lead_int 0 (nat_digits (n div 10)) = Some (int (n div 10), [])" by simp
    moreover have "\<forall>c \<in> set (nat_digits (n div 10)). is_digit c" by (simp add: nat_digits_digits)
    moreover have "int (n div 10) * 10 + int (n mod 10) = int n" by presburger
    moreover have "int (n div 10) \<le> max_int64 div 10" using 1(2) by (simp add: max_int64_def)
    ultimately show ?thesis
      using False 1(2)
      by (simp add: nat_digits.simps [of n] lead_int_append Let_def wrap64_id int64_def min_int64_def)
  qed
qed

definition duration_units :: "string set" where
  "duration_units = {''ns'', ''us'', ''ms'', ''s'', ''m'', ''h''}"

text \<open>\<open>render_terms\<close> writes a list of whole numbers with their units, as in \<open>1h30m\<close>.\<close>

definition render_terms :: "(nat \<times> string) list \<Rightarrow> string" where
  "render_terms ts = concat (map (\<lambda>(n, u). nat_digits n @ u) ts)"

definition terms_ns :: "(nat \<times> string) list \<Rightarrow> int" where
  "terms_ns ts = (\<Sum>(n, u) \<leftarrow> ts. int n * (case unit_ns u of Some ns \<Rightarrow> ns | None \<Rightarrow> 0))"

lemma duration_units_facts:
  assumes "u \<in> duration_units"
  shows "u \<noteq> []" "\<forall>c \<in> set u. unit_char c" "\<exists>ns > 0. unit_ns u = Some ns"
  using assms by (auto simp: duration_units_def unit_char_def is_digit_def unit_ns_def)

lemma takeWhile_unit:
  assumes "\<forall>c \<in> set u. unit_char c" and "r = [] \<or> is_digit (hd r)"
  shows "takeWhile unit_char (u @ r) = u" "dropWhile unit_char (u @ r) = r"
  using assms
  by (cases r; auto simp: takeWhile_append dropWhile_append unit_char_def)+

lemma duration_term_render:
  assumes u: "u \<in> duration_units" and ns: "unit_ns u = Some ns"
    and v: "int n * ns \<le> max_int64" and r: "r = [] \<or> is_digit (hd r)"
  shows "duration_term frac (nat_digits n @ u @ r) = Inr (int n * ns, r)"
proof -
  note facts = duration_units_facts [OF u]
  from facts(3) ns have ns_pos: "0 < ns" by auto
  have "int n * 1 \<le> int n * ns" using ns_pos by (intro mult_left_mono) auto
  with v have n: "int n \<le> max_int64" by simp
  obtain c us where c: "u = c # us" using facts(1) by (cases u) auto
  have "lead_int 0 (nat_digits n @ u @ r) = lead_int (int n) (u @ r)"
    using lead_int_digits [OF n] by (simp add: lead_int_append nat_digits_digits)
  also have "\<dots> = Some (int n, u @ r)"
    using facts(2) by (simp add: c unit_char_def)
  finally have lead: "lead_int 0 (nat_digits n @ u @ r) = Some (int n, u @ r)" .
  have dot: "hd (u @ r) \<noteq> CHR ''.''" using facts(2) by (simp add: c unit_char_def)
  have hd: "is_digit (hd (nat_digits n @ u @ r))" by simp
  have le: "\<not> max_int64 div ns < int n" 
    using zdiv_mono1 [OF v ns_pos] ns_pos by (simp add: not_less)
  have pos: "\<not> int n * ns < 0" using ns_pos by (simp add: not_less)
  show ?thesis
    using facts(1) hd dot le pos takeWhile_unit [OF facts(2) r]
    by (simp add: duration_term_def lead ns Let_def)
qed

lemma duration_terms_render:
  assumes "\<forall>(n, u) \<in> set ts. u \<in> duration_units" and "0 \<le> d" and "d + terms_ns ts \<le> max_int64"
  shows "duration_terms frac d (render_terms ts) = Inr (d + terms_ns ts)"
  using assms
proof (induction ts arbitrary: d)
  case Nil
  then show ?case by (simp add: render_terms_def terms_ns_def duration_terms.simps)
next
  case (Cons t ts)
  obtain n u where t: "t = (n, u)" by fastforce
  with Cons.prems have u: "u \<in> duration_units" by simp
  from duration_units_facts(3) [OF u] obtain ns where ns: "0 < ns" "unit_ns u = Some ns" by auto
  have sum: "terms_ns (t # ts) = int n * ns + terms_ns ts"
    by (simp add: terms_ns_def t ns)
  have "0 \<le> (case unit_ns v of Some ns \<Rightarrow> ns | None \<Rightarrow> 0)" for v
    by (auto simp: unit_ns_def)
  then have pos: "0 \<le> terms_ns ts"
    by (auto simp: terms_ns_def intro!: sum_list_nonneg)
  have r: "render_terms ts = [] \<or> is_digit (hd (render_terms ts))"
    by (cases ts) (auto simp: render_terms_def)
  have v: "int n * ns \<le> max_int64" "0 \<le> int n * ns"
    using Cons.prems sum pos ns by simp_all
  have w: "wrap64 (d + int n * ns) = d + int n * ns"
    using Cons.prems sum pos v by (intro wrap64_id) (simp add: int64_def min_int64_def)
  have "duration_terms frac d (nat_digits n @ u @ render_terms ts)
      = duration_terms frac (d + int n * ns) (render_terms ts)"
    using duration_term_render [OF u ns(2) v(1) r, of frac] w v(2) Cons.prems(2)
    by (simp add: duration_terms.simps [of frac d])
  also have "\<dots> = Inr (d + int n * ns + terms_ns ts)"
    using Cons.prems sum v(2) by (intro Cons.IH) auto
  finally show ?case
    unfolding sum by (simp add: t render_terms_def)
qed

lemma duration_terms_range:
  "duration_terms frac d s = Inr d' \<Longrightarrow> 0 \<le> d \<Longrightarrow> d \<le> max_int64 \<Longrightarrow> 0 \<le> d' \<and> d' \<le> max_int64"
proof (induction frac d s rule: duration_terms.induct)
  case (1 frac d s)
  show ?case
  proof (cases "s = []")
    case True
    with 1 show ?thesis by (simp add: duration_terms.simps [of frac d])
  next
    case False
    with 1(2) obtain v r where vr: "duration_term frac s = Inr (v, r)" "\<not> wrap64 (d + v) < 0"
      "duration_terms frac (wrap64 (d + v)) r = Inr d'"
      by (auto simp: duration_terms.simps [of frac d] split: sum.splits if_splits)
    then show ?thesis
      using wrap64_range [of "d + v"] 1(1) [OF False vr(1) refl] by (simp add: int64_def)
  qed
qed

subsection \<open>Properties\<close>

text \<open>
  C11: A duration of a configuration file reads as what it says: a JSON string that lists whole
  numbers with their units, as in 1h30m, is the sum of the terms in nanoseconds, and a plain JSON
  integer is that many nanoseconds, for every value a 64-bit duration can hold.
\<close>

theorem Duration_UnmarshalJSON_reads:
  assumes "ts \<noteq> []" and "\<forall>(n, u) \<in> set ts. u \<in> duration_units"
    and "terms_ns ts \<le> max_int64" and "int64 i"
  shows "Duration_UnmarshalJSON frac (CHR ''\"'' # render_terms ts @ ''\"'') = (terms_ns ts, None) \<and>
    Duration_UnmarshalJSON frac (itoa i) = (i, None)"
proof
  let ?s = "render_terms ts"
  obtain n u ts' where ts: "ts = (n, u) # ts'" using assms(1) by (cases ts) auto
  then have u: "u \<noteq> []" using assms(2) duration_units_facts(1) by auto
  have s: "?s = nat_digits n @ u @ render_terms ts'" by (simp add: ts render_terms_def)
  have hd: "hd ?s \<noteq> CHR ''-''" "hd ?s \<noteq> CHR ''+''" by (simp_all add: s hd_nat_digits)
  have len: "2 \<le> length ?s"
    using u nat_digits_not_Nil [of n] by (cases "nat_digits n"; cases u) (auto simp: s)
  then have "?s \<noteq> []" "?s \<noteq> ''0''" by auto
  with hd duration_terms_render [OF assms(2), of 0 frac] assms(3)
  have "ParseDuration frac ?s = Inr (terms_ns ts)"
    by (simp add: ParseDuration_def)
  with len \<open>?s \<noteq> []\<close> show "Duration_UnmarshalJSON frac (CHR ''\"'' # ?s @ ''\"'') = (terms_ns ts, None)"
    by (simp add: Duration_UnmarshalJSON_def)
  have "hd (itoa i) \<noteq> CHR ''\"''"
    using is_digit_hd(1) [of "nat i"]
    by (auto simp: itoa_def is_digit_def)
  then show "Duration_UnmarshalJSON frac (itoa i) = (i, None)"
    by (simp add: Duration_UnmarshalJSON_def parse_int64_itoa [OF assms(4)])
qed

theorem Duration_UnmarshalJSON_reads_witness:
  "Duration_UnmarshalJSON (\<lambda>f k unit. f * unit div 10 ^ k) (CHR ''\"'' # ''1h30m'' @ ''\"'')
     = (5400000000000, None)"
proof -
  let ?ts = "[(1, ''h''), (30, ''m'')]"
  have "Duration_UnmarshalJSON (\<lambda>f k unit. f * unit div 10 ^ k)
      (CHR ''\"'' # render_terms ?ts @ ''\"'') = (terms_ns ?ts, None)"
    by (rule conjunct1 [OF Duration_UnmarshalJSON_reads [where i = 0]])
      (simp_all add: duration_units_def terms_ns_def unit_ns_def int64_def max_int64_def min_int64_def)
  moreover have "render_terms ?ts = ''1h30m''"
    by code_simp
  ultimately show ?thesis by (simp add: terms_ns_def unit_ns_def)
qed


end
