(* ===== verification/Flags.thy ===== *)
theory Flags
  imports Go_Base Duration
begin

text \<open>
  The flags of the commands, and what the program uses of the package \<open>flag\<close> to read them: a flag set
  in which every flag is a string, a boolean or a duration, \<open>FlagSet.Parse\<close> with the option
  \<open>ContinueOnError\<close>, \<open>strconv.ParseBool\<close>. \<open>frac\<close> is the floating-point part of \<open>time.ParseDuration\<close>.
  A parse error has been printed by the package when it is returned.
\<close>

datatype flag_value =
    String_Flag string
  | Bool_Flag bool
  | Duration_Flag int

record go_flag =
  fl_Value :: flag_value
  fl_DefValue :: string
  fl_Usage :: string

type_synonym flag_set = "(string, go_flag) gomap"

definition parse_bool :: "string \<Rightarrow> bool option" where
  "parse_bool s =
     (if s \<in> {''1'', ''t'', ''T'', ''TRUE'', ''true'', ''True''} then Some True
      else if s \<in> {''0'', ''f'', ''F'', ''FALSE'', ''false'', ''False''} then Some False
      else None)"

definition flag_text :: "flag_value \<Rightarrow> string" where
  "flag_text v =
     (case v of
        String_Flag s \<Rightarrow> s
      | Bool_Flag b \<Rightarrow> if b then ''true'' else ''false''
      | Duration_Flag d \<Rightarrow> Duration_String d)"

text \<open>\<open>Value.Set\<close>, with the kind of the flag's value.\<close>

definition set_value ::
  "(int \<Rightarrow> nat \<Rightarrow> int \<Rightarrow> int) \<Rightarrow> flag_value \<Rightarrow> string \<Rightarrow> flag_value option" where
  "set_value frac v s =
     (case v of
        String_Flag _ \<Rightarrow> Some (String_Flag s)
      | Bool_Flag _ \<Rightarrow> map_option Bool_Flag (parse_bool s)
      | Duration_Flag _ \<Rightarrow> (case ParseDuration frac s of Inl _ \<Rightarrow> None | Inr d \<Rightarrow> Some (Duration_Flag d)))"

text \<open>\<open>FlagSet.Var\<close>: defining a flag twice panics.\<close>

definition define_flag :: "string \<Rightarrow> flag_value \<Rightarrow> string \<Rightarrow> flag_set \<Rightarrow> flag_set run" where
  "define_flag name v usage fs =
     (if map_of fs name \<noteq> None then Panics (Explicit_Panic ''flag redefined'')
      else Ret (AList.update name \<lparr>fl_Value = v, fl_DefValue = flag_text v, fl_Usage = usage\<rparr> fs))"

fun define_flags :: "(string \<times> flag_value \<times> string) list \<Rightarrow> flag_set \<Rightarrow> flag_set run" where
  "define_flags [] fs = Ret fs"
| "define_flags ((name, v, usage) # rest) fs = bind_run (define_flag name v usage fs) (define_flags rest)"

subsection \<open>Parsing\<close>

datatype flag_error =
    Bad_Flag_Syntax string
  | Not_Defined string
  | Help_Requested
  | Bad_Boolean string string
  | Needs_Argument string
  | Bad_Value string string

text \<open>A name and the value after the first equality sign that is not its first character.\<close>

definition split_flag :: "string \<Rightarrow> string \<times> string option" where
  "split_flag s =
     (let n = hd s # takeWhile (\<lambda>c. c \<noteq> CHR ''='') (tl s); r = dropWhile (\<lambda>c. c \<noteq> CHR ''='') (tl s)
      in (n, case r of [] \<Rightarrow> None | _ # v \<Rightarrow> Some v))"

text \<open>An argument that is looked at as a flag; \<open>None\<close> ends the flags.\<close>

definition is_flag :: "string \<Rightarrow> bool" where
  "is_flag s \<longleftrightarrow> 2 \<le> length s \<and> hd s = CHR ''-''"

definition flag_name :: "string \<Rightarrow> string" where
  "flag_name s = (if s ! 1 = CHR ''-'' then drop 2 s else drop 1 s)"

definition put_flag :: "string \<Rightarrow> flag_value \<Rightarrow> flag_set \<Rightarrow> flag_set" where
  "put_flag name v fs =
     (case map_of fs name of None \<Rightarrow> fs | Some f \<Rightarrow> AList.update name (f\<lparr>fl_Value := v\<rparr>) fs)"

function parse_flags ::
  "(int \<Rightarrow> nat \<Rightarrow> int \<Rightarrow> int) \<Rightarrow> flag_set \<Rightarrow> string list \<Rightarrow> flag_error + flag_set \<times> string list" where
  "parse_flags frac fs args =
     (case args of
        [] \<Rightarrow> Inr (fs, [])
      | s # rest \<Rightarrow>
          if \<not> is_flag s then Inr (fs, args)
          else if s = ''--'' then Inr (fs, rest)
          else
            let nm = flag_name s in
            if nm = [] \<or> hd nm = CHR ''-'' \<or> hd nm = CHR ''='' then Inl (Bad_Flag_Syntax s)
            else
              let (name, val) = split_flag nm in
              (case map_of fs name of
                 None \<Rightarrow> Inl (if name = ''help'' \<or> name = ''h'' then Help_Requested else Not_Defined name)
               | Some f \<Rightarrow>
                   (case fl_Value f of
                      Bool_Flag _ \<Rightarrow>
                        let t = (case val of None \<Rightarrow> ''true'' | Some t \<Rightarrow> t) in
                        (case set_value frac (fl_Value f) t of
                           None \<Rightarrow> Inl (Bad_Boolean t name)
                         | Some v \<Rightarrow> parse_flags frac (put_flag name v fs) rest)
                    | _ \<Rightarrow>
                        (case (val, rest) of
                           (None, []) \<Rightarrow> Inl (Needs_Argument name)
                         | (None, t # rest') \<Rightarrow>
                             (case set_value frac (fl_Value f) t of
                                None \<Rightarrow> Inl (Bad_Value t name)
                              | Some v \<Rightarrow> parse_flags frac (put_flag name v fs) rest')
                         | (Some t, _) \<Rightarrow>
                             (case set_value frac (fl_Value f) t of
                                None \<Rightarrow> Inl (Bad_Value t name)
                              | Some v \<Rightarrow> parse_flags frac (put_flag name v fs) rest)))))"
  by pat_completeness auto
termination by (relation "measure (\<lambda>(frac, fs, args). length args)") auto

declare parse_flags.simps [simp del]

text \<open>The value of a flag, as the variable it is bound to has it.\<close>

definition string_flag :: "flag_set \<Rightarrow> string \<Rightarrow> string" where
  "string_flag fs name = (case map_of fs name of Some f \<Rightarrow> (case fl_Value f of String_Flag s \<Rightarrow> s | _ \<Rightarrow> []) | None \<Rightarrow> [])"

definition bool_flag :: "flag_set \<Rightarrow> string \<Rightarrow> bool" where
  "bool_flag fs name =
     (case map_of fs name of Some f \<Rightarrow> (case fl_Value f of Bool_Flag b \<Rightarrow> b | _ \<Rightarrow> False) | None \<Rightarrow> False)"

definition duration_flag :: "flag_set \<Rightarrow> string \<Rightarrow> int" where
  "duration_flag fs name =
     (case map_of fs name of Some f \<Rightarrow> (case fl_Value f of Duration_Flag d \<Rightarrow> d | _ \<Rightarrow> 0) | None \<Rightarrow> 0)"

subsection \<open>Defining and reading flags\<close>

definition new_flag :: "flag_value \<Rightarrow> string \<Rightarrow> go_flag" where
  "new_flag v usage = \<lparr>fl_Value = v, fl_DefValue = flag_text v, fl_Usage = usage\<rparr>"

lemma define_flags_distinct:
  "distinct (map fst fs @ map fst defs) \<Longrightarrow>
    define_flags defs fs = Ret (fs @ map (\<lambda>(n, v, usage). (n, new_flag v usage)) defs)"
proof (induction defs arbitrary: fs)
  case (Cons d defs)
  obtain n v usage where d: "d = (n, v, usage)" by (metis prod_cases3)
  with Cons.prems have new: "n \<notin> fst ` set fs" by auto
  with Cons.prems d Cons.IH [of "fs @ [(n, new_flag v usage)]"] show ?case
    by (simp add: define_flag_def update_new map_of_eq_None_iff new_flag_def)
qed simp

lemma define_flags_twice:
  "\<not> distinct (map fst fs @ map fst defs) \<Longrightarrow> distinct (map fst fs) \<Longrightarrow> \<not> returns (define_flags defs fs)"
proof (induction defs arbitrary: fs)
  case (Cons d defs)
  obtain n v usage where d: "d = (n, v, usage)" by (metis prod_cases3)
  show ?case
  proof (cases "n \<in> fst ` set fs")
    case True
    then show ?thesis by (auto simp: d define_flag_def dest: weak_map_of_SomeI)
  next
    case False
    with Cons.prems d Cons.IH [of "fs @ [(n, new_flag v usage)]"] show ?thesis
      by (simp add: define_flag_def update_new map_of_eq_None_iff new_flag_def)
  qed
qed simp

text \<open>A flag as it can be written: joined to its value, followed by it, or alone for a boolean that is true.\<close>

fun is_bool :: "flag_value \<Rightarrow> bool" where
  "is_bool (Bool_Flag b) = True"
| "is_bool _ = False"

lemma is_bool_iff: "is_bool v \<longleftrightarrow> (\<exists>b. v = Bool_Flag b)"
  by (cases v) auto

definition written :: "bool \<times> string \<times> string \<times> flag_value \<Rightarrow> string list" where
  "written = (\<lambda>(joined, n, t, v).
     if joined then [CHR ''-'' # n @ CHR ''='' # t]
     else if is_bool v then [CHR ''-'' # n]
     else [CHR ''-'' # n, t])"

definition setting_ok ::
  "(int \<Rightarrow> nat \<Rightarrow> int \<Rightarrow> int) \<Rightarrow> flag_set \<Rightarrow> bool \<times> string \<times> string \<times> flag_value \<Rightarrow> bool" where
  "setting_ok frac fs = (\<lambda>(joined, n, t, v).
     n \<noteq> [] \<and> hd n \<noteq> CHR ''-'' \<and> CHR ''='' \<notin> set n \<and>
     (\<exists>f. map_of fs n = Some f \<and> set_value frac (fl_Value f) t = Some v) \<and>
     (\<not> joined \<and> is_bool v \<longrightarrow> t = ''true''))"

definition put_setting :: "bool \<times> string \<times> string \<times> flag_value \<Rightarrow> flag_set \<Rightarrow> flag_set" where
  "put_setting = (\<lambda>(joined, n, t, v). put_flag n v)"

lemma set_value_bool: "set_value frac v t = Some v' \<Longrightarrow> is_bool v' = is_bool v"
  by (auto simp: set_value_def split: flag_value.splits sum.splits)

lemma set_value_again: "set_value frac v t = Some v' \<Longrightarrow> set_value frac v' u = set_value frac v u"
  by (auto simp: set_value_def split: flag_value.splits sum.splits)

lemma map_of_put_flag:
  "map_of (put_flag n v fs) k =
     (if k = n then map_option (\<lambda>f. f\<lparr>fl_Value := v\<rparr>) (map_of fs n) else map_of fs k)"
  by (auto simp: put_flag_def update_conv' split: option.split)

lemma split_flag_plain:
  assumes "n \<noteq> []" and "CHR ''='' \<notin> set n"
  shows "split_flag n = (n, None)" and "split_flag (n @ CHR ''='' # t) = (n, Some t)"
proof -
  obtain c m where n: "n = c # m" using assms(1) by (cases n) auto
  with assms(2) have "\<forall>x \<in> set m. x \<noteq> CHR ''=''" by auto
  then have tw: "takeWhile (\<lambda>c. c \<noteq> CHR ''='') m = m" "dropWhile (\<lambda>c. c \<noteq> CHR ''='') m = []"
    "takeWhile (\<lambda>c. c \<noteq> CHR ''='') (m @ CHR ''='' # t) = m"
    "dropWhile (\<lambda>c. c \<noteq> CHR ''='') (m @ CHR ''='' # t) = CHR ''='' # t"
    by (simp_all add: takeWhile_append2 dropWhile_append2)
  show "split_flag n = (n, None)" "split_flag (n @ CHR ''='' # t) = (n, Some t)"
    unfolding split_flag_def n append_Cons list.sel Let_def tw by simp_all
qed

lemma parse_written:
  assumes "setting_ok frac fs x"
  shows "parse_flags frac fs (written x @ rest) = parse_flags frac (put_setting x fs) rest"
proof -
  obtain j n t v where x: "x = (j, n, t, v)" by (metis prod_cases4)
  from assms obtain f where n: "n \<noteq> []" "hd n \<noteq> CHR ''-''" "CHR ''='' \<notin> set n"
    and f: "map_of fs n = Some f" "set_value frac (fl_Value f) t = Some v"
    and alone: "\<not> j \<Longrightarrow> is_bool v \<Longrightarrow> t = ''true''"
    by (auto simp: setting_ok_def x)
  obtain c m where cm: "n = c # m" using n(1) by (cases n) auto
  with n have c: "c \<noteq> CHR ''-''" "c \<noteq> CHR ''=''" by auto
  have name: "is_flag (CHR ''-'' # n @ u)" "CHR ''-'' # n @ u \<noteq> ''--''" "flag_name (CHR ''-'' # n @ u) = n @ u" for u
    using c by (auto simp: is_flag_def flag_name_def cm)
  note one = name [of "[]", simplified] and eq = name [of "CHR ''='' # t"]
  note split = split_flag_plain [OF n(1,3)]
  have hd: "n @ u \<noteq> []" "hd (n @ u) \<noteq> CHR ''-''" "hd (n @ u) \<noteq> CHR ''=''" for u
    using c by (simp_all add: cm)
  show ?thesis
  proof (cases "is_bool v")
    case True
    with set_value_bool [OF f(2)] obtain b where b: "fl_Value f = Bool_Flag b" by (auto simp: is_bool_iff)
    show ?thesis
    proof (cases j)
      case True
      then show ?thesis using eq hd [of "CHR ''='' # t"] split f b
        by (subst parse_flags.simps) (simp add: x written_def put_setting_def)
    next
      case False
      then show ?thesis using one hd [of "[]"] split f b True alone
        by (subst parse_flags.simps) (auto simp add: x written_def put_setting_def)
    qed
  next
    case False
    with set_value_bool [OF f(2)] have nb: "fl_Value f \<noteq> Bool_Flag b" for b by auto
    show ?thesis
    proof (cases j)
      case True
      then show ?thesis using eq hd [of "CHR ''='' # t"] split f nb
        by (subst parse_flags.simps) (auto simp: x written_def put_setting_def split: flag_value.split)
    next
      case False
      then show ?thesis using one hd [of "[]"] split f nb \<open>\<not> is_bool v\<close>
        by (subst parse_flags.simps) (auto simp: x written_def put_setting_def split: flag_value.split)
    qed
  qed
qed

lemma setting_ok_put:
  assumes "setting_ok frac fs x" and "setting_ok frac fs y"
  shows "setting_ok frac (put_setting x fs) y"
proof -
  obtain j n t v where x: "x = (j, n, t, v)" by (metis prod_cases4)
  obtain j' n' t' v' where y: "y = (j', n', t', v')" by (metis prod_cases4)
  from assms show ?thesis
    by (auto simp: x y setting_ok_def put_setting_def map_of_put_flag set_value_again)
qed

lemma parsed_settings:
  assumes "list_all (setting_ok frac fs) xs" and "operands = [] \<or> \<not> is_flag (hd operands)"
  shows "parse_flags frac fs (concat (map written xs) @ operands) = Inr (fold put_setting xs fs, operands)"
  using assms(1)
proof (induction xs arbitrary: fs)
  case Nil
  with assms(2) show ?case by (cases operands) (simp_all add: parse_flags.simps)
next
  case (Cons x xs)
  then have "list_all (setting_ok frac (put_setting x fs)) xs"
    by (auto simp: list_all_iff setting_ok_put)
  from Cons.IH [OF this] Cons.prems show ?case
    by (simp add: parse_written)
qed

subsection \<open>Kinds of flags\<close>

fun same_kind :: "flag_value \<Rightarrow> flag_value \<Rightarrow> bool" where
  "same_kind (String_Flag _) (String_Flag _) = True"
| "same_kind (Bool_Flag _) (Bool_Flag _) = True"
| "same_kind (Duration_Flag _) (Duration_Flag _) = True"
| "same_kind _ _ = False"

lemma same_kind_refl [simp]: "same_kind v v"
  by (cases v) auto

lemma same_kind_iff:
  "same_kind (String_Flag s) v \<longleftrightarrow> (\<exists>t. v = String_Flag t)"
  "same_kind (Bool_Flag b) v \<longleftrightarrow> (\<exists>c. v = Bool_Flag c)"
  "same_kind (Duration_Flag d) v \<longleftrightarrow> (\<exists>e. v = Duration_Flag e)"
  by (cases v; auto)+

lemma same_kind_trans: "same_kind u v \<Longrightarrow> same_kind v w \<Longrightarrow> same_kind u w"
  by (cases u; cases v; cases w) auto

lemma set_value_kind: "set_value frac v t = Some v' \<Longrightarrow> same_kind v v'"
  by (auto simp: set_value_def split: flag_value.splits sum.splits)

definition same_flag :: "go_flag \<Rightarrow> go_flag \<Rightarrow> bool" where
  "same_flag f f' \<longleftrightarrow> same_kind (fl_Value f) (fl_Value f') \<and> fl_DefValue f' = fl_DefValue f \<and>
     fl_Usage f' = fl_Usage f"

text \<open>A flag set whose variables have other values, and nothing else.\<close>

definition revalued :: "flag_set \<Rightarrow> flag_set \<Rightarrow> bool" where
  "revalued fs fs' \<longleftrightarrow> map fst fs' = map fst fs \<and>
     (\<forall>n. rel_option same_flag (map_of fs n) (map_of fs' n))"

lemma revalued_refl: "revalued fs fs"
  by (simp add: revalued_def same_flag_def option.rel_refl)

lemma revalued_trans: "revalued fs fs' \<Longrightarrow> revalued fs' fs'' \<Longrightarrow> revalued fs fs''"
proof -
  assume a: "revalued fs fs'" and b: "revalued fs' fs''"
  have "rel_option same_flag (map_of fs n) (map_of fs'' n)" for n
  proof -
    from a b have "rel_option same_flag (map_of fs n) (map_of fs' n)"
      "rel_option same_flag (map_of fs' n) (map_of fs'' n)" by (auto simp: revalued_def)
    then show ?thesis
      by (cases "map_of fs n"; cases "map_of fs' n"; cases "map_of fs'' n")
        (auto simp: same_flag_def intro: same_kind_trans)
  qed
  with a b show ?thesis by (simp add: revalued_def)
qed

lemma revalued_put:
  assumes "map_of fs n = Some f" and "set_value frac (fl_Value f) t = Some v"
  shows "revalued fs (put_flag n v fs)"
proof -
  have "map fst (put_flag n v fs) = map fst fs"
    using assms(1) by (auto simp: put_flag_def update_keys dest: map_of_SomeD intro!: rev_image_eqI)
  then show ?thesis
    using assms set_value_kind [OF assms(2)] by (auto simp: revalued_def same_flag_def map_of_put_flag option.rel_refl)
qed

lemma parse_flags_step:
  assumes "parse_flags frac fs args = Inr r"
  obtains (stop) "r = (fs, args)"
  | (dashes) rest where "args = ''--'' # rest" "r = (fs, rest)"
  | (flag) n f t v used rest where "map_of fs n = Some f" "set_value frac (fl_Value f) t = Some v"
      "args = used @ rest" "used \<noteq> []" "parse_flags frac (put_flag n v fs) rest = Inr r"
proof (cases args)
  case Nil
  with assms stop show thesis by (simp add: parse_flags.simps [of frac fs "[]"])
next
  case (Cons s rest)
  note run = assms [unfolded Cons parse_flags.simps [of frac fs "s # rest"] list.case]
  consider "\<not> is_flag s" | "is_flag s" "s = ''--''" | "is_flag s" "s \<noteq> ''--''" by blast
  then show thesis
  proof cases
    case 1
    with run stop Cons show thesis by simp
  next
    case 2
    with run dashes Cons show thesis by simp
  next
    case 3
    obtain n val where nv: "split_flag (flag_name s) = (n, val)" by fastforce
    let ?nm = "flag_name s"
    from run 3 have nm: "\<not> (?nm = [] \<or> hd ?nm = CHR ''-'' \<or> hd ?nm = CHR ''='')"
      by (auto simp: Let_def)
    note run' = run [unfolded Let_def if_not_P [OF nm] nv prod.case]
    from run' 3 obtain f where f: "map_of fs n = Some f"
      by (cases "map_of fs n") simp_all
    have one: thesis if "set_value frac (fl_Value f) t = Some v" "parse_flags frac (put_flag n v fs) rest = Inr r" for t v
      using flag [of n f t v "[s]" rest] f that Cons by simp
    have two: thesis if "set_value frac (fl_Value f) t = Some v" "rest = t # rest'"
      "parse_flags frac (put_flag n v fs) rest' = Inr r" for t v rest'
      using flag [of n f t v "[s, t]" rest'] f that Cons by simp
    show thesis
    proof (cases "is_bool (fl_Value f)")
      case True
      then obtain b where b: "fl_Value f = Bool_Flag b" by (auto simp: is_bool_iff)
      with run' 3 f one show thesis
        by (cases "set_value frac (fl_Value f) (case val of None \<Rightarrow> ''true'' | Some t \<Rightarrow> t)") simp_all
    next
      case False
      then have other: "(case fl_Value f of Bool_Flag _ \<Rightarrow> A | _ \<Rightarrow> B) = B" for A B :: "flag_error + flag_set \<times> string list"
        by (cases "fl_Value f") simp_all
      show thesis
      proof (cases val)
        case None
        with run' 3 f other two show thesis
          by (cases rest; cases "set_value frac (fl_Value f) (hd rest)") simp_all
      next
        case (Some t)
        with run' 3 f other one show thesis
          by (cases "set_value frac (fl_Value f) t") simp_all
      qed
    qed
  qed
qed

text \<open>
  Parsing keeps the types of the flags. Whatever the arguments are, a flag set that comes out of the
  parser has the flags it started with, in the same order, each with a value of the same kind and the
  same default and usage; and the operands are what is left of the arguments at their end.
\<close>

lemma parsed_revalued:
  assumes "parse_flags frac fs args = Inr (fs', operands)"
  shows "revalued fs fs' \<and> (\<exists>used. args = used @ operands)"
  using assms
proof (induction args arbitrary: fs rule: measure_induct_rule [of length])
  case (less args)
  from less.prems show ?case
  proof (cases rule: parse_flags_step)
    case (flag n f t v used rest)
    then have "revalued (put_flag n v fs) fs' \<and> (\<exists>used. rest = used @ operands)"
      by (intro less.IH) auto
    with flag(3) revalued_trans [OF revalued_put [OF flag(1,2)]] show ?thesis by auto
  qed (auto simp: revalued_refl)
qed

end
