(* ===== verification/Log.thy ===== *)
theory Log
  imports Go_Base Go_Strings
begin

text \<open>
  The logger of the process (\<open>log/log.go\<close>) and the tracers it can start (\<open>cmd/aragorn/tracing.go\<close>). The
  zap library is read as far as the program's choices reach into it: the names of the levels, the two
  configurations the program starts from, when an entry is written, and what the levels from \<open>DPanic\<close> on do
  after it. Opening the outputs (\<open>Build\<close>), the sampling of entries and the jaeger library are parameters;
  how an entry is laid out is left out.
\<close>

subsection \<open>Levels\<close>

datatype level =
    DebugLevel
  | InfoLevel
  | WarnLevel
  | ErrorLevel
  | DPanicLevel
  | PanicLevel
  | FatalLevel

fun level_no :: "level \<Rightarrow> int" where
  "level_no DebugLevel = - 1"
| "level_no InfoLevel = 0"
| "level_no WarnLevel = 1"
| "level_no ErrorLevel = 2"
| "level_no DPanicLevel = 3"
| "level_no PanicLevel = 4"
| "level_no FatalLevel = 5"

lemma level_no_inj: "level_no a = level_no b \<longleftrightarrow> a = b"
  by (cases a; cases b) simp_all

text \<open>Levels are ordered by their numbers.\<close>

instantiation level :: linorder
begin

definition less_eq_level :: "level \<Rightarrow> level \<Rightarrow> bool" where
  "less_eq_level a b \<longleftrightarrow> level_no a \<le> level_no b"

definition less_level :: "level \<Rightarrow> level \<Rightarrow> bool" where
  "less_level a b \<longleftrightarrow> level_no a < level_no b"

instance
  by standard (auto simp: less_eq_level_def less_level_def level_no_inj)

end

definition level_names :: "(string \<times> level) list" where
  "level_names =
     [(''debug'', DebugLevel), (''DEBUG'', DebugLevel), (''info'', InfoLevel), (''INFO'', InfoLevel), ([], InfoLevel),
      (''warn'', WarnLevel), (''WARN'', WarnLevel), (''error'', ErrorLevel), (''ERROR'', ErrorLevel),
      (''dpanic'', DPanicLevel), (''DPANIC'', DPanicLevel), (''panic'', PanicLevel), (''PANIC'', PanicLevel),
      (''fatal'', FatalLevel), (''FATAL'', FatalLevel)]"

text \<open>
  \<open>bytes.ToLower\<close>, as far as it gives ASCII letters: the capital I with a dot becomes an \<open>i\<close> and the Kelvin
  sign a \<open>k\<close>. Other letters stay outside ASCII, where no name of a level has any.
\<close>

fun lower_bytes :: "string \<Rightarrow> string" where
  "lower_bytes [] = []"
| "lower_bytes (c # s) =
     (if c = CHR 0xC4 \<and> s \<noteq> [] \<and> hd s = CHR 0xB0 then CHR ''i'' # lower_bytes (tl s)
      else if c = CHR 0xE2 \<and> has_prefix s [CHR 0x84, CHR 0xAA] then CHR ''k'' # lower_bytes (drop 2 s)
      else (if 65 \<le> (of_char c :: nat) \<and> (of_char c :: nat) \<le> 90 then char_of ((of_char c :: nat) + 32) else c) #
        lower_bytes s)"

definition UnmarshalText :: "string \<Rightarrow> level option" where
  "UnmarshalText s =
     (case map_of level_names s of
        Some l \<Rightarrow> Some l
      | None \<Rightarrow> map_of level_names (lower_bytes s))"

subsection \<open>The logger\<close>

record log_config =
  lc_Level :: level
  lc_Development :: bool
  lc_DisableCaller :: bool
  lc_DisableStacktrace :: bool
  lc_Sampling :: "(nat \<times> nat) option"
  lc_Encoding :: string
  lc_OutputPaths :: "string list"
  lc_ErrorOutputPaths :: "string list"

definition NewProductionConfig :: log_config where
  "NewProductionConfig = \<lparr>lc_Level = InfoLevel, lc_Development = False, lc_DisableCaller = False,
     lc_DisableStacktrace = False, lc_Sampling = Some (100, 100), lc_Encoding = ''json'',
     lc_OutputPaths = [''stderr''], lc_ErrorOutputPaths = [''stderr'']\<rparr>"

definition NewDevelopmentConfig :: log_config where
  "NewDevelopmentConfig = \<lparr>lc_Level = DebugLevel, lc_Development = True, lc_DisableCaller = False,
     lc_DisableStacktrace = False, lc_Sampling = None, lc_Encoding = ''console'',
     lc_OutputPaths = [''stderr''], lc_ErrorOutputPaths = [''stderr'']\<rparr>"

text \<open>A logger: the configuration it is built from and how many callers it skips.\<close>

record logger =
  lg_config :: log_config
  lg_callerSkip :: nat

datatype log_error = Unrecognized_Level string | Build_Failed string

text \<open>\<open>Init\<close>: the error, or the logger that the package variable \<open>l\<close> gets.\<close>

definition log_Init :: "(log_config \<Rightarrow> string option) \<Rightarrow> string \<Rightarrow> bool \<Rightarrow> log_error + logger" where
  "log_Init build lvl debug =
     (let start =
        (if debug then Inr (NewDevelopmentConfig, 1)
         else case UnmarshalText lvl of
           None \<Rightarrow> Inl (Unrecognized_Level lvl)
         | Some l \<Rightarrow> Inr (NewProductionConfig\<lparr>lc_DisableCaller := True, lc_Level := l\<rparr>, 0))
      in case start of
           Inl e \<Rightarrow> Inl e
         | Inr (cfg, skip) \<Rightarrow>
             let cfg1 = cfg\<lparr>lc_DisableStacktrace := True\<rparr> in
             (case build cfg1 of
                Some e \<Rightarrow> Inl (Build_Failed e)
              | None \<Rightarrow> Inr \<lparr>lg_config = cfg1, lg_callerSkip = skip\<rparr>))"

text \<open>
  A call of one of the functions of the package: the entry written, if any, and how the call ends. The
  logger is nil before \<open>Init\<close>. \<open>sampled\<close> says whether the sampler of a production logger lets the entry
  through.
\<close>

record log_entry =
  en_level :: level
  en_message :: string
  en_fields :: "(string \<times> string) list"

datatype log_end = Log_Returns | Log_Panics panic | Log_Exits int

definition enabled :: "logger \<Rightarrow> level \<Rightarrow> bool" where
  "enabled lg lvl \<longleftrightarrow> lc_Level (lg_config lg) \<le> lvl"

definition log_ending :: "logger \<Rightarrow> level \<Rightarrow> string \<Rightarrow> log_end" where
  "log_ending lg lvl msg =
     (if lvl = PanicLevel \<or> lvl = DPanicLevel \<and> lc_Development (lg_config lg) then Log_Panics (Explicit_Panic msg)
      else if lvl = FatalLevel then Log_Exits 1
      else Log_Returns)"

definition log_at ::
  "(log_entry \<Rightarrow> bool) \<Rightarrow> logger option \<Rightarrow> level \<Rightarrow> string \<Rightarrow> (string \<times> string) list \<Rightarrow> log_entry list \<times> log_end" where
  "log_at sampled l lvl msg fs =
     (case l of
        None \<Rightarrow> ([], Log_Panics Nil_Dereference)
      | Some lg \<Rightarrow>
          let entry = \<lparr>en_level = lvl, en_message = msg, en_fields = fs\<rparr> in
          (if enabled lg lvl \<and> (lc_Sampling (lg_config lg) = None \<or> sampled entry) then [entry] else [],
           log_ending lg lvl msg))"

definition log_Debug where "log_Debug sampled l = log_at sampled l DebugLevel"
definition log_Info where "log_Info sampled l = log_at sampled l InfoLevel"
definition log_Warn where "log_Warn sampled l = log_at sampled l WarnLevel"
definition log_Error where "log_Error sampled l = log_at sampled l ErrorLevel"
definition log_DPanic where "log_DPanic sampled l = log_at sampled l DPanicLevel"
definition log_Panic where "log_Panic sampled l = log_at sampled l PanicLevel"
definition log_Fatal where "log_Fatal sampled l = log_at sampled l FatalLevel"

lemmas log_calls =
  log_Debug_def log_Info_def log_Warn_def log_Error_def log_DPanic_def log_Panic_def log_Fatal_def

subsection \<open>Tracers\<close>

record jaeger_config =
  jc_SamplerType :: string
  jc_SamplerParam :: int
  jc_BufferFlushInterval :: int
  jc_LocalAgentHostPort :: string

definition jaeger_configuration :: "string \<Rightarrow> jaeger_config" where
  "jaeger_configuration agentAddr =
     \<lparr>jc_SamplerType = ''const'', jc_SamplerParam = 1, jc_BufferFlushInterval = 1000000000,
      jc_LocalAgentHostPort = agentAddr\<rparr>"

text \<open>\<open>InitGlobalTracer\<close> gets a service name and a configuration and gives the error, if any.\<close>

definition newJaegerTracer ::
  "(string \<Rightarrow> jaeger_config \<Rightarrow> string option) \<Rightarrow> (log_entry \<Rightarrow> bool) \<Rightarrow> logger option \<Rightarrow> string
    \<Rightarrow> log_entry list \<times> log_end" where
  "newJaegerTracer initGlobal sampled l agentAddr =
     (case initGlobal ''aragorn'' (jaeger_configuration agentAddr) of
        None \<Rightarrow> ([], Log_Returns)
      | Some e \<Rightarrow> log_Fatal sampled l ''Could not initialize jaeger tracer'' [(''error'', e)])"

definition trim_suffix :: "string \<Rightarrow> string \<Rightarrow> string" where
  "trim_suffix s suf = (if has_suffix s suf then take (length s - length suf) s else s)"

text \<open>What the jaeger library reports; \<open>sprintf\<close> is \<open>fmt.Sprintf\<close> on the arguments of the call.\<close>

definition jaeger_Error where
  "jaeger_Error sampled l msg = log_Error sampled l ''jaeger tracer'' [(''error'', msg)]"

definition jaeger_Infof ::
  "(string \<Rightarrow> string) \<Rightarrow> (log_entry \<Rightarrow> bool) \<Rightarrow> logger option \<Rightarrow> string \<Rightarrow> log_entry list \<times> log_end" where
  "jaeger_Infof sprintf sampled l msg =
     log_Debug sampled l ''jaeger tracer'' [(''details'', sprintf (trim_suffix msg [CHR 0x0A]))]"

subsection \<open>What a logger lets through\<close>

text \<open>In debug mode the log level is not looked at; otherwise it has to be the name of a level.\<close>

theorem log_Init_accepts:
  "(\<exists>lg. log_Init build lvl debug = Inr lg) \<longleftrightarrow>
     (if debug then build (NewDevelopmentConfig\<lparr>lc_DisableStacktrace := True\<rparr>) = None
      else \<exists>l. UnmarshalText lvl = Some l \<and>
        build (NewProductionConfig\<lparr>lc_DisableCaller := True, lc_Level := l, lc_DisableStacktrace := True\<rparr>) = None)"
  by (auto simp: log_Init_def Let_def split: option.splits)

text \<open>
  After \<open>Init\<close>, a call from the program returns exactly at the levels up to \<open>Error\<close>, and at \<open>DPanic\<close> without
  debug mode; what is written has the level of the logger at least, all of them in debug mode, where
  nothing is sampled away.
\<close>

theorem log_after_Init:
  assumes "log_Init build lvl debug = Inr lg" and "log_at sampled (Some lg) k msg fs = (es, e)"
  shows "(e = Log_Returns \<longleftrightarrow> k \<in> {DebugLevel, InfoLevel, WarnLevel, ErrorLevel} \<or> k = DPanicLevel \<and> \<not> debug) \<and>
    (e = Log_Exits 1 \<longleftrightarrow> k = FatalLevel) \<and>
    (if debug then es = [\<lparr>en_level = k, en_message = msg, en_fields = fs\<rparr>]
     else \<exists>l. UnmarshalText lvl = Some l \<and> (es \<noteq> [] \<longrightarrow> l \<le> k))"
  using assms
  by (cases k)
    (auto simp: log_Init_def log_at_def log_ending_def enabled_def less_eq_level_def Let_def NewDevelopmentConfig_def
      NewProductionConfig_def split: if_splits option.splits)

text \<open>A tracer that cannot be started ends the process with the exit code 1, whatever the log level is.\<close>

theorem jaeger_failure_exits:
  "initGlobal ''aragorn'' (jaeger_configuration addr) = Some e \<Longrightarrow>
    snd (newJaegerTracer initGlobal sampled (Some lg) addr) = Log_Exits 1"
  by (simp add: newJaegerTracer_def log_Fatal_def log_at_def log_ending_def Let_def)

end
