(* ===== verification/Cli.thy ===== *)
theory Cli
  imports Commands Go_Net Flags Log
begin

text \<open>
  The entry point (\<open>cmd/aragorn/main.go\<close>: \<open>run\<close>, \<open>parseArgs\<close>, \<open>getCommandFromName\<close>, \<open>resetUsage\<close>): from the
  arguments of the process to a command, its outcome and the exit code. A command is the record of its
  methods; \<open>Register\<close> is the list of the flags it defines, in order, and \<open>Run\<close> gets the flag set its
  variables are bound to. What is printed are values of \<open>main_output\<close>, in order and without their
  layout. The logger and the tracer are set up before the command runs. The HTTP server of the \<open>-http\<close>
  flag, which runs beside the command, is left out.
\<close>

datatype main_output =
    Usage "(string \<times> string) list"
  | No_Such_Command string
  | Command_Usage string string string "(string \<times> string \<times> string) list"
  | Flag_Refused flag_error
  | Log_Refused log_error
  | Log_Output "log_entry list"
  | Unrecognized_Tracer string
  | Print_Error cmd_error
  | Table "string list list"
  | Suite_Refused string config_error
  | Version_Lines "(string \<times> string) list"

record 'w command =
  c_name :: string
  c_args :: string
  c_short :: string
  c_long :: string
  c_hidden :: bool
  c_Register :: "(string \<times> flag_value \<times> string) list"
  c_Run :: "flag_set \<Rightarrow> string list \<Rightarrow> 'w \<Rightarrow> (cmd_end \<times> main_output list \<times> 'w) run"

datatype main_end = Exit int "main_output list" | Never_Exits

definition successExitCode :: int where "successExitCode = 0"
definition errorExitCode :: int where "errorExitCode = 1"

text \<open>\<open>strings.ToLower\<close> on the letters that matter for the test.\<close>

definition isHelpArg :: "string \<Rightarrow> bool" where
  "isHelpArg a \<longleftrightarrow> contains_str (map low_char a) ''help'' \<or> map low_char a = ''-h''"

text \<open>The command name, whether its usage is to be printed, and whether to exit.\<close>

definition parseArgs :: "string list \<Rightarrow> string \<times> bool \<times> bool" where
  "parseArgs args =
     (case args of
        [_, a] \<Rightarrow> if isHelpArg a then ([], False, True) else (a, False, False)
      | _ # a # b # _ \<Rightarrow> if isHelpArg a then (b, True, False) else (a, False, False)
      | _ \<Rightarrow> ([], False, True))"

fun getCommandFromName :: "string \<Rightarrow> 'w command list \<Rightarrow> 'w command option" where
  "getCommandFromName name [] = None"
| "getCommandFromName name (c # cs) = (if c_name c = name then Some c else getCommandFromName name cs)"

definition usage :: "'w command list \<Rightarrow> main_output" where
  "usage cmds = Usage (map (\<lambda>c. (c_name c, c_short c)) (filter (\<lambda>c. \<not> c_hidden c) cmds))"

text \<open>The usage of one command: its flags in the order of their names, with their defaults.\<close>

definition trim_space :: "string \<Rightarrow> string" where
  "trim_space s =
     (let sp = (\<lambda>c. c \<in> {CHR 0x20, CHR 0x09, CHR 0x0A, CHR 0x0B, CHR 0x0C, CHR 0x0D})
      in rev (dropWhile sp (rev (dropWhile sp s))))"

definition resetUsage :: "flag_set \<Rightarrow> string \<Rightarrow> string \<Rightarrow> string \<Rightarrow> main_output" where
  "resetUsage fs name args longHelp =
     Command_Usage name args (trim_space longHelp)
       (map (\<lambda>(n, f). (n, fl_Usage f, if fl_DefValue f = [] then ''<none>'' else fl_DefValue f))
         (sort_key fst fs))"

definition global_flags :: "(string \<times> flag_value \<times> string) list" where
  "global_flags =
     [(''debug'', Bool_Flag False, ''Enable debug mode''),
      (''log-level'', String_Flag ''info'',
        ''Set the logging level (\"debug\"|\"info\"|\"warn\"|\"error\"|\"fatal\")''),
      (''http'', String_Flag [],
        ''Present the web based UI (tracing, metrics, expvar...) at the specified http host:port''),
      (''tracer'', String_Flag [], ''Set the tracer (\"basic\"|\"jaeger\")''),
      (''tracer-addr'', String_Flag ''localhost:6831'', ''Set the tracer address'')]"

text \<open>What the process needs: fractions of durations, the outputs of the logger, and the jaeger library.\<close>

record main_env =
  me_frac :: "int \<Rightarrow> nat \<Rightarrow> int \<Rightarrow> int"
  me_build :: "log_config \<Rightarrow> string option"
  me_sampled :: "log_entry \<Rightarrow> bool"
  me_tracer :: "string \<Rightarrow> jaeger_config \<Rightarrow> string option"

text \<open>The tracer of the flags: an unknown name, or how starting it ends.\<close>

definition start_tracer :: "main_env \<Rightarrow> logger \<Rightarrow> flag_set \<Rightarrow> string + log_entry list \<times> log_end" where
  "start_tracer me lg fs =
     (let tracer = string_flag fs ''tracer'' in
      if tracer = [] \<or> tracer = ''basic'' then Inr ([], Log_Returns)
      else if tracer = ''jaeger'' then
        Inr (newJaegerTracer (me_tracer me) (me_sampled me) (Some lg) (string_flag fs ''tracer-addr''))
      else Inl tracer)"

definition main_run ::
  "main_env \<Rightarrow> 'w command list \<Rightarrow> string list \<Rightarrow> 'w \<Rightarrow> (main_end \<times> 'w) run" where
  "main_run me cmds args w =
     (let (cmdName, printCommandHelp, exit) = parseArgs args in
      if exit then Ret (Exit errorExitCode [usage cmds], w)
      else case getCommandFromName cmdName cmds of
        None \<Rightarrow> Ret (Exit errorExitCode [No_Such_Command cmdName, usage cmds], w)
      | Some cmd \<Rightarrow>
          bind_run (define_flags (global_flags @ c_Register cmd) []) (\<lambda>fs0.
            let fs_usage = resetUsage fs0 cmdName (c_args cmd) (c_long cmd) in
            if printCommandHelp then Ret (Exit errorExitCode [fs_usage], w)
            else case parse_flags (me_frac me) fs0 (drop 2 args) of
              Inl e \<Rightarrow>
                Ret (Exit errorExitCode ((if e = Help_Requested then [] else [Flag_Refused e]) @ [fs_usage]), w)
            | Inr (fs, operands) \<Rightarrow>
                (case log_Init (me_build me) (string_flag fs ''log-level'') (bool_flag fs ''debug'') of
                   Inl e \<Rightarrow> Ret (Exit errorExitCode [Log_Refused e], w)
                 | Inr lg \<Rightarrow>
                     (case start_tracer me lg fs of
                        Inl tracer \<Rightarrow> Ret (Exit errorExitCode [Unrecognized_Tracer tracer], w)
                      | Inr (es, Log_Panics p) \<Rightarrow> Panics p
                      | Inr (es, Log_Exits code) \<Rightarrow> Ret (Exit code [Log_Output es], w)
                      | Inr (es, Log_Returns) \<Rightarrow>
                          map_run (\<lambda>(end, out, w1). (case end of
                              Waits_Forever \<Rightarrow> Never_Exits
                            | Returned (Some e) \<Rightarrow>
                                Exit errorExitCode (out @ (if e \<noteq> errSomethingWentWrong then [Print_Error e] else []))
                            | Returned None \<Rightarrow> Exit successExitCode out, w1)) (c_Run cmd fs operands w)))))"

subsection \<open>Exit codes\<close>

lemma getCommandFromName_iff:
  "distinct (map c_name cs) \<Longrightarrow> getCommandFromName name cs = Some c \<longleftrightarrow> c \<in> set cs \<and> c_name c = name"
  by (induction cs) (auto simp: image_iff)

lemma parseArgs_plain: "\<not> isHelpArg name \<Longrightarrow> parseArgs (prog # name # rest) = (name, False, False)"
  by (cases rest) (simp_all add: parseArgs_def)

lemma parseArgs_command:
  "parseArgs args = (name, False, False) \<Longrightarrow> \<exists>prog rest. args = prog # name # rest \<and> \<not> isHelpArg name"
  by (auto simp: parseArgs_def split: list.splits if_splits)

text \<open>What it takes for a command to be run, and the flags and operands it is run with.\<close>

definition process_ready :: "main_env \<Rightarrow> flag_set \<Rightarrow> bool" where
  "process_ready me fs \<longleftrightarrow>
     (\<exists>lg. log_Init (me_build me) (string_flag fs ''log-level'') (bool_flag fs ''debug'') = Inr lg) \<and>
     string_flag fs ''tracer'' \<in> {[], ''basic'', ''jaeger''} \<and>
     (string_flag fs ''tracer'' = ''jaeger'' \<longrightarrow>
        me_tracer me ''aragorn'' (jaeger_configuration (string_flag fs ''tracer-addr'')) = None)"

lemma process_ready_start:
  assumes "log_Init (me_build me) (string_flag fs ''log-level'') (bool_flag fs ''debug'') = Inr lg"
  shows "process_ready me fs \<Longrightarrow> start_tracer me lg fs = Inr ([], Log_Returns)"
    and "\<not> process_ready me fs \<Longrightarrow>
      (\<exists>t. start_tracer me lg fs = Inl t) \<or> (\<exists>es. start_tracer me lg fs = Inr (es, Log_Exits 1))"
  using assms
  by (auto simp: process_ready_def start_tracer_def newJaegerTracer_def log_Fatal_def log_at_def log_ending_def
      Let_def split: option.splits)

definition command_line ::
  "main_env \<Rightarrow> 'w command list \<Rightarrow> string list
    \<Rightarrow> 'w command \<Rightarrow> flag_set \<Rightarrow> string list \<Rightarrow> bool" where
  "command_line me cmds args cmd fs operands \<longleftrightarrow>
     (\<exists>prog name rest fs0. args = prog # name # rest \<and> \<not> isHelpArg name \<and>
        getCommandFromName name cmds = Some cmd \<and>
        define_flags (global_flags @ c_Register cmd) [] = Ret fs0 \<and>
        parse_flags (me_frac me) fs0 rest = Inr (fs, operands)) \<and>
     process_ready me fs"

lemma main_run_command:
  assumes "command_line me cmds args cmd fs operands"
  shows "main_run me cmds args w =
    map_run (\<lambda>(end, out, w1). (case end of
        Waits_Forever \<Rightarrow> Never_Exits
      | Returned (Some e) \<Rightarrow>
          Exit errorExitCode (out @ (if e \<noteq> errSomethingWentWrong then [Print_Error e] else []))
      | Returned None \<Rightarrow> Exit successExitCode out, w1)) (c_Run cmd fs operands w)"
proof -
  from assms obtain lg where
    "log_Init (me_build me) (string_flag fs ''log-level'') (bool_flag fs ''debug'') = Inr lg"
    by (auto simp: command_line_def process_ready_def)
  with process_ready_start(1) [OF this] assms show ?thesis
    by (auto simp: command_line_def main_run_def parseArgs_plain)
qed

lemma main_run_other:
  assumes "main_run me cmds args w = Ret (res, w')"
    and "\<not> (\<exists>cmd fs operands. command_line me cmds args cmd fs operands)"
  shows "w' = w \<and> (\<exists>out. res = Exit 1 out)"
proof -
  obtain name hlp ext where p: "parseArgs args = (name, hlp, ext)" by (metis prod_cases3)
  note run = assms(1) [unfolded main_run_def p Let_def prod.case]
  show ?thesis
  proof (cases "ext \<or> hlp \<or> getCommandFromName name cmds = None")
    case True
    with run show ?thesis
      by (auto simp: errorExitCode_def bind_run_Ret_iff split: if_splits option.splits)
  next
    case False
    with p parseArgs_command [of args name] obtain prog rest cmd where
      args: "args = prog # name # rest" "\<not> isHelpArg name" and cmd: "getCommandFromName name cmds = Some cmd"
      by auto
    with run False obtain fs0 where fs0: "define_flags (global_flags @ c_Register cmd) [] = Ret fs0"
      by (auto simp: bind_run_Ret_iff)
    show ?thesis
    proof (cases "parse_flags (me_frac me) fs0 rest")
      case (Inl e)
      with run False cmd fs0 args show ?thesis by (auto simp: errorExitCode_def)
    next
      case (Inr fo)
      obtain fs ops where fo: "fo = (fs, ops)" by fastforce
      with assms(2) args cmd fs0 Inr
      have busy: "\<not> process_ready me fs" unfolding command_line_def by blast
      show ?thesis
      proof (cases "log_Init (me_build me) (string_flag fs ''log-level'') (bool_flag fs ''debug'')")
        case (Inl e)
        with run False cmd fs0 args \<open>parse_flags (me_frac me) fs0 rest = Inr fo\<close> fo show ?thesis
          by (auto simp: errorExitCode_def)
      next
        case (Inr lg)
        with process_ready_start(2) [OF Inr busy] run False cmd fs0 args
          \<open>parse_flags (me_frac me) fs0 rest = Inr fo\<close> fo show ?thesis
          by (auto simp: errorExitCode_def)
      qed
    qed
  qed
qed

text \<open>
  C28: The exit code. A process that exits does so with 0 or 1, and with 0 exactly when its first argument
  is no request for help and names a command, the arguments that follow are flags it accepts and
  operands, the logger could be set up, with a known level unless in debug mode, the tracer is known and could
  be started, and the command returned without an error. Without
  such a command line nothing is done.
\<close>

theorem main_exit_code:
  assumes "main_run me cmds args w = Ret (Exit code out, w')"
  shows "(code = 0 \<or> code = 1) \<and>
    (code = 0 \<longleftrightarrow> (\<exists>cmd fs operands. command_line me cmds args cmd fs operands \<and>
       c_Run cmd fs operands w = Ret (Returned None, out, w'))) \<and>
    ((\<exists>cmd fs operands. command_line me cmds args cmd fs operands) \<or> w' = w)"
proof (cases "\<exists>cmd fs operands. command_line me cmds args cmd fs operands")
  case True
  then obtain cmd fs operands where line: "command_line me cmds args cmd fs operands" by blast
  moreover have "cmd' = cmd \<and> fs' = fs \<and> operands' = operands"
    if "command_line me cmds args cmd' fs' operands'" for cmd' fs' operands'
    using that line by (auto simp: command_line_def)
  moreover from assms main_run_command [OF line, of w] obtain res out' where
    res: "c_Run cmd fs operands w = Ret (res, out', w')"
    "(case res of
       Waits_Forever \<Rightarrow> Never_Exits
     | Returned (Some e) \<Rightarrow>
         Exit errorExitCode (out' @ (if e \<noteq> errSomethingWentWrong then [Print_Error e] else []))
     | Returned None \<Rightarrow> Exit successExitCode out') = Exit code out"
    by (auto simp: map_run_Ret_iff)
  then have "(code = 0 \<or> code = 1) \<and> (code = 0 \<longleftrightarrow> res = Returned None \<and> out = out')"
    by (auto simp: errorExitCode_def successExitCode_def split: cmd_end.splits option.splits)
  ultimately show ?thesis using res(1) by (metis Pair_inject run.inject(1))
next
  case False
  from main_run_other [OF assms False] False show ?thesis by auto
qed

definition demo_command :: "nat command" where
  "demo_command = \<lparr>c_name = ''count'', c_args = [], c_short = ''Count'', c_long = ''Count'', c_hidden = False,
     c_Register = [(''twice'', Bool_Flag False, ''Count twice'')],
     c_Run = (\<lambda>fs ops w. Ret (Returned None, [], if bool_flag fs ''twice'' then w + 2 else w + 1))\<rparr>"

definition demo_main :: main_env where
  "demo_main = \<lparr>me_frac = (\<lambda>_ _ _. 0), me_build = (\<lambda>_. None), me_sampled = (\<lambda>_. True), me_tracer = (\<lambda>_ _. None)\<rparr>"

lemma demo_main_ready:
  "me_frac demo_main = (\<lambda>_ _ _. 0)"
  "string_flag fs ''tracer'' = [] \<Longrightarrow> string_flag fs ''log-level'' = ''info'' \<Longrightarrow> process_ready demo_main fs"
  by (auto simp: demo_main_def process_ready_def log_Init_def UnmarshalText_def level_names_def Let_def)

theorem main_exit_code_witness:
  "\<exists>fs. parse_flags (me_frac demo_main) fs [''-twice''] \<noteq> Inl Help_Requested \<and>
     main_run demo_main [demo_command] [''aragorn'', ''count'', ''-twice''] 3 = Ret (Exit 0 [], 5)"
proof -
  have h: "\<not> isHelpArg ''count''"
    by (simp add: isHelpArg_def low_char_def is_upper_def)
  let ?defs = "global_flags @ c_Register demo_command"
  let ?fs0 = "map (\<lambda>(n, v, usage). (n, new_flag v usage)) ?defs"
  let ?x = "(False, ''twice'', ''true'', Bool_Flag True)"
  have fs0: "define_flags ?defs [] = Ret ?fs0"
    by (subst define_flags_distinct) (simp_all add: global_flags_def demo_command_def)
  have "list_all (setting_ok (me_frac demo_main) ?fs0) [?x]"
    by (auto simp: setting_ok_def global_flags_def demo_command_def new_flag_def set_value_def parse_bool_def)
  from parse_written [of _ _ ?x "[]"] this
  have parse: "parse_flags (me_frac demo_main) ?fs0 [''-twice''] = Inr (put_setting ?x ?fs0, [])"
    by (simp add: written_def parse_flags.simps [of _ _ "[]"])
  have "string_flag (put_setting ?x ?fs0) ''tracer'' = [] \<and> string_flag (put_setting ?x ?fs0) ''log-level'' = ''info'' \<and> bool_flag (put_setting ?x ?fs0) ''twice''"
    by (simp add: put_setting_def string_flag_def bool_flag_def map_of_put_flag global_flags_def
        demo_command_def new_flag_def)
  with parse obtain fs where fs: "parse_flags (me_frac demo_main) ?fs0 [''-twice''] = Inr (fs, [])"
    "string_flag fs ''tracer'' = []" "string_flag fs ''log-level'' = ''info''" "bool_flag fs ''twice''" by blast
  then have line: "command_line demo_main [demo_command] [''aragorn'', ''count'', ''-twice''] demo_command fs []"
    using h fs0 demo_main_ready(2) by (simp add: command_line_def demo_command_def)
  have run: "main_run demo_main [demo_command] [''aragorn'', ''count'', ''-twice''] 3 = Ret (Exit 0 [], 5)"
    unfolding main_run_command [OF line] using fs(4) by (simp add: demo_command_def successExitCode_def)
  from main_exit_code [OF run] fs(1) run show ?thesis by (intro exI [of _ ?fs0]) simp
qed

end
