(* ===== verification/Json_Codec.thy ===== *)
theory Json_Codec
  imports Json
begin

text \<open>
  \<open>encoding/json\<close> on \<open>interface{}\<close> values: \<open>json_decode\<close> is a \<open>Decoder\<close> with \<open>UseNumber\<close> reading
  one value (it stops at the end of the value and never looks at what follows it), \<open>json_encode\<close>
  is \<open>Marshal\<close>. The reader is a recursive descent; its fuel bounds the nesting depth and the
  number of elements, and \<open>json_decode_fuel\<close> shows that twice the length of the input plus one is
  always enough, so that \<open>None\<close> means an error of the decoder and never a lack of fuel.
\<close>

subsection \<open>UTF-8\<close>

abbreviation byte :: "char \<Rightarrow> nat" where
  "byte c \<equiv> of_char c"

definition is_cont :: "char \<Rightarrow> bool" where
  "is_cont c \<longleftrightarrow> 128 \<le> byte c \<and> byte c \<le> 191"

text \<open>The number of bytes of the well-formed sequence at the head of a non-empty string, if any.\<close>

fun utf8_len :: "string \<Rightarrow> nat option" where
  "utf8_len [] = None"
| "utf8_len (a # s) =
     (let n = byte a in
      if n < 128 then Some 1
      else if 194 \<le> n \<and> n \<le> 223 then
        (case s of b # _ \<Rightarrow> if is_cont b then Some 2 else None | [] \<Rightarrow> None)
      else if 224 \<le> n \<and> n \<le> 239 then
        (case s of
           b # c # _ \<Rightarrow>
             if is_cont b \<and> is_cont c \<and> (n = 224 \<longrightarrow> 160 \<le> byte b) \<and> (n = 237 \<longrightarrow> byte b \<le> 159)
             then Some 3 else None
         | _ \<Rightarrow> None)
      else if 240 \<le> n \<and> n \<le> 244 then
        (case s of
           b # c # d # _ \<Rightarrow>
             if is_cont b \<and> is_cont c \<and> is_cont d
               \<and> (n = 240 \<longrightarrow> 144 \<le> byte b) \<and> (n = 244 \<longrightarrow> byte b \<le> 143)
             then Some 4 else None
         | _ \<Rightarrow> None)
      else None)"

definition replacement :: string where
  "replacement = [char_of (239 :: nat), char_of (191 :: nat), char_of (189 :: nat)]"

definition encode_rune :: "nat \<Rightarrow> string" where
  "encode_rune r =
     (if r < 128 then [char_of r]
      else if r < 2048 then [char_of (192 + r div 64), char_of (128 + r mod 64)]
      else if 55296 \<le> r \<and> r \<le> 57343 \<or> 1114111 < r then replacement
      else if r < 65536 then
        [char_of (224 + r div 4096), char_of (128 + r div 64 mod 64), char_of (128 + r mod 64)]
      else
        [char_of (240 + r div 262144), char_of (128 + r div 4096 mod 64),
         char_of (128 + r div 64 mod 64), char_of (128 + r mod 64)])"

lemma utf8_len_bounds: "utf8_len s = Some n \<Longrightarrow> 0 < n \<and> n \<le> length s"
  by (cases s) (auto simp: Let_def split: if_splits list.splits)

lemma utf8_len_ascii [simp]: "byte a < 128 \<Longrightarrow> utf8_len (a # s) = Some 1"
  by simp

declare utf8_len.simps [simp del]

subsection \<open>Strings\<close>

definition hex_digit_val :: "char \<Rightarrow> nat option" where
  "hex_digit_val c =
     (if 48 \<le> byte c \<and> byte c \<le> 57 then Some (byte c - 48)
      else if 97 \<le> byte c \<and> byte c \<le> 102 then Some (byte c - 87)
      else if 65 \<le> byte c \<and> byte c \<le> 70 then Some (byte c - 55)
      else None)"

fun hex4 :: "string \<Rightarrow> (nat \<times> string) option" where
  "hex4 (a # b # c # d # s) =
     (case (hex_digit_val a, hex_digit_val b, hex_digit_val c, hex_digit_val d) of
        (Some w, Some x, Some y, Some z) \<Rightarrow> Some (((w * 16 + x) * 16 + y) * 16 + z, s)
      | _ \<Rightarrow> None)"
| "hex4 _ = None"

definition is_surrogate :: "nat \<Rightarrow> bool" where
  "is_surrogate r \<longleftrightarrow> 55296 \<le> r \<and> r \<le> 57343"

text \<open>The second half of a surrogate pair written as an escape, if it is there.\<close>

definition low_surrogate :: "nat \<Rightarrow> string \<Rightarrow> (nat \<times> string) option" where
  "low_surrogate r s =
     (if r \<le> 56319 then
        (case s of
           a # b # t \<Rightarrow>
             if a = CHR 0x5C \<and> b = CHR ''u'' then
               (case hex4 t of
                  Some (r', u) \<Rightarrow>
                    if 56320 \<le> r' \<and> r' \<le> 57343
                    then Some ((r - 55296) * 1024 + (r' - 56320) + 65536, u) else None
                | None \<Rightarrow> None)
             else None
         | _ \<Rightarrow> None)
      else None)"

definition simple_escape :: "char \<Rightarrow> char option" where
  "simple_escape c =
     (if c = CHR ''\"'' \<or> c = CHR 0x5C \<or> c = CHR ''/'' then Some c
      else if c = CHR ''b'' then Some (CHR 0x08)
      else if c = CHR ''f'' then Some (CHR 0x0C)
      else if c = CHR ''n'' then Some (CHR 0x0A)
      else if c = CHR ''r'' then Some (CHR 0x0D)
      else if c = CHR ''t'' then Some (CHR 0x09)
      else None)"

definition prepend :: "string \<Rightarrow> (string \<times> string) option \<Rightarrow> (string \<times> string) option" where
  "prepend p = map_option (\<lambda>(a, r). (p @ a, r))"

lemma hex4_length: "hex4 s = Some (r, t) \<Longrightarrow> length t < length s"
  by (cases s rule: hex4.cases) (auto split: option.splits)

lemma low_surrogate_length: "low_surrogate r s = Some (r', t) \<Longrightarrow> length t < length s"
  by (auto simp: low_surrogate_def dest!: hex4_length split: if_splits list.splits option.splits)

text \<open>
  One step through a string literal: the closing quote, or some source bytes and the text they
  stand for (an escape, a surrogate pair, one UTF-8 sequence; an invalid byte or half a surrogate
  pair becomes the replacement character).
\<close>

datatype lex = Lex_End string | Lex_Part string string

definition escape_step :: "string \<Rightarrow> lex option" where
  "escape_step t =
     (case t of
        [] \<Rightarrow> None
      | e # u \<Rightarrow>
          if e = CHR ''u'' then
            (case hex4 u of
               None \<Rightarrow> None
             | Some (r, v) \<Rightarrow>
                 if is_surrogate r then
                   (case low_surrogate r v of
                      Some (r', w) \<Rightarrow> Some (Lex_Part (encode_rune r') w)
                    | None \<Rightarrow> Some (Lex_Part replacement v))
                 else Some (Lex_Part (encode_rune r) v))
          else map_option (\<lambda>b. Lex_Part [b] u) (simple_escape e))"

definition string_step :: "string \<Rightarrow> lex option" where
  "string_step s =
     (case s of
        [] \<Rightarrow> None
      | c # t \<Rightarrow>
          if c = CHR ''\"'' then Some (Lex_End t)
          else if c = CHR 0x5C then escape_step t
          else if byte c < 32 then None
          else
            (case utf8_len s of
               Some n \<Rightarrow> Some (Lex_Part (take n s) (drop n s))
             | None \<Rightarrow> Some (Lex_Part replacement t)))"

lemma escape_step_length: "escape_step t = Some (Lex_Part p r) \<Longrightarrow> length r < length t"
  by (auto simp: escape_step_def dest!: hex4_length low_surrogate_length
      split: list.splits if_splits option.splits)

lemma escape_step_no_end: "escape_step t \<noteq> Some (Lex_End r)"
  by (auto simp: escape_step_def split: list.splits if_splits option.splits)

lemma string_step_length:
  "string_step s = Some (Lex_Part p r) \<Longrightarrow> length r < length s"
  "string_step s = Some (Lex_End r) \<Longrightarrow> length r < length s"
  using escape_step_no_end
  by (auto simp: string_step_def dest!: escape_step_length utf8_len_bounds
      split: list.splits if_splits option.splits)

text \<open>The rest of a string literal after its opening quote: the decoded text and what follows.\<close>

function p_chars :: "string \<Rightarrow> (string \<times> string) option" where
  "p_chars s =
     (case string_step s of
        None \<Rightarrow> None
      | Some (Lex_End r) \<Rightarrow> Some ([], r)
      | Some (Lex_Part p r) \<Rightarrow> prepend p (p_chars r))"
  by pat_completeness auto
termination
  by (relation "measure length") (auto dest: string_step_length)

declare p_chars.simps [simp del]

subsection \<open>Numbers\<close>

definition p_frac :: "string \<Rightarrow> (string \<times> string) option" where
  "p_frac s =
     (case s of
        c # t \<Rightarrow>
          if c = CHR ''.'' then
            (let ds = takeWhile is_digit t in
             if ds = [] then None else Some (c # ds, dropWhile is_digit t))
          else Some ([], s)
      | [] \<Rightarrow> Some ([], []))"

definition p_exp :: "string \<Rightarrow> (string \<times> string) option" where
  "p_exp s =
     (case s of
        c # t \<Rightarrow>
          if c = CHR ''e'' \<or> c = CHR ''E'' then
            (let sg = (case t of d # _ \<Rightarrow> if d = CHR ''+'' \<or> d = CHR ''-'' then [d] else [] | [] \<Rightarrow> []);
                 u = drop (length sg) t;
                 ds = takeWhile is_digit u
             in if ds = [] then None else Some (c # sg @ ds, dropWhile is_digit u))
          else Some ([], s)
      | [] \<Rightarrow> Some ([], []))"

definition p_int :: "string \<Rightarrow> (string \<times> string) option" where
  "p_int s =
     (case s of
        c # t \<Rightarrow>
          if c = CHR ''0'' then Some ([c], t)
          else if is_digit c then Some (takeWhile is_digit s, dropWhile is_digit s)
          else None
      | [] \<Rightarrow> None)"

definition p_number :: "string \<Rightarrow> (string \<times> string) option" where
  "p_number s =
     (let sg = (case s of d # _ \<Rightarrow> if d = CHR ''-'' then [d] else [] | [] \<Rightarrow> []) in
      case p_int (drop (length sg) s) of
        None \<Rightarrow> None
      | Some (i, r1) \<Rightarrow>
          (case p_frac r1 of
             None \<Rightarrow> None
           | Some (f, r2) \<Rightarrow>
               (case p_exp r2 of
                  None \<Rightarrow> None
                | Some (e, r3) \<Rightarrow> Some (sg @ i @ f @ e, r3))))"

subsection \<open>Values\<close>

definition is_space :: "char \<Rightarrow> bool" where
  "is_space c \<longleftrightarrow> c = CHR '' '' \<or> c = CHR 0x09 \<or> c = CHR 0x0A \<or> c = CHR 0x0D"

definition skip_ws :: "string \<Rightarrow> string" where
  "skip_ws s = dropWhile is_space s"

definition p_lit :: "string \<Rightarrow> json \<Rightarrow> string \<Rightarrow> (json \<times> string) option" where
  "p_lit w v s = (if has_prefix s w then Some (v, drop (length w) s) else None)"

definition put_all :: "(string \<times> json) list \<Rightarrow> (string \<times> json) list" where
  "put_all kvs = fold (\<lambda>(k, v). AList.update k v) kvs []"

text \<open>\<open>p_elems\<close> and \<open>p_members\<close> read the elements up to and including the closing bracket.\<close>

fun p_value :: "nat \<Rightarrow> string \<Rightarrow> (json \<times> string) option"
  and p_elems :: "nat \<Rightarrow> string \<Rightarrow> (json list \<times> string) option"
  and p_members :: "nat \<Rightarrow> string \<Rightarrow> ((string \<times> json) list \<times> string) option"
where
  "p_value 0 s = None"
| "p_value (Suc n) s =
     (case skip_ws s of
        [] \<Rightarrow> None
      | c # t \<Rightarrow>
          if c = CHR ''{'' then
            (case skip_ws t of
               [] \<Rightarrow> None
             | d # u \<Rightarrow>
                 if d = CHR ''}'' then Some (JObj [], u)
                 else map_option (\<lambda>(kvs, r). (JObj (put_all kvs), r)) (p_members n (d # u)))
          else if c = CHR ''['' then
            (case skip_ws t of
               [] \<Rightarrow> None
             | d # u \<Rightarrow>
                 if d = CHR '']'' then Some (JArr [], u)
                 else map_option (\<lambda>(vs, r). (JArr vs, r)) (p_elems n (d # u)))
          else if c = CHR ''\"'' then map_option (\<lambda>(a, r). (JStr a, r)) (p_chars t)
          else if c = CHR ''-'' \<or> is_digit c then
            map_option (\<lambda>(a, r). (JNum a, r)) (p_number (c # t))
          else if c = CHR ''t'' then p_lit ''true'' (JBool True) (c # t)
          else if c = CHR ''f'' then p_lit ''false'' (JBool False) (c # t)
          else if c = CHR ''n'' then p_lit ''null'' JNull (c # t)
          else None)"
| "p_elems 0 s = None"
| "p_elems (Suc n) s =
     (case p_value n s of
        None \<Rightarrow> None
      | Some (v, r) \<Rightarrow>
          (case skip_ws r of
             [] \<Rightarrow> None
           | d # u \<Rightarrow>
               if d = CHR '','' then map_option (\<lambda>(vs, r'). (v # vs, r')) (p_elems n u)
               else if d = CHR '']'' then Some ([v], u)
               else None))"
| "p_members 0 s = None"
| "p_members (Suc n) s =
     (case skip_ws s of
        [] \<Rightarrow> None
      | q # t \<Rightarrow>
          if q \<noteq> CHR ''\"'' then None
          else
            (case p_chars t of
               None \<Rightarrow> None
             | Some (k, r) \<Rightarrow>
                 (case skip_ws r of
                    [] \<Rightarrow> None
                  | d # u \<Rightarrow>
                      if d \<noteq> CHR '':'' then None
                      else
                        (case p_value n u of
                           None \<Rightarrow> None
                         | Some (v, r') \<Rightarrow>
                             (case skip_ws r' of
                                [] \<Rightarrow> None
                              | e # w \<Rightarrow>
                                  if e = CHR '','' then
                                    map_option (\<lambda>(kvs, r''). ((k, v) # kvs, r'')) (p_members n w)
                                  else if e = CHR ''}'' then Some ([(k, v)], w)
                                  else None)))))"

definition json_decode :: "string \<Rightarrow> json option" where
  "json_decode s = map_option fst (p_value (2 * length s + 1) s)"

subsection \<open>The reader consumes its input, and its fuel suffices\<close>

lemma prepend_Some: "prepend p m = Some (a, r) \<longleftrightarrow> (\<exists>b. m = Some (b, r) \<and> a = p @ b)"
  by (cases m) (auto simp: prepend_def)

lemma p_chars_length: "p_chars s = Some (a, r) \<Longrightarrow> length r < length s"
proof (induction s arbitrary: a rule: p_chars.induct)
  case (1 s)
  note eq = "1.prems" [unfolded p_chars.simps [of s]]
  show ?case
  proof (cases "string_step s")
    case None
    with eq show ?thesis by simp
  next
    case (Some l)
    show ?thesis
    proof (cases l)
      case (Lex_End t)
      with eq Some string_step_length(2) [of s t] show ?thesis by simp
    next
      case (Lex_Part q t)
      with eq Some obtain b where "p_chars t = Some (b, r)" by (auto simp: prepend_Some)
      with Some Lex_Part have "length r < length t" by (intro "1.IH") auto
      with Some Lex_Part string_step_length(1) [of s q t] show ?thesis by simp
    qed
  qed
qed

lemma skip_ws_length: "length (skip_ws s) \<le> length s"
  by (simp add: skip_ws_def length_dropWhile_le)

lemma skip_ws_Cons: "skip_ws s = c # t \<Longrightarrow> length t < length s"
  using skip_ws_length [of s] by simp

lemma dropWhile_length_less: "takeWhile P s \<noteq> [] \<Longrightarrow> length (dropWhile P s) < length s"
  by (cases s) (auto simp: le_imp_less_Suc length_dropWhile_le split: if_splits)

lemma p_frac_length: "p_frac s = Some (a, r) \<Longrightarrow> length r \<le> length s"
  using length_dropWhile_le [of is_digit]
  by (auto simp: p_frac_def Let_def le_SucI split: list.splits if_splits)

lemma p_exp_length: "p_exp s = Some (a, r) \<Longrightarrow> length r \<le> length s"
  using length_dropWhile_le [of is_digit]
  by (auto simp: p_exp_def Let_def le_SucI split: list.splits if_splits)

lemma p_int_length: "p_int s = Some (a, r) \<Longrightarrow> length r < length s"
  by (auto simp: p_int_def le_imp_less_Suc length_dropWhile_le split: list.splits if_splits)

lemma p_number_length: "p_number s = Some (a, r) \<Longrightarrow> length r < length s"
  by (fastforce simp: p_number_def Let_def
      dest!: p_int_length p_frac_length p_exp_length
      split: list.splits if_splits option.splits)

lemma p_lit_length: "w \<noteq> [] \<Longrightarrow> p_lit w v s = Some (v', r) \<Longrightarrow> length r < length s"
  by (cases s) (auto simp: p_lit_def has_prefix_def split: if_splits)

lemma p_value_length_step:
  assumes eq: "p_value (Suc n) s = Some (v, r)"
    and elems: "\<And>s vs r. p_elems n s = Some (vs, r) \<Longrightarrow> length r < length s"
    and members: "\<And>s kvs r. p_members n s = Some (kvs, r) \<Longrightarrow> length r < length s"
  shows "length r < length s"
proof -
  from eq obtain c t where ct: "skip_ws s = c # t" by (auto split: list.splits)
  then have le: "length (c # t) \<le> length s" using skip_ws_length [of s] by simp
  have "length r < length (c # t)"
    using eq ct skip_ws_length [of t]
    by (auto split: list.splits if_splits
        dest!: elems members p_chars_length p_number_length p_lit_length [rotated])
  with le show ?thesis by simp
qed

lemma p_length:
  "p_value n s = Some (v, r) \<Longrightarrow> length r < length s"
  "p_elems n s = Some (vs, r) \<Longrightarrow> length r < length s"
  "p_members n s = Some (kvs, r) \<Longrightarrow> length r < length s"
proof (induction n arbitrary: s v r vs kvs)
  case 0
  { case 1 then show ?case by simp }
  { case 2 then show ?case by simp }
  { case 3 then show ?case by simp }
next
  case (Suc n)
  { case 1
    then show ?case using Suc.IH(2,3) by (rule p_value_length_step) }
  { case 2
    then show ?case
      by (fastforce split: list.splits if_splits option.splits dest!: Suc.IH skip_ws_Cons) }
  { case 3
    then show ?case
      by (fastforce split: list.splits if_splits option.splits
          dest!: Suc.IH skip_ws_Cons p_chars_length) }
qed

lemma p_fuel:
  "2 * length s + 1 \<le> n \<Longrightarrow> p_value (Suc n) s = p_value n s"
  "2 * length s + 2 \<le> n \<Longrightarrow> p_elems (Suc n) s = p_elems n s"
  "2 * length s + 2 \<le> n \<Longrightarrow> p_members (Suc n) s = p_members n s"
proof (induction n arbitrary: s)
  case 0
  { case 1 then show ?case by simp }
  { case 2 then show ?case by simp }
  { case 3 then show ?case by simp }
next
  case (Suc n)
  { case 1
    have "p_elems (Suc n) (d # u) = p_elems n (d # u)"
      and "p_members (Suc n) (d # u) = p_members n (d # u)"
      if "skip_ws s = c # t" and "skip_ws t = d # u" for c t d u
      using that 1 Suc.IH(2,3) [of "d # u"] skip_ws_length [of s] skip_ws_length [of t] by auto
    then show ?case
      by (subst (1 2) p_value.simps) (auto split: list.splits) }
  { case 2
    have "p_elems (Suc n) u = p_elems n u"
      if "p_value n s = Some (v, r)" and "skip_ws r = d # u" for v r d u
      using 2 Suc.IH(2) [of u] p_length(1) [OF that(1)] skip_ws_Cons [OF that(2)] by auto
    moreover have "p_value (Suc n) s = p_value n s" using 2 Suc.IH(1) [of s] by simp
    ultimately show ?case
      by (subst (1 2) p_elems.simps) (auto split: list.splits option.splits) }
  { case 3
    have "p_value (Suc n) u = p_value n u"
      if "skip_ws s = q # t" and "p_chars t = Some (k, r)" and "skip_ws r = d # u" for q t k r d u
      using 3 Suc.IH(1) [of u] skip_ws_Cons [OF that(1)] p_chars_length [OF that(2)]
        skip_ws_Cons [OF that(3)] by auto
    moreover have "p_members (Suc n) w = p_members n w"
      if "skip_ws s = q # t" and "p_chars t = Some (k, r)" and "skip_ws r = d # u"
        and "p_value n u = Some (v, r')" and "skip_ws r' = e # w" for q t k r d u v r' e w
      using 3 Suc.IH(3) [of w] skip_ws_Cons [OF that(1)] p_chars_length [OF that(2)]
        skip_ws_Cons [OF that(3)] p_length(1) [OF that(4)] skip_ws_Cons [OF that(5)] by auto
    ultimately show ?case
      by (subst (1 2) p_members.simps) (auto split: list.splits option.splits) }
qed

theorem json_decode_fuel:
  assumes "2 * length s + 1 \<le> n"
  shows "map_option fst (p_value n s) = json_decode s"
proof -
  have "p_value (2 * length s + 1 + k) s = p_value (2 * length s + 1) s" for k
    by (induction k) (use p_fuel(1) in auto)
  from this [of "n - (2 * length s + 1)"] assms show ?thesis
    by (simp add: json_decode_def)
qed

subsection \<open>Decoded values are well-formed\<close>

lemma wf_put_all:
  assumes "\<forall>kv \<in> set kvs. wf_json (snd kv)"
  shows "wf_json (JObj (put_all kvs))"
proof -
  have "wf_map (fold (\<lambda>(k, v). AList.update k v) kvs m) \<and>
      (\<forall>kv \<in> set (fold (\<lambda>(k, v). AList.update k v) kvs m). wf_json (snd kv))"
    if "wf_map m" and "\<forall>kv \<in> set m. wf_json (snd kv)" for m
    using assms that
  proof (induction kvs arbitrary: m)
    case (Cons kv kvs)
    have "set (AList.update (fst kv) (snd kv) m) \<subseteq> insert kv (set m)"
      using set_update_subset [of "fst kv" "snd kv" m] by simp
    with Cons.prems have "\<forall>kv' \<in> set (AList.update (fst kv) (snd kv) m). wf_json (snd kv')"
      by auto
    with Cons.IH [of "AList.update (fst kv) (snd kv) m"] Cons.prems show ?case
      by (simp add: case_prod_beta)
  qed auto
  from this [of "[]"] show ?thesis by (simp add: put_all_def list_all_iff)
qed

lemma p_wf:
  "p_value n s = Some (v, r) \<Longrightarrow> wf_json v"
  "p_elems n s = Some (vs, r) \<Longrightarrow> \<forall>v \<in> set vs. wf_json v"
  "p_members n s = Some (kvs, r) \<Longrightarrow> \<forall>kv \<in> set kvs. wf_json (snd kv)"
proof (induction n arbitrary: s v r vs kvs)
  case 0
  { case 1 then show ?case by simp }
  { case 2 then show ?case by simp }
  { case 3 then show ?case by simp }
next
  case (Suc n)
  { case 1
    then show ?case
      by (auto simp: list_all_iff p_lit_def split: list.splits if_splits
          dest!: Suc.IH intro!: wf_put_all [simplified]) }
  { case 2
    then show ?case
      by (fastforce split: list.splits if_splits option.splits dest: Suc.IH) }
  { case 3
    then show ?case
      by (fastforce split: list.splits if_splits option.splits dest: Suc.IH) }
qed

theorem json_decode_wf: "json_decode s = Some v \<Longrightarrow> wf_json v"
  unfolding json_decode_def by (metis (no_types) map_option_eq_Some p_wf(1) prod.collapse)

end
