(* ===== verification/Json_Encode.thy ===== *)
theory Json_Encode
  imports Json_Codec
begin

text \<open>
  \<open>json.Marshal\<close> on decoded values, with the default HTML escaping, and the round trip through the
  decoder: what \<open>json_decode\<close> reads back from \<open>json_marshal v\<close> is \<open>json_equal\<close> to \<open>v\<close>, for every
  well-formed \<open>v\<close> whose strings are valid UTF-8 and whose numbers are JSON numbers. On any string
  the round trip is \<open>sanitize\<close>, which replaces the invalid bytes.
\<close>

subsection \<open>Strings\<close>

definition hex_lower :: "nat \<Rightarrow> char" where
  "hex_lower n = (if n < 10 then char_of (48 + n) else char_of (87 + n))"

definition bs_u :: "string" where
  "bs_u = [CHR 0x5C, CHR ''u'']"

definition enc_ascii :: "char \<Rightarrow> string" where
  "enc_ascii c =
     (if c = CHR ''\"'' \<or> c = CHR 0x5C then [CHR 0x5C, c]
      else if c = CHR 0x0A then [CHR 0x5C, CHR ''n'']
      else if c = CHR 0x0D then [CHR 0x5C, CHR ''r'']
      else if c = CHR 0x09 then [CHR 0x5C, CHR ''t'']
      else if byte c < 32 \<or> c = CHR ''<'' \<or> c = CHR ''>'' \<or> c = CHR ''&'' then
        bs_u @ ''00'' @ [hex_lower (byte c div 16), hex_lower (byte c mod 16)]
      else [c])"

text \<open>The line separators U+2028 and U+2029 are escaped, every other sequence is copied.\<close>

definition enc_seq :: "string \<Rightarrow> string" where
  "enc_seq p =
     (if p = encode_rune 8232 then bs_u @ ''2028''
      else if p = encode_rune 8233 then bs_u @ ''2029''
      else p)"

function enc_chars :: "string \<Rightarrow> string" where
  "enc_chars s =
     (case s of
        [] \<Rightarrow> []
      | c # t \<Rightarrow>
          if byte c < 128 then enc_ascii c @ enc_chars t
          else
            (case utf8_len s of
               None \<Rightarrow> bs_u @ ''fffd'' @ enc_chars t
             | Some n \<Rightarrow> enc_seq (take n s) @ enc_chars (drop n s)))"
  by pat_completeness auto
termination
  by (relation "measure length") (auto dest: utf8_len_bounds)

declare enc_chars.simps [simp del]

definition enc_string :: "string \<Rightarrow> string" where
  "enc_string s = [CHR ''\"''] @ enc_chars s @ [CHR ''\"'']"

text \<open>Invalid bytes replaced by the replacement character.\<close>

function sanitize :: "string \<Rightarrow> string" where
  "sanitize s =
     (case s of
        [] \<Rightarrow> []
      | c # t \<Rightarrow>
          (case utf8_len s of
             None \<Rightarrow> replacement @ sanitize t
           | Some n \<Rightarrow> take n s @ sanitize (drop n s)))"
  by pat_completeness auto
termination
  by (relation "measure length") (auto dest: utf8_len_bounds)

declare sanitize.simps [simp del]

lemma hex_lower_val: "n < 16 \<Longrightarrow> hex_digit_val (hex_lower n) = Some n"
  by (auto simp: hex_digit_val_def hex_lower_def)

lemma hex_digit_val_0: "hex_digit_val (CHR ''0'') = Some 0"
  by (simp add: hex_digit_val_def)

lemma utf8_len_take:
  assumes "utf8_len s = Some n"
  shows "utf8_len (take n s @ r) = Some n"
  using assms
  by (cases s)
    (auto simp: utf8_len.simps Let_def numeral_2_eq_2 numeral_3_eq_3 numeral_eq_Suc
      split: if_splits list.splits)

lemma utf8_len_high: "utf8_len (c # t) = Some n \<Longrightarrow> \<not> byte c < 128 \<Longrightarrow> 2 \<le> n"
  by (auto simp: utf8_len.simps Let_def split: if_splits list.splits)

lemma string_step_utf8:
  "utf8_len (p @ q) = Some (length p) \<Longrightarrow> p \<noteq> [] \<Longrightarrow> \<not> byte (hd p) < 128 \<Longrightarrow>
    string_step (p @ q) = Some (Lex_Part p q)"
  by (cases p) (auto simp: string_step_def)

lemma bs_u_step:
  "hex4 (w @ r) = Some (n, r) \<Longrightarrow> \<not> is_surrogate n \<Longrightarrow>
    string_step (bs_u @ w @ r) = Some (Lex_Part (encode_rune n) r)"
  by (simp add: bs_u_def string_step_def escape_step_def)

lemma enc_seq_step:
  assumes "utf8_len s = Some n" and "\<not> byte (hd s) < 128"
  shows "string_step (enc_seq (take n s) @ q) = Some (Lex_Part (take n s) q)"
proof -
  have "string_step (bs_u @ ''2028'' @ q) = Some (Lex_Part (encode_rune 8232) q)"
    and "string_step (bs_u @ ''2029'' @ q) = Some (Lex_Part (encode_rune 8233) q)"
    by (subst bs_u_step; simp add: hex_digit_val_def is_surrogate_def)+
  moreover have "string_step (take n s @ q) = Some (Lex_Part (take n s) q)"
    using assms utf8_len_take [OF assms(1), of q] utf8_len_bounds [OF assms(1)]
    by (intro string_step_utf8) (auto simp: min_absorb2 hd_take)
  ultimately show ?thesis by (simp add: enc_seq_def)
qed

lemma enc_ascii_step:
  assumes "byte c < 128"
  shows "string_step (enc_ascii c @ r) = Some (Lex_Part [c] r)"
proof (cases "byte c < 32 \<or> c = CHR ''<'' \<or> c = CHR ''>'' \<or> c = CHR ''&''")
  case True
  show ?thesis
  proof (cases "c = CHR 0x0A \<or> c = CHR 0x0D \<or> c = CHR 0x09")
    case True
    then show ?thesis
      by (auto simp: enc_ascii_def string_step_def escape_step_def simple_escape_def)
  next
    case False
    with True have enc: "enc_ascii c =
        bs_u @ ''00'' @ [hex_lower (byte c div 16), hex_lower (byte c mod 16)]"
      by (auto simp: enc_ascii_def)
    have "byte c div 16 < 16" and "byte c mod 16 < 16"
      using assms by linarith+
    then have "hex4 ((''00'' @ [hex_lower (byte c div 16), hex_lower (byte c mod 16)]) @ r) =
        Some (byte c, r)"
      by (simp add: hex_lower_val hex_digit_val_0)
    from bs_u_step [OF this] assms show ?thesis
      by (simp add: enc is_surrogate_def encode_rune_def)
  qed
next
  case False
  with assms show ?thesis
    by (auto simp: enc_ascii_def string_step_def escape_step_def simple_escape_def)
qed

lemma p_chars_part: "string_step s = Some (Lex_Part p r) \<Longrightarrow> p_chars s = prepend p (p_chars r)"
  by (subst p_chars.simps) simp

lemma p_chars_enc: "p_chars (enc_chars s @ CHR ''\"'' # r) = Some (sanitize s, r)"
proof (induction s rule: enc_chars.induct)
  case (1 s)
  show ?case
  proof (cases s)
    case Nil
    then show ?thesis
      by (simp add: enc_chars.simps [of "[]"] sanitize.simps [of "[]"] string_step_def
          p_chars.simps [of "CHR ''\"'' # r"])
  next
    case (Cons c t)
    show ?thesis
    proof (cases "byte c < 128")
      case True
      with 1 Cons have "p_chars (enc_chars t @ CHR ''\"'' # r) = Some (sanitize t, r)" by simp
      with True Cons show ?thesis
        by (simp add: enc_chars.simps [of "c # t"] sanitize.simps [of "c # t"] prepend_def
            p_chars_part [OF enc_ascii_step])
    next
      case high: False
      show ?thesis
      proof (cases "utf8_len s")
        case None
        with 1 Cons high have IH: "p_chars (enc_chars t @ CHR ''\"'' # r) = Some (sanitize t, r)"
          by simp
        have "string_step (bs_u @ ''fffd'' @ q) = Some (Lex_Part replacement q)" for q
          by (subst bs_u_step [where n = 65533])
            (simp_all add: hex_digit_val_def is_surrogate_def encode_rune_def replacement_def)
        from p_chars_part [OF this] IH None high Cons show ?thesis
          by (simp add: enc_chars.simps [of "c # t"] sanitize.simps [of "c # t"] prepend_def)
      next
        case (Some n)
        from 1 Cons high Some
        have IH: "p_chars (enc_chars (drop n s) @ CHR ''\"'' # r) = Some (sanitize (drop n s), r)"
          by simp
        have "string_step (enc_seq (take n s) @ q) = Some (Lex_Part (take n s) q)" for q
          using Some high Cons by (intro enc_seq_step) simp_all
        from p_chars_part [OF this] IH Some high Cons show ?thesis
          by (simp add: enc_chars.simps [of "c # t"] sanitize.simps [of "c # t"] prepend_def)
      qed
    qed
  qed
qed

subsection \<open>Values\<close>

definition valid_number :: "string \<Rightarrow> bool" where
  "valid_number s \<longleftrightarrow> p_number s = Some (s, [])"

text \<open>
  The members of an object are written in the order of their keys when the value is a map (\<open>srt\<close>),
  and as they stand when the value comes from the fields of a struct.
\<close>

definition in_order :: "bool \<Rightarrow> (string \<times> 'a) list \<Rightarrow> (string \<times> 'a) list" where
  "in_order srt kvs = (if srt then sort_key fst kvs else kvs)"

text \<open>
  A value is written with a layout: white space before each element and before the closing bracket, by
  the depth, and white space after a colon. \<open>Marshal\<close> is compact, an encoder with an indent of two
  blanks is not. Empty arrays and objects have no white space.
\<close>

type_synonym layout = "(nat \<Rightarrow> string) \<times> string"

definition compact :: layout where
  "compact = (\<lambda>_. [], [])"

lemma compact_simps [simp]: "fst compact d = []" "snd compact = []"
  by (simp_all add: compact_def)

definition indented :: layout where
  "indented = (\<lambda>d. CHR 0x0A # concat (replicate d ''  ''), '' '')"

fun json_layout :: "layout \<Rightarrow> bool \<Rightarrow> nat \<Rightarrow> json \<Rightarrow> string" where
  "json_layout L srt d JNull = ''null''"
| "json_layout L srt d (JBool b) = (if b then ''true'' else ''false'')"
| "json_layout L srt d (JNum s) = (if s = [] then ''0'' else s)"
| "json_layout L srt d (JStr s) = enc_string s"
| "json_layout L srt d (JArr vs) =
     (if vs = [] then ''[]''
      else ''['' @ fst L (Suc d) @ join_with ('','' @ fst L (Suc d)) (map (json_layout L srt (Suc d)) vs) @
        fst L d @ '']'')"
| "json_layout L srt d (JObj kvs) =
     (if kvs = [] then ''{}''
      else ''{'' @ fst L (Suc d) @ join_with ('','' @ fst L (Suc d))
          (map (\<lambda>kv. enc_string (fst kv) @ '':'' @ snd L @ snd kv)
            (in_order srt (map (\<lambda>kv. (fst kv, json_layout L srt (Suc d) (snd kv))) kvs))) @
        fst L d @ ''}'')"

abbreviation json_text :: "bool \<Rightarrow> json \<Rightarrow> string" where
  "json_text srt \<equiv> json_layout compact srt 0"

abbreviation json_encode :: "json \<Rightarrow> string" where
  "json_encode \<equiv> json_text True"

fun numbers_valid :: "json \<Rightarrow> bool" where
  "numbers_valid (JNum s) = (s = [] \<or> valid_number s)"
| "numbers_valid (JArr vs) = list_all numbers_valid vs"
| "numbers_valid (JObj kvs) = list_all (\<lambda>kv. numbers_valid (snd kv)) kvs"
| "numbers_valid _ = True"

text \<open>\<open>Marshal\<close> fails only on a \<open>json.Number\<close> that is no JSON number.\<close>

definition json_marshal :: "json \<Rightarrow> string option" where
  "json_marshal v = (if numbers_valid v then Some (json_encode v) else None)"

subsection \<open>The round trip\<close>

text \<open>What a value reads back as: numbers keep their text, objects are in the order of their keys.\<close>

fun json_read :: "bool \<Rightarrow> json \<Rightarrow> json" where
  "json_read srt (JNum s) = JNum (if s = [] then ''0'' else s)"
| "json_read srt (JArr vs) = JArr (map (json_read srt) vs)"
| "json_read srt (JObj kvs) = JObj (in_order srt (map (\<lambda>kv. (fst kv, json_read srt (snd kv))) kvs))"
| "json_read srt v = v"

abbreviation json_norm :: "json \<Rightarrow> json" where
  "json_norm \<equiv> json_read True"

fun strings_valid :: "json \<Rightarrow> bool" where
  "strings_valid (JStr s) = (sanitize s = s)"
| "strings_valid (JArr vs) = list_all strings_valid vs"
| "strings_valid (JObj kvs) =
     list_all (\<lambda>kv. sanitize (fst kv) = fst kv \<and> strings_valid (snd kv)) kvs"
| "strings_valid _ = True"

text \<open>What may follow a value inside a document.\<close>

definition stop :: "string \<Rightarrow> bool" where
  "stop r \<longleftrightarrow> r = [] \<or> hd r \<in> set '',]}'' \<or> is_space (hd r)"

definition blank :: "layout \<Rightarrow> bool" where
  "blank L \<longleftrightarrow> (\<forall>d. list_all is_space (fst L d)) \<and> list_all is_space (snd L)"

lemma blank_layouts [simp]: "blank compact" "blank indented"
  by (auto simp: blank_def compact_def indented_def is_space_def list_all_iff)

lemma is_space_punctuation [simp]:
  "\<not> is_space CHR '',''" "\<not> is_space CHR '']''" "\<not> is_space CHR ''}''" "\<not> is_space CHR '':''"
  "\<not> is_space CHR ''['' " "\<not> is_space CHR ''{''" "\<not> is_space CHR ''\"''"
  by (simp_all add: is_space_def)

lemma skip_ws_blank: "list_all is_space w \<Longrightarrow> skip_ws (w @ s) = skip_ws s"
  by (induction w) (simp_all add: skip_ws_def)

lemma stop_blank: "list_all is_space w \<Longrightarrow> stop s \<Longrightarrow> stop (w @ s)"
  by (cases w) (auto simp: stop_def)

lemma skip_ws_id: "\<not> is_space c \<Longrightarrow> skip_ws (c # t) = c # t"
  by (simp add: skip_ws_def)

lemma digits_append:
  assumes "stop r"
  shows "takeWhile is_digit (s @ r) = takeWhile is_digit s"
    and "dropWhile is_digit (s @ r) = dropWhile is_digit s @ r"
proof -
  have "takeWhile is_digit r = [] \<and> dropWhile is_digit r = r"
    using assms by (cases r) (auto simp: stop_def is_digit_def is_space_def)
  then show "takeWhile is_digit (s @ r) = takeWhile is_digit s"
    and "dropWhile is_digit (s @ r) = dropWhile is_digit s @ r"
    by (induction s) auto
qed

lemma p_int_append: "p_int s = Some (a, b) \<Longrightarrow> stop r \<Longrightarrow> p_int (s @ r) = Some (a, b @ r)"
  by (cases s) (auto simp: p_int_def digits_append [where s = "_ # _", simplified] digits_append
      split: if_splits)

lemma p_frac_append:
  assumes "p_frac s = Some (a, b)" and "stop r"
  shows "p_frac (s @ r) = Some (a, b @ r)"
proof (cases s)
  case Nil
  with assms show ?thesis by (cases r) (auto simp: p_frac_def stop_def is_space_def)
next
  case (Cons c t)
  with assms show ?thesis
    by (auto simp: p_frac_def Let_def digits_append split: if_splits)
qed

lemma p_exp_append:
  assumes "p_exp s = Some (a, b)" and "stop r"
  shows "p_exp (s @ r) = Some (a, b @ r)"
proof (cases s)
  case Nil
  with assms show ?thesis by (cases r) (auto simp: p_exp_def stop_def is_space_def)
next
  case (Cons c t)
  with assms show ?thesis
    by (cases t) (auto simp: p_exp_def Let_def digits_append split: if_splits)
qed

lemma p_number_append:
  assumes "p_number s = Some (a, b)" and "stop r"
  shows "p_number (s @ r) = Some (a, b @ r)"
proof -
  let ?sg = "case s of d # _ \<Rightarrow> if d = CHR ''-'' then [d] else [] | [] \<Rightarrow> []"
  from assms obtain i r1 f r2 e where
    i: "p_int (drop (length ?sg) s) = Some (i, r1)" and f: "p_frac r1 = Some (f, r2)"
    and e: "p_exp r2 = Some (e, b)" and a: "a = ?sg @ i @ f @ e"
    by (auto simp: p_number_def Let_def split: option.splits)
  have ne: "s \<noteq> []" using i by (auto simp: p_int_def)
  then have "drop (length ?sg) (s @ r) = drop (length ?sg) s @ r"
    and "(case s @ r of d # _ \<Rightarrow> if d = CHR ''-'' then [d] else [] | [] \<Rightarrow> []) = ?sg"
    by (cases s; simp)+
  then show ?thesis
    using p_int_append [OF i assms(2)] p_frac_append [OF f assms(2)] p_exp_append [OF e assms(2)] a
    by (simp add: p_number_def Let_def)
qed

text \<open>Whole numbers are JSON numbers.\<close>

lemma nat_digits_hd_nonzero: "0 < n \<Longrightarrow> hd (nat_digits n) \<noteq> CHR ''0''"
proof (induction n rule: nat_digits.induct)
  case (1 n)
  show ?case
  proof (cases "n < 10")
    case True
    then have "digit_val (hd (nat_digits n)) = n" by (simp add: nat_digits.simps [of n])
    moreover have "digit_val (CHR ''0'') = 0" by (simp add: digit_val_def)
    ultimately show ?thesis using 1(2) by auto
  next
    case False
    with 1 show ?thesis by (simp add: nat_digits.simps [of n])
  qed
qed

lemma p_int_digits: "p_int (nat_digits n) = Some (nat_digits n, [])"
proof (cases "n = 0")
  case True
  then show ?thesis by (simp add: nat_digits.simps [of 0] digit_char_def p_int_def is_digit_def)
next
  case False
  obtain c t where ct: "nat_digits n = c # t" by (cases "nat_digits n") auto
  have "\<forall>c \<in> set (nat_digits n). is_digit c" by (simp add: nat_digits_digits)
  with nat_digits_hd_nonzero [of n] False show ?thesis by (simp add: p_int_def ct)
qed

lemma valid_number_itoa: "valid_number (itoa i)"
proof -
  have digits: "p_number (nat_digits n) = Some (nat_digits n, [])" for n
    using hd_nat_digits(1) [of n] p_int_digits [of n]
    by (cases "nat_digits n") (simp_all add: p_number_def p_frac_def p_exp_def)
  moreover have "p_number (CHR ''-'' # nat_digits n) = Some (CHR ''-'' # nat_digits n, [])" for n
    by (simp add: p_number_def p_int_digits p_frac_def p_exp_def)
  ultimately show ?thesis by (simp add: valid_number_def itoa_def)
qed

lemma itoa_not_Nil [simp]: "itoa i \<noteq> []"
  by (simp add: itoa_def)

lemma valid_number_hd:
  assumes "valid_number s"
  obtains c t where "s = c # t" and "c = CHR ''-'' \<or> is_digit c"
  using assms
  by (cases s) (auto simp: valid_number_def p_number_def p_int_def Let_def is_digit_def
      split: if_splits)

lemma map_insort_key:
  "map g (insort_key (\<lambda>a. f (g a)) x xs) = insort_key f (g x) (map g xs)"
  by (induction xs) auto

lemma map_sort_key: "map g (sort_key (\<lambda>a. f (g a)) xs) = sort_key f (map g xs)"
  by (induction xs) (simp_all add: map_insort_key)

lemma sort_key_map_snd:
  "sort_key fst (map (\<lambda>kv. (fst kv, h (snd kv))) kvs) =
   map (\<lambda>kv. (fst kv, h (snd kv))) (sort_key fst kvs)"
  using map_sort_key [of "\<lambda>kv. (fst kv, h (snd kv))" fst kvs] by simp

lemma in_order_map_snd:
  "in_order srt (map (\<lambda>kv. (fst kv, h (snd kv))) kvs) =
   map (\<lambda>kv. (fst kv, h (snd kv))) (in_order srt kvs)"
  by (simp add: in_order_def sort_key_map_snd)

lemma set_in_order [simp]: "set (in_order srt kvs) = set kvs"
  by (simp add: in_order_def)

lemma in_order_Nil [simp]: "in_order srt [] = []" "in_order srt kvs = [] \<longleftrightarrow> kvs = []"
  by (simp_all flip: set_empty)

lemma put_all_distinct:
  assumes "wf_map kvs"
  shows "put_all kvs = kvs"
proof -
  have "fold (\<lambda>(k, v). AList.update k v) kvs m = m @ kvs" if "wf_map (m @ kvs)" for m
    using that
  proof (induction kvs arbitrary: m)
    case (Cons kv kvs)
    then have "AList.update (fst kv) (snd kv) m = m @ [kv]"
      by (simp add: update_new wf_map_def)
    with Cons show ?case by (simp add: case_prod_beta wf_map_def)
  qed simp
  from this [of "[]"] assms show ?thesis by (simp add: put_all_def)
qed

lemma wf_map_in_order: "wf_map (in_order srt kvs) \<longleftrightarrow> wf_map kvs"
  by (simp add: wf_map_def distinct_map inj_on_def in_order_def)

lemma hd_json_layout:
  assumes "numbers_valid v"
  shows "\<exists>c t. json_layout L srt d v = c # t \<and> \<not> is_space c \<and> c \<notin> set '',]}:''"
proof (cases v)
  case (JNum s)
  show ?thesis
  proof (cases "s = []")
    case False
    with assms JNum have "valid_number s" by simp
    then show ?thesis
      by (rule valid_number_hd) (auto simp: JNum is_space_def is_digit_def)
  qed (simp add: JNum is_space_def)
qed (auto simp: enc_string_def is_space_def)

text \<open>
  \<open>reads L srt d v\<close>: whatever follows the encoding of \<open>v\<close> at depth \<open>d\<close>, the reader finds \<open>json_read srt v\<close>
  and stops there.
\<close>

definition reads :: "layout \<Rightarrow> bool \<Rightarrow> nat \<Rightarrow> json \<Rightarrow> bool" where
  "reads L srt d v \<longleftrightarrow>
     (\<forall>r n. stop r \<longrightarrow> 2 * length (json_layout L srt d v @ r) + 1 \<le> n \<longrightarrow>
        p_value n (json_layout L srt d v @ r) = Some (json_read srt v, r))"

lemma readsD:
  "reads L srt d v \<Longrightarrow> stop r \<Longrightarrow> 2 * length (json_layout L srt d v @ r) + 1 \<le> n \<Longrightarrow>
    p_value n (json_layout L srt d v @ r) = Some (json_read srt v, r)"
  by (auto simp: reads_def)

lemma p_value_blank: "list_all is_space w \<Longrightarrow> p_value n (w @ s) = p_value n s"
  by (cases n) (simp_all add: skip_ws_blank)

lemma readsD_blank:
  "reads L srt d v \<Longrightarrow> list_all is_space w \<Longrightarrow> stop r \<Longrightarrow> 2 * length (json_layout L srt d v @ r) + 1 \<le> n \<Longrightarrow>
    p_value n (w @ json_layout L srt d v @ r) = Some (json_read srt v, r)"
  by (simp only: p_value_blank readsD)

lemma stop_simps [simp]: "stop (CHR '','' # r)" "stop (CHR '']'' # r)" "stop (CHR ''}'' # r)" "stop []"
  by (simp_all add: stop_def)

lemma blankD: "blank L \<Longrightarrow> list_all is_space (fst L d)" "blank L \<Longrightarrow> list_all is_space (snd L)"
  by (simp_all add: blank_def)

lemma skip_ws_blank_id: "list_all is_space w \<Longrightarrow> \<not> is_space c \<Longrightarrow> skip_ws (w @ c # t) = c # t"
  by (simp add: skip_ws_blank skip_ws_id)

lemma p_elems_encode:
  assumes "blank L" and "vs \<noteq> []" and "\<forall>v \<in> set vs. reads L srt e v"
    and "list_all is_space w" and "list_all is_space z"
    and "2 * length (w @ join_with ('','' @ fst L e) (map (json_layout L srt e) vs) @ z @ CHR '']'' # r) + 2 \<le> n"
  shows "p_elems n (w @ join_with ('','' @ fst L e) (map (json_layout L srt e) vs) @ z @ CHR '']'' # r) =
    Some (map (json_read srt) vs, r)"
  using assms(2-)
proof (induction vs arbitrary: n w)
  case (Cons v vs)
  then obtain m where n: "n = Suc m" by (cases n) auto
  show ?case
  proof (cases vs)
    case Nil
    from Cons.prems Nil n have "p_value m (w @ json_layout L srt e v @ z @ CHR '']'' # r) =
        Some (json_read srt v, z @ CHR '']'' # r)"
      by (intro readsD_blank stop_blank) auto
    with Nil n Cons.prems show ?thesis by (simp add: skip_ws_blank_id)
  next
    case (Cons v' vs')
    let ?r = "fst L e @ join_with ('','' @ fst L e) (map (json_layout L srt e) vs) @ z @ CHR '']'' # r"
    from Cons.prems Cons n have "p_value m (w @ json_layout L srt e v @ CHR '','' # ?r) =
        Some (json_read srt v, CHR '','' # ?r)"
      by (intro readsD_blank) auto
    moreover from Cons.prems Cons n have "p_elems m ?r = Some (map (json_read srt) vs, r)"
      by (intro Cons.IH) (auto simp: blankD [OF assms(1)])
    ultimately show ?thesis using Cons n by (simp add: skip_ws_id)
  qed
qed simp

definition enc_member :: "layout \<Rightarrow> bool \<Rightarrow> nat \<Rightarrow> string \<times> json \<Rightarrow> string" where
  "enc_member L srt d kv = enc_string (fst kv) @ '':'' @ snd L @ json_layout L srt d (snd kv)"

lemma p_members_step:
  assumes "blank L" and "sanitize k = k" and "reads L srt d v" and "stop q" and "list_all is_space w"
    and "2 * length (enc_member L srt d (k, v) @ q) \<le> m"
  shows "p_members (Suc m) (w @ enc_member L srt d (k, v) @ q) =
     (case skip_ws q of
        [] \<Rightarrow> None
      | e # u \<Rightarrow>
          if e = CHR '','' then map_option (\<lambda>(kvs, r''). ((k, json_read srt v) # kvs, r'')) (p_members m u)
          else if e = CHR ''}'' then Some ([(k, json_read srt v)], u)
          else None)"
proof -
  have "p_value m (snd L @ json_layout L srt d v @ q) = Some (json_read srt v, q)"
    using assms by (intro readsD_blank) (auto simp: enc_member_def enc_string_def blankD)
  moreover have "p_chars (enc_chars k @ CHR ''\"'' # CHR '':'' # snd L @ json_layout L srt d v @ q) =
      Some (k, CHR '':'' # snd L @ json_layout L srt d v @ q)"
    by (simp add: p_chars_enc assms(2))
  ultimately show ?thesis using assms(5)
    by (simp add: enc_member_def enc_string_def skip_ws_blank_id skip_ws_id)
qed

lemma p_members_encode:
  assumes "blank L" and "kvs \<noteq> []" and "\<forall>kv \<in> set kvs. sanitize (fst kv) = fst kv \<and> reads L srt d (snd kv)"
    and "list_all is_space w" and "list_all is_space z"
    and "2 * length (w @ join_with ('','' @ fst L d) (map (enc_member L srt d) kvs) @ z @ CHR ''}'' # r) + 2 \<le> n"
  shows "p_members n (w @ join_with ('','' @ fst L d) (map (enc_member L srt d) kvs) @ z @ CHR ''}'' # r) =
    Some (map (\<lambda>kv. (fst kv, json_read srt (snd kv))) kvs, r)"
  using assms(2-)
proof (induction kvs arbitrary: n w)
  case (Cons kv kvs)
  obtain k v where kv: "kv = (k, v)" by (cases kv)
  from Cons.prems obtain m where n: "n = Suc m" by (cases n) auto
  show ?case
  proof (cases kvs)
    case Nil
    with Cons.prems n kv show ?thesis
      by (simp add: p_members_step [OF assms(1)] stop_blank skip_ws_blank_id del: p_members.simps)
  next
    case (Cons kv' kvs')
    let ?r = "fst L d @ join_with ('','' @ fst L d) (map (enc_member L srt d) kvs) @ z @ CHR ''}'' # r"
    from Cons.prems Cons n have IH: "p_members m ?r = Some (map (\<lambda>kv. (fst kv, json_read srt (snd kv))) kvs, r)"
      by (intro Cons.IH) (auto simp: blankD [OF assms(1)])
    have "p_members (Suc m) (w @ enc_member L srt d (k, v) @ CHR '','' # ?r) =
        Some ((k, json_read srt v) # map (\<lambda>kv. (fst kv, json_read srt (snd kv))) kvs, r)"
      using Cons.prems Cons n kv
      by (subst p_members_step [OF assms(1)])
        (simp_all add: skip_ws_id IH [unfolded Cons, simplified] del: p_members.simps)
    with Cons n kv show ?thesis by simp
  qed
qed simp

lemma encode_obj:
  "kvs \<noteq> [] \<Longrightarrow> json_layout L srt d (JObj kvs) = ''{'' @ fst L (Suc d) @
     join_with ('','' @ fst L (Suc d)) (map (enc_member L srt (Suc d)) (in_order srt kvs)) @ fst L d @ ''}''"
  by (simp add: in_order_map_snd enc_member_def [abs_def] o_def)

lemma p_value_num:
  "c = CHR ''-'' \<or> is_digit c \<Longrightarrow>
    p_value (Suc n) (c # t) = map_option (\<lambda>(a, r). (JNum a, r)) (p_number (c # t))"
  by (subst p_value.simps) (auto simp: skip_ws_def is_space_def is_digit_def)

lemma p_value_str:
  "p_value (Suc n) (CHR ''\"'' # t) = map_option (\<lambda>(a, r). (JStr a, r)) (p_chars t)"
  by (subst p_value.simps) (simp add: skip_ws_id is_space_def)

lemma p_value_arr:
  "skip_ws t = e # u \<Longrightarrow> e \<noteq> CHR '']'' \<Longrightarrow>
    p_value (Suc n) (CHR ''['' # t) = map_option (\<lambda>(vs, r). (JArr vs, r)) (p_elems n (e # u))"
  "p_value (Suc n) (CHR ''['' # CHR '']'' # u) = Some (JArr [], u)"
  by (subst p_value.simps; simp add: skip_ws_id is_space_def)+

lemma p_value_obj:
  "skip_ws t = e # u \<Longrightarrow> e \<noteq> CHR ''}'' \<Longrightarrow>
    p_value (Suc n) (CHR ''{'' # t) =
      map_option (\<lambda>(kvs, r). (JObj (put_all kvs), r)) (p_members n (e # u))"
  "p_value (Suc n) (CHR ''{'' # CHR ''}'' # u) = Some (JObj [], u)"
  by (subst p_value.simps; simp add: skip_ws_id is_space_def)+

lemma p_value_lit:
  "p_value (Suc n) (''null'' @ r) = Some (JNull, r)"
  "p_value (Suc n) (''true'' @ r) = Some (JBool True, r)"
  "p_value (Suc n) (''false'' @ r) = Some (JBool False, r)"
  by (subst p_value.simps; simp add: skip_ws_id is_space_def is_digit_def p_lit_def)+

declare p_value.simps [simp del]

lemma reads_arr:
  assumes "blank L" and "numbers_valid (JArr vs)" and "\<forall>v \<in> set vs. reads L srt (Suc d) v"
  shows "reads L srt d (JArr vs)"
  unfolding reads_def
proof (intro allI impI)
  fix r n
  assume n: "2 * length (json_layout L srt d (JArr vs) @ r) + 1 \<le> n"
  then obtain m where m: "n = Suc m" by (cases n) auto
  show "p_value n (json_layout L srt d (JArr vs) @ r) = Some (json_read srt (JArr vs), r)"
  proof (cases vs)
    case Nil
    with m show ?thesis by (simp add: p_value_arr)
  next
    case (Cons v ws)
    let ?w = "fst L (Suc d)"
    let ?s = "join_with ('','' @ ?w) (map (json_layout L srt (Suc d)) vs) @ fst L d @ CHR '']'' # r"
    from assms(2) Cons obtain c t where ct: "json_layout L srt (Suc d) v = c # t" "\<not> is_space c" "c \<noteq> CHR '']''"
      using hd_json_layout [of v L srt "Suc d"] by auto
    then obtain t' where s: "?s = c # t'" using Cons by (cases ws) auto
    have "p_elems m ([] @ ?s) = Some (map (json_read srt) vs, r)"
      using assms n m Cons by (intro p_elems_encode) (auto simp: blankD)
    moreover have "skip_ws (?w @ ?s) = c # t'"
      unfolding s using ct(2) by (rule skip_ws_blank_id [OF blankD(1) [OF assms(1)]])
    ultimately show ?thesis
      using ct s m Cons p_value_arr(1) [of "?w @ ?s" c t' m] by simp
  qed
qed

lemma reads_obj:
  assumes "blank L" and "wf_map kvs"
    and "\<forall>kv \<in> set kvs. sanitize (fst kv) = fst kv \<and> reads L srt (Suc d) (snd kv)"
  shows "reads L srt d (JObj kvs)"
  unfolding reads_def
proof (intro allI impI)
  fix r n
  assume n: "2 * length (json_layout L srt d (JObj kvs) @ r) + 1 \<le> n"
  then obtain m where m: "n = Suc m" by (cases n) auto
  have norm: "map (\<lambda>kv. (fst kv, json_read srt (snd kv))) (in_order srt kvs) =
      in_order srt (map (\<lambda>kv. (fst kv, json_read srt (snd kv))) kvs)"
    by (simp add: in_order_map_snd)
  show "p_value n (json_layout L srt d (JObj kvs) @ r) = Some (json_read srt (JObj kvs), r)"
  proof (cases "in_order srt kvs")
    case Nil
    with m show ?thesis by (simp add: p_value_obj)
  next
    case (Cons kv ws)
    let ?w = "fst L (Suc d)"
    let ?s = "join_with ('','' @ ?w) (map (enc_member L srt (Suc d)) (in_order srt kvs)) @ fst L d @ CHR ''}'' # r"
    from Cons obtain t where s: "?s = CHR ''\"'' # t"
      by (cases ws) (auto simp: enc_member_def enc_string_def)
    let ?n = "in_order srt (map (\<lambda>kv. (fst kv, json_read srt (snd kv))) kvs)"
    from Cons have ne: "in_order srt kvs \<noteq> []" "kvs \<noteq> []" by auto
    have shape: "json_layout L srt d (JObj kvs) @ r = CHR ''{'' # ?w @ ?s"
      unfolding encode_obj [OF ne(2)] by simp
    have "p_members m ([] @ ?s) = Some (map (\<lambda>kv. (fst kv, json_read srt (snd kv))) (in_order srt kvs), r)"
      by (rule p_members_encode [OF assms(1) ne(1)])
        (use assms(3) in simp, use n m in \<open>auto simp: shape blankD [OF assms(1)] simp del: json_layout.simps\<close>)
    then have mem: "p_members m (CHR ''\"'' # t) = Some (?n, r)" by (simp only: s norm append_Nil)
    have put: "put_all ?n = ?n"
      using assms(2) by (intro put_all_distinct) (simp add: wf_map_in_order, simp add: wf_map_def o_def)
    have "skip_ws (?w @ ?s) = CHR ''\"'' # t"
      unfolding s by (rule skip_ws_blank_id [OF blankD(1) [OF assms(1)]]) (simp add: is_space_def)
    then have "p_value n (CHR ''{'' # ?w @ ?s) = Some (JObj ?n, r)"
      unfolding m by (subst p_value_obj(1)) (assumption, simp_all add: mem put)
    then show ?thesis unfolding shape by simp
  qed
qed

lemma reads_json:
  assumes "blank L"
  shows "wf_json v \<Longrightarrow> numbers_valid v \<Longrightarrow> strings_valid v \<Longrightarrow> reads L srt d v"
proof (induction v arbitrary: d)
  case (JNum s)
  show ?case unfolding reads_def
  proof (intro allI impI)
    fix r n
    assume stop: "stop r" and "2 * length (json_layout L srt d (JNum s) @ r) + 1 \<le> n"
    then obtain m where m: "n = Suc m" by (cases n) auto
    show "p_value n (json_layout L srt d (JNum s) @ r) = Some (json_read srt (JNum s), r)"
    proof (cases "s = []")
      case True
      have "valid_number ''0''"
        by (simp add: valid_number_def p_number_def p_int_def p_frac_def p_exp_def)
      then have "p_number (''0'' @ r) = Some (''0'', [] @ r)"
        unfolding valid_number_def using stop by (rule p_number_append)
      with True m show ?thesis by (simp add: p_value_num is_digit_def)
    next
      case False
      with JNum have v: "valid_number s" by simp
      then have "p_number (s @ r) = Some (s, [] @ r)"
        unfolding valid_number_def using stop by (rule p_number_append)
      moreover from v obtain c t where "s = c # t" "c = CHR ''-'' \<or> is_digit c"
        by (rule valid_number_hd)
      ultimately show ?thesis using m
        by (simp add: p_value_num)
    qed
  qed
next
  case (JStr s)
  show ?case unfolding reads_def
  proof (intro allI impI)
    fix r n
    assume "2 * length (json_layout L srt d (JStr s) @ r) + 1 \<le> n"
    then obtain m where m: "n = Suc m" by (cases n) auto
    with JStr show "p_value n (json_layout L srt d (JStr s) @ r) = Some (json_read srt (JStr s), r)"
      by (simp add: enc_string_def p_chars_enc p_value_str)
  qed
next
  case (JArr vs)
  then show ?case by (intro reads_arr [OF assms]) (auto simp: list_all_iff)
next
  case (JObj kvs)
  then have "reads L srt (Suc d) (snd kv)" if "kv \<in> set kvs" for kv
    using that by (intro JObj.IH [OF that]) (auto simp: list_all_iff snds.simps)
  with JObj.prems show ?case by (intro reads_obj [OF assms]) (auto simp: list_all_iff)
next
  case JNull
  show ?case unfolding reads_def
    using p_value_lit(1) by (auto dest!: Suc_le_D simp del: append.simps)
next
  case (JBool b)
  have "p_value n (json_layout L srt d (JBool b) @ r) = Some (JBool b, r)" if "1 \<le> n" for n r
    using that p_value_lit(2,3) [of "n - 1" r] by (cases n; cases b) auto
  then show ?case by (auto simp: reads_def)
qed

text \<open>Reading back loses nothing: same abstract value, provided no number is the empty string.\<close>

fun no_empty_number :: "json \<Rightarrow> bool" where
  "no_empty_number (JNum s) = (s \<noteq> [])"
| "no_empty_number (JArr vs) = list_all no_empty_number vs"
| "no_empty_number (JObj kvs) = list_all (\<lambda>kv. no_empty_number (snd kv)) kvs"
| "no_empty_number _ = True"

lemma map_of_in_order: "wf_map kvs \<Longrightarrow> map_of (in_order True kvs) = map_of kvs"
  by (rule map_of_inject_set [THEN iffD2])
    (simp_all add: wf_map_def wf_map_in_order [unfolded wf_map_def])

lemma jabs_norm: "wf_json v \<Longrightarrow> no_empty_number v \<Longrightarrow> jabs (json_norm v) = jabs v"
proof (induction v)
  case (JArr vs)
  then show ?case by (auto simp: list_all_iff)
next
  case (JObj kvs)
  have eq: "jabs (json_norm (snd kv)) = jabs (snd kv)" if "kv \<in> set kvs" for kv
    using that JObj.prems by (intro JObj.IH [OF that]) (auto simp: list_all_iff snds.simps)
  let ?ns = "map (\<lambda>kv. (fst kv, json_norm (snd kv))) kvs"
  have wf: "wf_map ?ns" using JObj.prems by (simp add: wf_map_def o_def)
  have "map_of (map (\<lambda>kv. (fst kv, jabs (snd kv))) (in_order True ?ns)) =
      map_of (map (\<lambda>kv. (fst kv, jabs (snd kv))) kvs)"
  proof
    fix k
    have "map_of (map (\<lambda>kv. (fst kv, jabs (snd kv))) (in_order True ?ns)) k =
        map_option jabs (map_of ?ns k)"
      by (simp only: map_of_map_snd map_of_in_order [OF wf])
    also have "\<dots> = map_of (map (\<lambda>kv. (fst kv, jabs (snd kv))) kvs) k"
    proof (cases "map_of kvs k")
      case (Some v)
      then have "(k, v) \<in> set kvs" by (rule map_of_SomeD)
      from eq [OF this] Some show ?thesis by (simp add: map_of_map_snd)
    qed (simp add: map_of_map_snd)
    finally show "map_of (map (\<lambda>kv. (fst kv, jabs (snd kv))) (in_order True ?ns)) k =
      map_of (map (\<lambda>kv. (fst kv, jabs (snd kv))) kvs) k" .
  qed
  then show ?case by simp
qed auto

lemma json_layout_reads:
  assumes "blank L" and "wf_json v" and "strings_valid v" and "numbers_valid v"
  shows "json_decode (json_layout L srt d v) = Some (json_read srt v)"
proof -
  from assms have "reads L srt d v" by (intro reads_json)
  from readsD [OF this, of "[]" "2 * length (json_layout L srt d v) + 1"] show ?thesis
    by (simp add: json_decode_def)
qed

lemma json_text_reads:
  assumes "wf_json v" and "strings_valid v" and "numbers_valid v"
  shows "json_decode (json_text srt v) = Some (json_read srt v)"
  using assms by (intro json_layout_reads) simp_all

theorem json_roundtrip:
  assumes "wf_json v" and "strings_valid v" and "json_marshal v = Some s"
  shows "json_decode s = Some (json_norm v)"
  using assms json_text_reads [of v True] by (auto simp: json_marshal_def split: if_splits)

text \<open>A value from a struct is read back as it is, when no number is the empty string.\<close>

lemma json_read_struct: "no_empty_number v \<Longrightarrow> json_read False v = v"
proof (induction v)
  case (JObj kvs)
  then have "(fst kv, json_read False (snd kv)) = kv" if "kv \<in> set kvs" for kv
    using that JObj.IH [OF that, of "snd kv"] by (auto simp: list_all_iff snds.simps)
  then have "map (\<lambda>kv. (fst kv, json_read False (snd kv))) kvs = kvs" by (intro map_idI) auto
  then show ?case by (simp add: in_order_def)
qed (auto simp: list_all_iff intro: map_idI)

end
