(* ===== verification/Slack.thy ===== *)
theory Slack
  imports Suite_Config Json_Encode Duration
begin

text \<open>
  The Slack notifier (\<open>notifier/slack/slack.go\<close>): from the report of a suite to the message that is
  posted to the webhook. \<open>http.Post\<close> with the reading of the response body, \<open>strconv.Quote\<close> (for
  \<open>%q\<close>) and the text of an error are parameters. A
  message is marshalled as a struct: its fields in their order, the empty ones left out; nothing in
  it can make \<open>json.Marshal\<close> fail, so that branch of \<open>send\<close> has no counterpart. An instant is counted
  in nanoseconds from the Unix epoch.
\<close>

subsection \<open>Messages\<close>

definition infoColor :: string where "infoColor = ''good''"
definition dangerColor :: string where "dangerColor = ''danger''"

record attachmentField =
  af_Short :: bool
  af_Title :: string
  af_Value :: string

record attachment =
  at_Color :: string
  at_Fallback :: string
  at_ImageURL :: string
  at_Text :: string
  at_Title :: string
  at_ThumbURL :: string
  at_MrkdwnIn :: "string list"
  at_Fields :: "attachmentField list"
  at_Timestamp :: int

record notification =
  n_Channel :: string
  n_IconEmoji :: string
  n_Username :: string
  n_Text :: string
  n_Attachments :: "attachment list"

record Slack_Config =
  sl_Webhook :: string
  sl_Username :: string
  sl_Channel :: string
  sl_Verbose :: bool

text \<open>The fields of a struct with the option \<open>omitempty\<close>.\<close>

definition str_field :: "string \<Rightarrow> string \<Rightarrow> (string \<times> json) list" where
  "str_field k s = (if s = [] then [] else [(k, JStr s)])"

definition bool_field :: "string \<Rightarrow> bool \<Rightarrow> (string \<times> json) list" where
  "bool_field k b = (if b then [(k, JBool True)] else [])"

definition int_field :: "string \<Rightarrow> int \<Rightarrow> (string \<times> json) list" where
  "int_field k i = (if i = 0 then [] else [(k, JNum (itoa i))])"

definition list_field :: "string \<Rightarrow> json list \<Rightarrow> (string \<times> json) list" where
  "list_field k vs = (if vs = [] then [] else [(k, JArr vs)])"

lemmas field_defs = str_field_def bool_field_def int_field_def list_field_def

definition field_json :: "attachmentField \<Rightarrow> json" where
  "field_json f = JObj (bool_field ''short'' (af_Short f) @ str_field ''title'' (af_Title f) @
     str_field ''value'' (af_Value f))"

definition attachment_json :: "attachment \<Rightarrow> json" where
  "attachment_json a = JObj (str_field ''color'' (at_Color a) @ str_field ''fallback'' (at_Fallback a) @
     str_field ''image_url'' (at_ImageURL a) @ str_field ''text'' (at_Text a) @
     str_field ''title'' (at_Title a) @ str_field ''thumb_url'' (at_ThumbURL a) @
     list_field ''mrkdwn_in'' (map JStr (at_MrkdwnIn a)) @
     list_field ''fields'' (map field_json (at_Fields a)) @ int_field ''ts'' (at_Timestamp a))"

definition notification_json :: "notification \<Rightarrow> json" where
  "notification_json n = JObj (str_field ''channel'' (n_Channel n) @
     str_field ''icon_emoji'' (n_IconEmoji n) @ str_field ''username'' (n_Username n) @
     str_field ''text'' (n_Text n) @
     list_field ''attachments'' (map attachment_json (n_Attachments n)))"

subsection \<open>The notifier\<close>

record ('w, 'e) slack_env =
  sl_quote :: "string \<Rightarrow> string"
  sl_error :: "'e \<Rightarrow> string"
  sl_post :: "string \<Rightarrow> string \<Rightarrow> string \<Rightarrow> 'w \<Rightarrow> (string + int \<times> (string + string)) \<times> 'w"

datatype slack_log =
    Send_Failed string
  | Body_Unreadable string
  | Post_Failed string

definition send ::
  "('w, 'e) slack_env \<Rightarrow> Slack_Config \<Rightarrow> notification \<Rightarrow> 'w \<Rightarrow> slack_log list \<times> 'w" where
  "send env cfg n w =
     (case sl_post env (sl_Webhook cfg) ''application/json'' (json_text False (notification_json n)) w of
        (Inl e, w1) \<Rightarrow> ([Send_Failed e], w1)
      | (Inr (status, Inl e), w1) \<Rightarrow> ([Body_Unreadable e], w1)
      | (Inr (status, Inr body), w1) \<Rightarrow> (if status \<noteq> 200 then [Post_Failed body] else [], w1))"

definition count_errors :: "('w, 'e) report \<Rightarrow> nat" where
  "count_errors r = sum_list (map (\<lambda>tr. length (Errs tr)) (TestReports r))"

definition report_text :: "('w, 'e) report \<Rightarrow> string" where
  "report_text r =
     (let errors = count_errors r;
          extra = (if errors = 0 then ''ok''
                   else if errors = 1 then ''1 test failed''
                   else itoa (int errors) @ '' tests failed'')
      in ''*'' @ s_name (r_Suite r) @ ''* - '' @ s_typ (r_Suite r) @ '' - '' @ extra @
         (if s_failfast (r_Suite r) then '' (failfast)'' else []))"

definition test_attachment ::
  "('w, 'e) slack_env \<Rightarrow> ('w, 'e) test_report \<Rightarrow> attachment" where
  "test_attachment env tr =
     (let ok = (Errs tr = []);
          title = ''Test '' @ sl_quote env (tName (Test tr)) @ (if ok then [] else '' failed'')
      in \<lparr>at_Color = (if ok then infoColor else dangerColor), at_Fallback = title, at_ImageURL = [],
          at_Text = [], at_Title = title, at_ThumbURL = [], at_MrkdwnIn = [''fields''],
          at_Fields =
            [\<lparr>af_Short = False, af_Title = ''Description'', af_Value = tDescription (Test tr)\<rparr>,
             \<lparr>af_Short = True, af_Title = ''Duration'', af_Value = Duration_String (tr_Duration tr)\<rparr>] @
            map (\<lambda>e. \<lparr>af_Short = False, af_Title = [], af_Value = ''```'' @ sl_error env e @ ''```''\<rparr>)
              (Errs tr),
          at_Timestamp = tr_Start tr div 1000000000\<rparr>)"

text \<open>The loop over the test reports: what it appends to the attachments.\<close>

fun attachments_loop ::
  "('w, 'e) slack_env \<Rightarrow> bool \<Rightarrow> ('w, 'e) test_report list \<Rightarrow> attachment list" where
  "attachments_loop env verbose [] = []"
| "attachments_loop env verbose (tr # trs) =
     (if Errs tr = [] \<and> \<not> verbose then attachments_loop env verbose trs
      else test_attachment env tr # attachments_loop env verbose trs)"

definition slack_message ::
  "('w, 'e) slack_env \<Rightarrow> Slack_Config \<Rightarrow> ('w, 'e) report \<Rightarrow> notification" where
  "slack_message env cfg r =
     \<lparr>n_Channel = sl_Channel cfg, n_IconEmoji = [], n_Username = sl_Username cfg,
      n_Text = report_text r,
      n_Attachments = attachments_loop env (sl_Verbose cfg) (TestReports r)\<rparr>"

definition Slack_Notify ::
  "('w, 'e) slack_env \<Rightarrow> Slack_Config \<Rightarrow> ('w, 'e) report \<Rightarrow> 'w \<Rightarrow> slack_log list \<times> 'w" where
  "Slack_Notify env cfg r w =
     (if count_errors r = 0 \<and> \<not> sl_Verbose cfg then ([], w)
      else send env cfg (slack_message env cfg r) w)"

definition Slack_New ::
  "('w, 'e) slack_env \<Rightarrow> Slack_Config \<Rightarrow> (('w, 'e) report, 'w) notifier" where
  "Slack_New env cfg = (\<lambda>r w. snd (Slack_Notify env cfg r w))"


subsection \<open>The message as a value\<close>

text \<open>Every message can be marshalled: fields have distinct names, numbers are JSON numbers.\<close>

lemma field_json_ok:
  "wf_json (field_json f)" "numbers_valid (field_json f)" "no_empty_number (field_json f)"
  by (simp_all add: field_json_def field_defs)

lemma attachment_json_ok:
  "wf_json (attachment_json a)" "numbers_valid (attachment_json a)" "no_empty_number (attachment_json a)"
  by (simp_all add: attachment_json_def field_defs list_all_iff field_json_ok valid_number_itoa)

lemma notification_json_ok:
  "wf_json (notification_json n)" "numbers_valid (notification_json n)"
  "no_empty_number (notification_json n)"
  by (simp_all add: notification_json_def field_defs list_all_iff attachment_json_ok)

lemma notification_body:
  assumes "strings_valid (notification_json n)"
  shows "json_decode (json_text False (notification_json n)) = Some (notification_json n)"
  using json_text_reads [OF notification_json_ok(1) assms notification_json_ok(2), of False]
  by (simp add: json_read_struct notification_json_ok(3))

subsection \<open>Which reports are shown\<close>

definition shown_reports :: "Slack_Config \<Rightarrow> ('w, 'e) report \<Rightarrow> ('w, 'e) test_report list" where
  "shown_reports cfg r = filter (\<lambda>tr. sl_Verbose cfg \<or> failed tr) (TestReports r)"

lemma attachments_loop_filter:
  "attachments_loop env verbose trs = map (test_attachment env) (filter (\<lambda>tr. verbose \<or> failed tr) trs)"
  by (induction trs) (auto simp: failed_def)

lemma count_errors_0: "count_errors r = 0 \<longleftrightarrow> filter failed (TestReports r) = []"
  by (auto simp: count_errors_def failed_def filter_empty_conv)

lemma send_posts:
  "\<exists>logs. send env cfg n w = (logs, snd (sl_post env (sl_Webhook cfg) ''application/json''
     (json_text False (notification_json n)) w))"
  by (auto simp: send_def split: prod.split sum.split)


lemma Slack_Notify_world:
  "snd (Slack_Notify env cfg r w) =
     (if filter failed (TestReports r) = [] \<and> \<not> sl_Verbose cfg then w
      else snd (sl_post env (sl_Webhook cfg) ''application/json''
             (json_text False (notification_json (slack_message env cfg r))) w))"
  using send_posts [of env cfg "slack_message env cfg r" w]
  by (auto simp: Slack_Notify_def count_errors_0)

text \<open>What an attachment says about the report of a test.\<close>

definition shows_report :: "('w, 'e) slack_env \<Rightarrow> ('w, 'e) test_report \<Rightarrow> json \<Rightarrow> bool" where
  "shows_report env tr a \<longleftrightarrow>
     (\<exists>fs vs. a = JObj fs \<and>
        map_of fs ''title'' =
          Some (JStr (''Test '' @ sl_quote env (tName (Test tr)) @ (if failed tr then '' failed'' else []))) \<and>
        map_of fs ''color'' = Some (JStr (if failed tr then ''danger'' else ''good'')) \<and>
        map_of fs ''fields'' = Some (JArr vs) \<and>
        drop 2 vs = map (\<lambda>e. JObj [(''value'', JStr (''```'' @ sl_error env e @ ''```''))]) (Errs tr))"

lemma shows_test_attachment: "shows_report env tr (attachment_json (test_attachment env tr))"
  unfolding shows_report_def attachment_json_def test_attachment_def Let_def
  by (simp add: field_defs infoColor_def dangerColor_def failed_def field_json_def)

subsection \<open>Properties\<close>


definition demo_report :: "(string list, string) report" where
  "demo_report =
     \<lparr>r_Suite = \<lparr>s_path = ''s'', s_name = ''api'', s_typ = ''HTTP'', s_runCron = [], s_runEvery = 0,
        s_retryCount = 1, s_retryWait = 0, s_timeout = 0, s_failfast = False, s_tests = []\<rparr>,
      r_Start = 0, r_Duration = 0,
      TestReports = [\<lparr>Test = \<lparr>tName = ''t'', tDescription = [], tRun = (\<lambda>_ ctx w. Ret ([], ctx, w))\<rparr>,
        tr_Start = 0, tr_Duration = 0, Errs = [''a'', ''b'']\<rparr>], NbFailed = 1\<rparr>"

definition demo_slack_env :: "(string list, string) slack_env" where
  "demo_slack_env = \<lparr>sl_quote = (\<lambda>s. s), sl_error = (\<lambda>e. e),
     sl_post = (\<lambda>url cnt body w. (Inr (200, Inr []), body # w))\<rparr>"

definition demo_slack_config :: Slack_Config where
  "demo_slack_config = \<lparr>sl_Webhook = ''h'', sl_Username = [], sl_Channel = [], sl_Verbose = False\<rparr>"


lemma demo_message_valid: "strings_valid (notification_json (slack_message demo_slack_env demo_slack_config demo_report))"
  by code_simp

lemma demo_report_text: "report_text demo_report = ''*api* - HTTP - 2 tests failed''"
  by code_simp


text \<open>
  No failed run goes unreported and no passing one makes noise. For the report of a run of a suite,
  a Slack notifier that is not verbose leaves the world alone exactly as the report counts no failed
  test, and otherwise posts one message, with one attachment for each failed test; a verbose one always
  posts, with one attachment for each test that ran.
\<close>

theorem Slack_after_run:
  assumes "Suite_Run rt s ctx w = Ret (r, w1)"
  shows "Slack_New env cfg r w2 =
      (if NbFailed r = 0 \<and> \<not> sl_Verbose cfg then w2
       else snd (sl_post env (sl_Webhook cfg) ''application/json''
              (json_text False (notification_json (slack_message env cfg r))) w2)) \<and>
    length (n_Attachments (slack_message env cfg r)) =
      (if sl_Verbose cfg then length (TestReports r) else NbFailed r)"
  using Suite_Run_ran [OF assms]
  by (auto simp: Slack_New_def Slack_Notify_world slack_message_def attachments_loop_filter)

theorem Slack_after_run_witness:
  "\<exists>r w. Suite_Run still_clock (three_tests True) \<lparr>ctx_md = None\<rparr> 0 = Ret (r, w) \<and>
     length (n_Attachments (slack_message env demo_slack_config r)) = 1"
proof -
  obtain r w where run: "Suite_Run still_clock (three_tests True) \<lparr>ctx_md = None\<rparr> 0 = Ret (r, w)" "NbFailed r = 1"
    by (simp add: example_run_defs)
  from Slack_after_run [OF run(1), of env demo_slack_config] run show ?thesis
    by (auto simp: demo_slack_config_def)
qed

end
