(* ===== verification/Http_Query.thy ===== *)
theory Http_Query
  imports Json
begin

text \<open>
  Queries into decoded JSON documents (\<open>testsuite/httpexpect/response.go\<close>: \<open>lookupJSONData\<close>,
  \<open>queryJSONData\<close>). A query is a list of keys separated by dots; a key selects a field of an object,
  an element of an array by its decimal index, or the length of an array. The errors are values;
  indexing with a negative number is the one place where the code panics.
\<close>

datatype lookup_error =
  Invalid_Array_Index | Invalid_Type | Index_Out_Of_Bounds | Field_Not_Found

definition lookupJSONData :: "string \<Rightarrow> json \<Rightarrow> (lookup_error + json) run" where
  "lookupJSONData k v =
     (case v of
        JArr vs \<Rightarrow>
          if k = ''length'' then Ret (Inr (JNum (itoa (int (length vs)))))
          else (case atoi k of
                  None \<Rightarrow> Ret (Inl Invalid_Array_Index)
                | Some i \<Rightarrow>
                    if int (length vs) \<le> i then Ret (Inl Index_Out_Of_Bounds)
                    else if i < 0 then Panics (Index_Out_Of_Range i (length vs))
                    else Ret (Inr (vs ! nat i)))
      | JObj kvs \<Rightarrow>
          (case map_of kvs k of
             None \<Rightarrow> Ret (Inl Field_Not_Found)
           | Some w \<Rightarrow> Ret (Inr w))
      | _ \<Rightarrow> Ret (Inl Invalid_Type))"

text \<open>The loop, with the keys already looked up; an error carries the query up to its key.\<close>

fun query_loop ::
  "string list \<Rightarrow> string list \<Rightarrow> json \<Rightarrow> (string \<times> lookup_error + json) run" where
  "query_loop seen [] v = Ret (Inr v)"
| "query_loop seen (k # ks) v =
     (case lookupJSONData k v of
        Panics p \<Rightarrow> Panics p
      | Ret (Inl e) \<Rightarrow> Ret (Inl (join_with ''.'' (seen @ [k]), e))
      | Ret (Inr w) \<Rightarrow> query_loop (seen @ [k]) ks w)"

definition queryJSONData :: "string \<Rightarrow> json \<Rightarrow> (string \<times> lookup_error + json) run" where
  "queryJSONData q v = query_loop [] (split_on CHR ''.'' q) v"

subsection \<open>Paths\<close>

text \<open>What a query means: a path of steps into the document.\<close>

datatype path_step = Field string | Elem nat | Len

fun step_value :: "path_step \<Rightarrow> json \<Rightarrow> json option" where
  "step_value (Field k) (JObj kvs) = map_of kvs k"
| "step_value (Elem n) (JArr vs) = (if n < length vs then Some (vs ! n) else None)"
| "step_value Len (JArr vs) = Some (JNum (itoa (int (length vs))))"
| "step_value _ _ = None"

fun path_value :: "path_step list \<Rightarrow> json \<Rightarrow> json option" where
  "path_value [] v = Some v"
| "path_value (p # ps) v = (case step_value p v of None \<Rightarrow> None | Some w \<Rightarrow> path_value ps w)"

fun render_step :: "path_step \<Rightarrow> string" where
  "render_step (Field k) = k"
| "render_step (Elem n) = itoa (int n)"
| "render_step Len = ''length''"

fun ok_step :: "path_step \<Rightarrow> bool" where
  "ok_step (Field k) = (CHR ''.'' \<notin> set k)"
| "ok_step (Elem n) = (int n \<le> max_int64)"
| "ok_step Len = True"

lemma itoa_nat_digit: "c \<in> set (itoa (int n)) \<Longrightarrow> is_digit c"
  by (simp add: itoa_def nat_digits_digits)

lemma itoa_nat_not_length: "itoa (int n) \<noteq> ''length''"
proof
  assume "itoa (int n) = ''length''"
  then have "CHR ''l'' \<in> set (itoa (int n))" by simp
  from itoa_nat_digit [OF this] show False by (simp add: is_digit_def)
qed

lemma render_step_no_dot: "ok_step p \<Longrightarrow> CHR ''.'' \<notin> set (render_step p)"
  using itoa_nat_digit [of "CHR ''.''"] by (cases p) (auto simp: is_digit_def)

lemma lookup_step:
  assumes "ok_step p" and "step_value p v = Some w"
  shows "lookupJSONData (render_step p) v = Ret (Inr w)"
proof (cases p)
  case (Field k)
  with assms show ?thesis by (cases v) (simp_all add: lookupJSONData_def)
next
  case (Elem n)
  with assms obtain vs where v: "v = JArr vs" "n < length vs" "w = vs ! n"
    by (cases v) (auto split: if_splits)
  have "atoi (itoa (int n)) = Some (int n)"
    using assms(1) Elem by (intro atoi_itoa) (simp add: int64_def min_int64_def)
  with v Elem show ?thesis by (simp add: lookupJSONData_def itoa_nat_not_length)
next
  case Len
  with assms show ?thesis by (cases v) (simp_all add: lookupJSONData_def)
qed

lemma query_loop_path:
  "\<forall>p \<in> set ps. ok_step p \<Longrightarrow> path_value ps v = Some w \<Longrightarrow>
    query_loop seen (map render_step ps) v = Ret (Inr w)"
  by (induction ps arbitrary: seen v) (auto simp: lookup_step split: option.splits)

text \<open>Where the loop stops with an error.\<close>

lemma query_loop_error:
  assumes "query_loop seen ks v = Ret (Inl (p, e))"
  shows "\<exists>n w. n < length ks \<and> p = join_with ''.'' (seen @ take (Suc n) ks) \<and>
    query_loop seen (take n ks) v = Ret (Inr w) \<and> lookupJSONData (ks ! n) w = Ret (Inl e)"
  using assms
proof (induction seen ks v rule: query_loop.induct)
  case (1 seen v)
  then show ?case by simp
next
  case (2 seen k ks v)
  from "2.prems" obtain r where r: "lookupJSONData k v = Ret r"
    by (auto split: run.splits)
  show ?case
  proof (cases r)
    case (Inl e')
    with 2(2) r show ?thesis by (intro exI [of _ 0] exI [of _ v]) simp
  next
    case (Inr w)
    with "2.prems" r have "query_loop (seen @ [k]) ks w = Ret (Inl (p, e))" by simp
    from "2.IH" [OF r Inr this] obtain n u where n: "n < length ks"
      "p = join_with ''.'' ((seen @ [k]) @ take (Suc n) ks)"
      "query_loop (seen @ [k]) (take n ks) w = Ret (Inr u)" "lookupJSONData (ks ! n) u = Ret (Inl e)"
      by blast
    with r Inr show ?thesis by (intro exI [of _ "Suc n"] exI [of _ u]) simp
  qed
qed

lemma query_loop_Inr_append:
  "query_loop seen (ks @ ks') v =
     (case query_loop seen ks v of
        Ret (Inr w) \<Rightarrow> query_loop (seen @ ks) ks' w
      | r \<Rightarrow> r)"
  by (induction seen ks v rule: query_loop.induct) (auto split: run.splits sum.splits)

text \<open>A key that cannot panic: it does not start with a minus sign.\<close>

definition plain_key :: "string \<Rightarrow> bool" where
  "plain_key k \<longleftrightarrow> k = [] \<or> hd k \<noteq> CHR ''-''"

lemma atoi_nonneg: "plain_key k \<Longrightarrow> atoi k = Some i \<Longrightarrow> 0 \<le> i"
  by (auto simp: atoi_def parse_int64_def plain_key_def Let_def max_int64_def
      split: sum.splits num_error.splits if_splits)

lemma lookup_returns: "plain_key k \<Longrightarrow> returns (lookupJSONData k v)"
  by (auto simp: lookupJSONData_def split: json.split option.split dest: atoi_nonneg)

lemma query_loop_returns: "\<forall>k \<in> set ks. plain_key k \<Longrightarrow> returns (query_loop seen ks v)"
proof (induction seen ks v rule: query_loop.induct)
  case (1 seen v)
  then show ?case by simp
next
  case (2 seen k ks v)
  from "2.prems" lookup_returns [of k v] obtain r where r: "lookupJSONData k v = Ret r" by auto
  then show ?case
  proof (cases r)
    case (Inr w)
    with 2 r show ?thesis by simp
  qed (use r in simp)
qed

lemma atoi_minus_one: "atoi ''-1'' = Some (- 1)"
  by (simp add: atoi_def parse_int64_def parse_uint_def is_digit_def digit_val_def max_uint64_def
      max_int64_def)

lemma split_on_append_sep: "split_on d (a @ d # b) = split_on d a @ split_on d b"
proof (induction a)
  case Nil
  then show ?case by simp
next
  case (Cons c a)
  obtain p ps where "split_on d a = p # ps" by (cases "split_on d a") auto
  with Cons show ?case by simp
qed

subsection \<open>Properties\<close>

text \<open>
  C15: A query finds what its path denotes: for a path of field names without dots, array indexes and
  array lengths that exists in the document, the query written with dots between the steps returns
  the value at the end of the path.
\<close>

theorem queryJSONData_path:
  assumes "ps \<noteq> []" and "\<forall>p \<in> set ps. ok_step p" and "path_value ps v = Some w"
  shows "queryJSONData (join_with ''.'' (map render_step ps)) v = Ret (Inr w)"
proof -
  have "split_on CHR ''.'' (join_with ''.'' (map render_step ps)) = map render_step ps"
    using assms(1,2) by (intro split_join_on) (auto simp: render_step_no_dot)
  with query_loop_path [OF assms(2,3)] show ?thesis by (simp add: queryJSONData_def)
qed

definition demo_doc :: json where
  "demo_doc = JObj [(''users'', JArr [JNull, JObj [(''name'', JStr ''ann'')]])]"

theorem queryJSONData_path_witness:
  "queryJSONData (''users'' @ ''.'' @ itoa 1 @ ''.'' @ ''name'') demo_doc = Ret (Inr (JStr ''ann''))"
proof -
  have "queryJSONData (join_with ''.'' (map render_step [Field ''users'', Elem 1, Field ''name''])) demo_doc
      = Ret (Inr (JStr ''ann''))"
    by (rule queryJSONData_path) (simp_all add: demo_doc_def max_int64_def)
  then show ?thesis by simp
qed

text \<open>
  The error of a query names where it failed: the text it carries is the query up to and
  including one of its keys, the keys before that one were found, and the lookup of that key in
  what they lead to gives the error.
\<close>

theorem queryJSONData_error:
  assumes "queryJSONData q v = Ret (Inl (p, e))"
  shows "\<exists>n w. n < length (split_on CHR ''.'' q) \<and>
    p = join_with ''.'' (take (Suc n) (split_on CHR ''.'' q)) \<and>
    query_loop [] (take n (split_on CHR ''.'' q)) v = Ret (Inr w) \<and>
    lookupJSONData (split_on CHR ''.'' q ! n) w = Ret (Inl e)"
  using query_loop_error [of "[]"] assms unfolding queryJSONData_def by fastforce

theorem queryJSONData_error_witness:
  "\<exists>n. n < 2 \<and> ''users.name'' = join_with ''.'' (take (Suc n) [''users'', ''name''])"
proof -
  have split: "split_on CHR ''.'' ''users.name'' = [''users'', ''name'']" by simp
  have "atoi ''name'' = None"
    by (simp add: atoi_def parse_int64_def parse_uint_def is_digit_def)
  then have "queryJSONData ''users.name'' demo_doc = Ret (Inl (''users.name'', Invalid_Array_Index))"
    by (simp add: queryJSONData_def lookupJSONData_def demo_doc_def)
  from queryJSONData_error [OF this] obtain n where
    "n < length [''users'', ''name'']" "''users.name'' = join_with ''.'' (take (Suc n) [''users'', ''name''])"
    unfolding split by blast
  then show ?thesis by (intro exI [of _ n]) simp
qed

text \<open>
  A query none of whose keys starts with a minus sign never panics, on any document.
\<close>

theorem queryJSONData_returns:
  assumes "\<forall>k \<in> set (split_on CHR ''.'' q). k = [] \<or> hd k \<noteq> CHR ''-''"
  shows "returns (queryJSONData q v)"
  using query_loop_returns assms unfolding queryJSONData_def plain_key_def by blast

theorem queryJSONData_returns_witness: "returns (queryJSONData ''users.7'' demo_doc)"
  by (rule queryJSONData_returns) simp

text \<open>
  A negative index is not caught: a query that leads to an array, continued with the key -1,
  passes the bounds check of the code and panics with an index out of range.
\<close>

theorem queryJSONData_negative_index:
  assumes "queryJSONData q v = Ret (Inr (JArr vs))"
  shows "queryJSONData (q @ ''.-1'') v = Panics (Index_Out_Of_Range (- 1) (length vs))"
proof -
  have "split_on CHR ''.'' (q @ ''.-1'') = split_on CHR ''.'' q @ [''-1'']"
    using split_on_append_sep [of "CHR ''.''" q "''-1''"] by simp
  with assms show ?thesis
    by (simp add: queryJSONData_def query_loop_Inr_append lookupJSONData_def atoi_minus_one)
qed

theorem queryJSONData_negative_index_witness:
  "queryJSONData (''users'' @ ''.-1'') demo_doc = Panics (Index_Out_Of_Range (- 1) 2)"
proof -
  have "queryJSONData ''users'' demo_doc = Ret (Inr (JArr [JNull, JObj [(''name'', JStr ''ann'')]]))"
    by (simp add: queryJSONData_def lookupJSONData_def demo_doc_def)
  from queryJSONData_negative_index [OF this] show ?thesis by simp
qed

end
