(* ===== verification/Http_Response.thy ===== *)
theory Http_Response
  imports Http_Query Json_Codec Go_Net Testsuite
begin

text \<open>
  Checking a response (\<open>testsuite/httpexpect/response.go\<close>, and the schema loader of
  \<open>jsonschema.go\<close>, which hands the decoded document to the validator as it is). A prepared test is
  the struct \<open>test\<close> of \<open>httpexpect.go\<close>. The third-party JSON schema validator is a field of the
  test: \<open>Validate\<close> applied to the compiled schema, an error or the validity with the list of
  violations. The text of a decoding error is not modelled, what is logged keeps its structure
  otherwise. The state of a \<open>response\<close> is the cache of the decoded body.
\<close>

type_synonym json_schema = "json \<Rightarrow> string + bool \<times> string list"

text \<open>An expected document: raw bytes or a decoded value; \<open>None\<close> in a test is the nil interface.\<close>

datatype document = Raw string | Doc json

record http_url =
  u_prefix :: string
  u_Path :: string
  u_RawPath :: string
  u_RawQuery :: string

record http_request =
  rq_Method :: string
  rq_URL :: http_url
  rq_Header :: http_header
  rq_Body :: "string option"

record http_test =
  t_id :: string
  t_name :: string
  t_description :: string
  t_saveDoc :: bool
  t_req :: http_request
  t_urlPathQueries :: "string list"
  t_urlQueryQueries :: "string list"
  t_statusCode :: int
  t_header :: header
  t_document :: "document option"
  t_jsonSchema :: "json_schema option"
  t_jsonValues :: "(string, json) gomap option"

record http_resp =
  StatusCode :: int
  resp_Header :: http_header

datatype http_msg =
    No_Response string
  | No_Body string
  | Wrong_Status int int string
  | Missing_Header string
  | Wrong_Header string string string
  | Document_Mismatch
  | Bad_Json
  | Schema_Failed string
  | Schema_Violated "string list"
  | Query_Failed string "string \<times> lookup_error"
  | Wrong_Value string json json

record response =
  r_body :: string
  dataJSON :: json
  dataJSONError :: bool

definition maxErrorBodySize :: nat where
  "maxErrorBodySize = 512"

definition unmarshalJSONBody :: "response \<Rightarrow> bool \<times> http_msg list \<times> response" where
  "unmarshalJSONBody r =
     (if dataJSON r \<noteq> JNull then (True, [], r)
      else if dataJSONError r then (False, [], r)
      else case json_decode (r_body r) of
             None \<Rightarrow> (False, [Bad_Json], r\<lparr>dataJSONError := True\<rparr>)
           | Some v \<Rightarrow> (True, [], r\<lparr>dataJSON := v\<rparr>))"

definition checkHeader1 :: "http_resp \<Rightarrow> string \<times> string \<Rightarrow> http_msg list" where
  "checkHeader1 resp = (\<lambda>(k, v).
     let val = header_Get (resp_Header resp) k in
     if val = [] then [Missing_Header k]
     else if val \<noteq> v then [Wrong_Header k val v]
     else [])"

definition checkHeader :: "http_test \<Rightarrow> http_resp \<Rightarrow> http_msg list" where
  "checkHeader t resp = concat (map (checkHeader1 resp) (t_header t))"

definition matchDocument :: "document \<Rightarrow> response \<Rightarrow> http_msg list \<times> response" where
  "matchDocument d r =
     (case d of
        Raw raw \<Rightarrow> (if r_body r \<noteq> raw then [Document_Mismatch] else [], r)
      | Doc doc \<Rightarrow>
          (case unmarshalJSONBody r of (ok, ms, r1) \<Rightarrow>
             if \<not> ok then (ms, r1)
             else (if \<not> json_equal doc (dataJSON r1) then ms @ [Document_Mismatch] else ms, r1)))"

definition matchJSONSchema :: "json_schema \<Rightarrow> response \<Rightarrow> http_msg list \<times> response" where
  "matchJSONSchema validate r =
     (case unmarshalJSONBody r of (ok, ms, r1) \<Rightarrow>
        if \<not> ok then (ms, r1)
        else case validate (dataJSON r1) of
               Inl e \<Rightarrow> (ms @ [Schema_Failed e], r1)
             | Inr (valid, es) \<Rightarrow> (if \<not> valid then ms @ [Schema_Violated es] else ms, r1))"

definition check_value :: "json \<Rightarrow> string \<times> json \<Rightarrow> http_msg list run" where
  "check_value data = (\<lambda>(query, expected).
     map_run (\<lambda>res. case res of
         Inl e \<Rightarrow> [Query_Failed query e]
       | Inr val \<Rightarrow> if \<not> json_equal val expected then [Wrong_Value query val expected] else [])
       (queryJSONData query data))"

fun values_loop :: "json \<Rightarrow> (string, json) gomap \<Rightarrow> http_msg list run" where
  "values_loop data [] = Ret []"
| "values_loop data (qv # rest) =
     bind_run (check_value data qv) (\<lambda>ms. map_run (\<lambda>ms'. ms @ ms') (values_loop data rest))"

definition containsJSONValues ::
  "(string, json) gomap \<Rightarrow> response \<Rightarrow> (http_msg list \<times> response) run" where
  "containsJSONValues jv r =
     (case unmarshalJSONBody r of (ok, ms, r1) \<Rightarrow>
        if \<not> ok then Ret (ms, r1)
        else map_run (\<lambda>ms'. (ms @ ms', r1)) (values_loop (dataJSON r1) jv))"

definition shown_body :: "string \<Rightarrow> string" where
  "shown_body body =
     (if maxErrorBodySize < length body
      then take maxErrorBodySize body @ ''... ('' @ itoa (int (length body)) @ '')'' else body)"

text \<open>The result: what was logged, and the metadata map, which \<open>saveDoc\<close> updates in place.\<close>

definition checkResponse ::
  "http_test \<Rightarrow> md option \<Rightarrow> http_resp \<Rightarrow> string \<Rightarrow> (http_msg list \<times> md option) run" where
  "checkResponse t md resp body =
     (if StatusCode resp \<noteq> t_statusCode t \<and> 0 \<le> t_statusCode t then
        Ret ([Wrong_Status (StatusCode resp) (t_statusCode t) (shown_body body)], md)
      else
        let r0 = \<lparr>r_body = body, dataJSON = JNull, dataJSONError = False\<rparr>;
            hs = checkHeader t resp;
            (ds, r1) = (case t_document t of None \<Rightarrow> ([], r0) | Some d \<Rightarrow> matchDocument d r0);
            (ss, r2) = (case t_jsonSchema t of None \<Rightarrow> ([], r1) | Some s \<Rightarrow> matchJSONSchema s r1)
        in bind_run (case t_jsonValues t of None \<Rightarrow> Ret ([], r2) | Some jv \<Rightarrow> containsJSONValues jv r2)
             (\<lambda>(vs, r3).
               let ms = hs @ ds @ ss @ vs in
               case md of
                 None \<Rightarrow> Ret (ms, md)
               | Some m \<Rightarrow>
                   if t_saveDoc t then
                     (case unmarshalJSONBody r3 of (ok, us, r4) \<Rightarrow>
                        if \<not> ok then Ret (ms @ us, md)
                        else Ret (ms @ us, Some (AList.update (t_id t) (dataJSON r4) m)))
                   else Ret (ms, md)))"

subsection \<open>What a response must be\<close>

definition status_conforms :: "http_test \<Rightarrow> http_resp \<Rightarrow> bool" where
  "status_conforms t resp \<longleftrightarrow> t_statusCode t < 0 \<or> StatusCode resp = t_statusCode t"

definition header_conforms :: "http_resp \<Rightarrow> string \<times> string \<Rightarrow> bool" where
  "header_conforms resp = (\<lambda>(k, v). v \<noteq> [] \<and> header_Get (resp_Header resp) k = v)"

definition document_conforms :: "document \<Rightarrow> string \<Rightarrow> bool" where
  "document_conforms d body =
     (case d of
        Raw raw \<Rightarrow> body = raw
      | Doc doc \<Rightarrow> (case json_decode body of None \<Rightarrow> False | Some v \<Rightarrow> json_equal doc v))"

definition schema_conforms :: "json_schema \<Rightarrow> string \<Rightarrow> bool" where
  "schema_conforms validate body =
     (case json_decode body of
        None \<Rightarrow> False
      | Some v \<Rightarrow> (case validate v of Inl _ \<Rightarrow> False | Inr (valid, _) \<Rightarrow> valid))"

definition value_conforms :: "json \<Rightarrow> string \<times> json \<Rightarrow> bool" where
  "value_conforms v = (\<lambda>(q, x). \<exists>w. queryJSONData q v = Ret (Inr w) \<and> json_equal w x)"

definition values_conform :: "(string, json) gomap \<Rightarrow> string \<Rightarrow> bool" where
  "values_conform jv body =
     (case json_decode body of None \<Rightarrow> False | Some v \<Rightarrow> list_all (value_conforms v) jv)"

definition conforms :: "http_test \<Rightarrow> http_resp \<Rightarrow> string \<Rightarrow> bool" where
  "conforms t resp body \<longleftrightarrow>
     status_conforms t resp \<and> list_all (header_conforms resp) (t_header t) \<and>
     (case t_document t of None \<Rightarrow> True | Some d \<Rightarrow> document_conforms d body) \<and>
     (case t_jsonSchema t of None \<Rightarrow> True | Some s \<Rightarrow> schema_conforms s body) \<and>
     (case t_jsonValues t of None \<Rightarrow> True | Some jv \<Rightarrow> values_conform jv body)"

subsection \<open>The cache of the decoded body\<close>

definition cached :: "string \<Rightarrow> response \<Rightarrow> bool" where
  "cached body r \<longleftrightarrow> r_body r = body \<and>
     (dataJSON r \<noteq> JNull \<longrightarrow> json_decode body = Some (dataJSON r)) \<and>
     (dataJSONError r \<longrightarrow> json_decode body = None)"

lemma unmarshalJSONBody_cached:
  assumes "cached body r" and "unmarshalJSONBody r = (ok, ms, r')"
  shows "cached body r'"
    and "case json_decode body of
        None \<Rightarrow> \<not> ok \<and> dataJSONError r' \<and> ms = (if dataJSONError r then [] else [Bad_Json])
      | Some v \<Rightarrow> ok \<and> ms = [] \<and> dataJSON r' = v \<and> \<not> dataJSONError r' \<and> \<not> dataJSONError r"
  using assms
  by (auto simp: cached_def unmarshalJSONBody_def split: if_splits option.splits)

text \<open>
  What a check of the body does to the state and the log, when it is the check of \<open>P\<close>: it keeps the
  cache true, logs the decoding error at most once over all checks, and, unless that was logged
  before, logs nothing exactly when \<open>P\<close> holds.
\<close>

definition outcome ::
  "string \<Rightarrow> response \<Rightarrow> http_msg list \<times> response \<Rightarrow> bool \<Rightarrow> bool" where
  "outcome body r res P \<longleftrightarrow>
     cached body (snd res) \<and>
     count_list (fst res) Bad_Json + (if dataJSONError r then 1 else 0)
       = (if dataJSONError (snd res) then 1 else 0) \<and>
     (\<not> dataJSONError r \<longrightarrow> (fst res = [] \<longleftrightarrow> P)) \<and>
     (\<not> dataJSONError r \<and> P \<longrightarrow> \<not> dataJSONError (snd res))"

lemma matchDocument_outcome:
  assumes "cached body r"
  shows "outcome body r (matchDocument d r) (document_conforms d body)"
proof (cases d)
  case (Raw raw)
  with assms show ?thesis
    by (auto simp: outcome_def matchDocument_def document_conforms_def cached_def)
next
  case (Doc doc)
  obtain ok ms r' where u: "unmarshalJSONBody r = (ok, ms, r')" by (metis prod_cases3)
  from unmarshalJSONBody_cached [OF assms u] Doc show ?thesis
    by (auto simp: outcome_def matchDocument_def document_conforms_def u split: option.splits)
qed

lemma matchJSONSchema_outcome:
  assumes "cached body r"
  shows "outcome body r (matchJSONSchema s r) (schema_conforms s body)"
proof -
  obtain ok ms r' where u: "unmarshalJSONBody r = (ok, ms, r')" by (metis prod_cases3)
  from unmarshalJSONBody_cached [OF assms u] show ?thesis
    by (auto simp: outcome_def matchJSONSchema_def schema_conforms_def u
        split: option.splits sum.splits prod.splits)
qed

lemma check_value_Ret:
  assumes "check_value v qx = Ret ms"
  shows "(ms = [] \<longleftrightarrow> value_conforms v qx) \<and> count_list ms Bad_Json = 0"
proof -
  obtain q x where qx: "qx = (q, x)" by fastforce
  with assms obtain res where "queryJSONData q v = Ret res"
    by (auto simp: check_value_def map_run_Ret_iff)
  with assms qx show ?thesis
    by (cases res) (auto simp: check_value_def value_conforms_def split: if_splits)
qed

lemma values_loop_Ret:
  "values_loop v jv = Ret ms \<Longrightarrow>
    (ms = [] \<longleftrightarrow> list_all (value_conforms v) jv) \<and> count_list ms Bad_Json = 0"
  by (induction jv arbitrary: ms)
    (auto simp: bind_run_Ret_iff map_run_Ret_iff dest!: check_value_Ret)

lemma containsJSONValues_outcome:
  assumes "cached body r" and "containsJSONValues jv r = Ret res"
  shows "outcome body r res (values_conform jv body)"
proof -
  obtain ok ms r' where u: "unmarshalJSONBody r = (ok, ms, r')" by (metis prod_cases3)
  show ?thesis
  proof (cases "json_decode body")
    case None
    with unmarshalJSONBody_cached [OF assms(1) u] assms(2) show ?thesis
      by (auto simp: outcome_def containsJSONValues_def values_conform_def u)
  next
    case (Some v)
    note c = unmarshalJSONBody_cached [OF assms(1) u, unfolded Some, simplified]
    from assms(2) c obtain ms' where "values_loop v jv = Ret ms'" "res = (ms', r')"
      by (auto simp: containsJSONValues_def u map_run_Ret_iff)
    with c values_loop_Ret [of v jv ms'] Some show ?thesis
      by (auto simp: outcome_def values_conform_def)
  qed
qed

lemma outcome_skip: "cached body r \<Longrightarrow> outcome body r ([], r) True"
  by (simp add: outcome_def)

lemma checkHeader1_conforms: "checkHeader1 resp kv = [] \<longleftrightarrow> header_conforms resp kv"
  by (cases kv) (auto simp: checkHeader1_def header_conforms_def Let_def)

lemma checkHeader_conforms: "checkHeader t resp = [] \<longleftrightarrow> list_all (header_conforms resp) (t_header t)"
  by (auto simp: checkHeader_def checkHeader1_conforms list_all_iff)

lemma checkHeader_no_bad_json: "count_list (checkHeader t resp) Bad_Json = 0"
  by (rule count_list_0_iff [THEN iffD2]) (auto simp: checkHeader_def checkHeader1_def Let_def split: if_splits)

text \<open>The three checks of the body in a row, and the reading of the body for \<open>saveDoc\<close>.\<close>

definition body_conforms :: "http_test \<Rightarrow> string \<Rightarrow> bool" where
  "body_conforms t body \<longleftrightarrow>
     (case t_document t of None \<Rightarrow> True | Some d \<Rightarrow> document_conforms d body) \<and>
     (case t_jsonSchema t of None \<Rightarrow> True | Some s \<Rightarrow> schema_conforms s body) \<and>
     (case t_jsonValues t of None \<Rightarrow> True | Some jv \<Rightarrow> values_conform jv body)"

lemma outcome_append:
  assumes "outcome body r0 (ms, r1) P" and "outcome body r1 (ms', r2) Q"
  shows "outcome body r0 (ms @ ms', r2) (P \<and> Q)"
proof (cases "dataJSONError r0")
  case True
  with assms show ?thesis by (auto simp: outcome_def split: if_splits)
next
  case False
  show ?thesis
  proof (cases "dataJSONError r1")
    case True
    with assms(1) False have "ms \<noteq> []" "\<not> P" by (auto simp: outcome_def)
    with assms True False show ?thesis by (auto simp: outcome_def)
  next
    case r1: False
    with assms False show ?thesis by (auto simp: outcome_def)
  qed
qed

lemma outcome_optional:
  assumes "cached body r" and "\<And>d. outcome body r (f d r) (P d)"
  shows "outcome body r (case x of None \<Rightarrow> ([], r) | Some d \<Rightarrow> f d r) (case x of None \<Rightarrow> True | Some d \<Rightarrow> P d)"
  using assms by (cases x) (simp_all add: outcome_skip)

lemma checkResponse_Ret:
  assumes "checkResponse t md resp body = Ret (ms, md')" and "status_conforms t resp"
  obtains bs r3 us where
    "outcome body \<lparr>r_body = body, dataJSON = JNull, dataJSONError = False\<rparr> (bs, r3) (body_conforms t body)"
    "ms = checkHeader t resp @ bs @ us"
    "if t_saveDoc t \<and> md \<noteq> None then \<exists>ok r4. unmarshalJSONBody r3 = (ok, us, r4) \<and>
       md' = (if ok then Some (AList.update (t_id t) (dataJSON r4) (the md)) else md)
     else us = [] \<and> md' = md"
proof -
  let ?r0 = "\<lparr>r_body = body, dataJSON = JNull, dataJSONError = False\<rparr>"
  have r0: "cached body ?r0" by (simp add: cached_def)
  obtain ds r1 where d: "(case t_document t of None \<Rightarrow> ([], ?r0) | Some d \<Rightarrow> matchDocument d ?r0) = (ds, r1)"
    by fastforce
  have od: "outcome body ?r0 (ds, r1) (case t_document t of None \<Rightarrow> True | Some d \<Rightarrow> document_conforms d body)"
    unfolding d [symmetric] by (rule outcome_optional [OF r0]) (rule matchDocument_outcome [OF r0])
  then have r1: "cached body r1" by (simp add: outcome_def)
  obtain ss r2 where s: "(case t_jsonSchema t of None \<Rightarrow> ([], r1) | Some s \<Rightarrow> matchJSONSchema s r1) = (ss, r2)"
    by fastforce
  have os: "outcome body r1 (ss, r2) (case t_jsonSchema t of None \<Rightarrow> True | Some s \<Rightarrow> schema_conforms s body)"
    unfolding s [symmetric] by (rule outcome_optional [OF r1]) (rule matchJSONSchema_outcome [OF r1])
  then have r2: "cached body r2" by (simp add: outcome_def)
  from assms(2) have st: "\<not> (StatusCode resp \<noteq> t_statusCode t \<and> 0 \<le> t_statusCode t)"
    by (auto simp: status_conforms_def)
  from assms(1) obtain vs r3 where
    v: "(case t_jsonValues t of None \<Rightarrow> Ret ([], r2) | Some jv \<Rightarrow> containsJSONValues jv r2) = Ret (vs, r3)"
    and out: "(case md of
         None \<Rightarrow> Ret (checkHeader t resp @ ds @ ss @ vs, md)
       | Some m \<Rightarrow> if t_saveDoc t then
             (case unmarshalJSONBody r3 of (ok, us, r4) \<Rightarrow>
                if \<not> ok then Ret ((checkHeader t resp @ ds @ ss @ vs) @ us, md)
                else Ret ((checkHeader t resp @ ds @ ss @ vs) @ us, Some (AList.update (t_id t) (dataJSON r4) m)))
           else Ret (checkHeader t resp @ ds @ ss @ vs, md)) = Ret (ms, md')"
    unfolding checkResponse_def if_not_P [OF st] Let_def d s prod.case
    by (auto simp: bind_run_Ret_iff Let_def)
  have ov: "outcome body r2 (vs, r3) (case t_jsonValues t of None \<Rightarrow> True | Some jv \<Rightarrow> values_conform jv body)"
    using v outcome_skip [OF r2] containsJSONValues_outcome [OF r2, of "the (t_jsonValues t)"]
    by (cases "t_jsonValues t") auto
  have all: "outcome body ?r0 (ds @ ss @ vs, r3) (body_conforms t body)"
    using outcome_append [OF od outcome_append [OF os ov]] by (simp add: body_conforms_def)
  obtain ok us r4 where u: "unmarshalJSONBody r3 = (ok, us, r4)" by (metis prod_cases3)
  show ?thesis
  proof (cases "t_saveDoc t \<and> md \<noteq> None")
    case True
    with out u have "ms = checkHeader t resp @ (ds @ ss @ vs) @ us"
      "md' = (if ok then Some (AList.update (t_id t) (dataJSON r4) (the md)) else md)"
      by (auto split: if_splits)
    with True u show ?thesis by (intro that [OF all]) auto
  next
    case False
    with out have "ms = checkHeader t resp @ (ds @ ss @ vs) @ []" "md' = md"
      by (auto split: option.splits if_splits)
    with False show ?thesis by (intro that [OF all]) auto
  qed
qed

lemma checkResponse_wrong_status:
  assumes "\<not> status_conforms t resp"
  shows "checkResponse t md resp body =
    Ret ([Wrong_Status (StatusCode resp) (t_statusCode t) (shown_body body)], md)"
  using assms by (auto simp: status_conforms_def checkResponse_def)

lemma checkResponse_iff:
  assumes "checkResponse t md resp body = Ret (ms, md')"
  shows "ms = [] \<longleftrightarrow> conforms t resp body \<and> (t_saveDoc t \<and> md \<noteq> None \<longrightarrow> json_decode body \<noteq> None)"
proof (cases "status_conforms t resp")
  case False
  with checkResponse_wrong_status [OF False] assms show ?thesis by (auto simp: conforms_def)
next
  case True
  let ?r0 = "\<lparr>r_body = body, dataJSON = JNull, dataJSONError = False\<rparr>"
  from assms True obtain bs r3 us where o: "outcome body ?r0 (bs, r3) (body_conforms t body)"
    and ms: "ms = checkHeader t resp @ bs @ us"
    and save: "if t_saveDoc t \<and> md \<noteq> None then \<exists>ok r4. unmarshalJSONBody r3 = (ok, us, r4) \<and>
       md' = (if ok then Some (AList.update (t_id t) (dataJSON r4) (the md)) else md)
     else us = [] \<and> md' = md" by (rule checkResponse_Ret)
  from o have bs: "bs = [] \<longleftrightarrow> body_conforms t body" and r3: "cached body r3"
    and err: "body_conforms t body \<Longrightarrow> \<not> dataJSONError r3" by (simp_all add: outcome_def)
  have "us = [] \<longleftrightarrow> (t_saveDoc t \<and> md \<noteq> None \<longrightarrow> json_decode body \<noteq> None)"
    if "body_conforms t body"
  proof (cases "t_saveDoc t \<and> md \<noteq> None")
    case True
    with save obtain ok r4 where "unmarshalJSONBody r3 = (ok, us, r4)" by auto
    from unmarshalJSONBody_cached(2) [OF r3 this] err [OF that] True show ?thesis
      by (auto split: option.splits)
  qed (use save in auto)
  with ms bs True show ?thesis
    by (auto simp: conforms_def body_conforms_def checkHeader_conforms)
qed

lemma checkResponse_md:
  assumes "checkResponse t md resp body = Ret (ms, md')"
  shows "md' = (case (md, json_decode body) of
      (Some m, Some v) \<Rightarrow>
        if status_conforms t resp \<and> t_saveDoc t then Some (AList.update (t_id t) v m) else md
    | _ \<Rightarrow> md)"
proof (cases "status_conforms t resp")
  case False
  with checkResponse_wrong_status [OF False] assms show ?thesis by (auto split: option.split)
next
  case True
  with assms obtain bs r3 us where
    o: "outcome body \<lparr>r_body = body, dataJSON = JNull, dataJSONError = False\<rparr> (bs, r3) (body_conforms t body)"
    and save: "if t_saveDoc t \<and> md \<noteq> None then \<exists>ok r4. unmarshalJSONBody r3 = (ok, us, r4) \<and>
       md' = (if ok then Some (AList.update (t_id t) (dataJSON r4) (the md)) else md)
     else us = [] \<and> md' = md" by (rule checkResponse_Ret)
  from o have r3: "cached body r3" by (simp add: outcome_def)
  show ?thesis
  proof (cases "t_saveDoc t \<and> md \<noteq> None")
    case save_it: True
    with save obtain ok r4 where u: "unmarshalJSONBody r3 = (ok, us, r4)"
      "md' = (if ok then Some (AList.update (t_id t) (dataJSON r4) (the md)) else md)" by auto
    from unmarshalJSONBody_cached(2) [OF r3 u(1)] u(2) save_it True show ?thesis
      by (auto split: option.splits)
  qed (use save in \<open>auto split: option.split\<close>)
qed

text \<open>The range loops over the expected headers and values, in another order.\<close>

lemma values_loop_mset:
  "mset jv = mset jv' \<Longrightarrow> values_loop v jv = Ret ms \<Longrightarrow>
    \<exists>ms'. values_loop v jv' = Ret ms' \<and> mset ms' = mset ms"
proof (induction jv arbitrary: jv' ms)
  case Nil
  then show ?case by simp
next
  case (Cons x jv)
  from Cons.prems(2) obtain m ms1 where m: "check_value v x = Ret m" "values_loop v jv = Ret ms1"
    "ms = m @ ms1" by (auto simp: bind_run_Ret_iff map_run_Ret_iff)
  from Cons.prems(1) have "x \<in> set jv'" by (metis list.set_intros(1) set_mset_mset)
  then obtain a b where jv': "jv' = a @ x # b" by (meson split_list)
  with Cons.prems(1) have "mset jv = mset (a @ b)" by simp
  from Cons.IH [OF this m(2)] obtain ms2 where ms2: "values_loop v (a @ b) = Ret ms2" "mset ms2 = mset ms1"
    by blast
  have append: "values_loop v (xs @ ys) =
      bind_run (values_loop v xs) (\<lambda>ms. map_run (\<lambda>ms'. ms @ ms') (values_loop v ys))" for xs ys
  proof (induction xs)
    case Nil
    then show ?case by (cases "values_loop v ys") simp_all
  next
    case (Cons y xs)
    then show ?case
      by (cases "check_value v y"; cases "values_loop v xs"; cases "values_loop v ys") simp_all
  qed
  from ms2(1) obtain ma mb where "values_loop v a = Ret ma" "values_loop v b = Ret mb" "ms2 = ma @ mb"
    by (auto simp: append bind_run_Ret_iff map_run_Ret_iff)
  with m ms2(2) show ?case by (auto simp: jv' append)
qed

lemma checkHeader_mset:
  "mset (t_header t) = mset (t_header t') \<Longrightarrow> mset (checkHeader t resp) = mset (checkHeader t' resp)"
proof -
  have "mset (concat (map f xs)) = (\<Sum>x \<in># mset xs. mset (f x))" for f :: "string \<times> string \<Rightarrow> http_msg list" and xs
    by (induction xs) auto
  then show "mset (t_header t) = mset (t_header t') \<Longrightarrow> ?thesis" by (simp add: checkHeader_def)
qed

lemma containsJSONValues_mset:
  assumes "mset jv = mset jv'" and "containsJSONValues jv r = Ret (vs, r3)"
  shows "\<exists>vs'. containsJSONValues jv' r = Ret (vs', r3) \<and> mset vs' = mset vs"
proof -
  obtain ok ms r1 where u: "unmarshalJSONBody r = (ok, ms, r1)" by (metis prod_cases3)
  show ?thesis
  proof (cases ok)
    case True
    with assms(2) u obtain vs0 where vs0: "values_loop (dataJSON r1) jv = Ret vs0" "vs = ms @ vs0" "r3 = r1"
      by (auto simp: containsJSONValues_def map_run_Ret_iff)
    from values_loop_mset [OF assms(1) vs0(1)] u True vs0 show ?thesis
      by (auto simp: containsJSONValues_def)
  next
    case False
    with assms(2) u show ?thesis by (simp add: containsJSONValues_def)
  qed
qed

subsection \<open>Properties\<close>

definition plain_test :: http_test where
  "plain_test = \<lparr>t_id = ''u'', t_name = ''user'', t_description = [], t_saveDoc = True,
     t_req = \<lparr>rq_Method = ''GET'', rq_URL = \<lparr>u_prefix = [], u_Path = ''/'', u_RawPath = [], u_RawQuery = []\<rparr>,
       rq_Header = [], rq_Body = None\<rparr>,
     t_urlPathQueries = [], t_urlQueryQueries = [], t_statusCode = 200,
     t_header = [(''x-id'', ''7'')], t_document = Some (Doc (JArr [JBool True])), t_jsonSchema = None,
     t_jsonValues = Some [(''0'', JBool True)]\<rparr>"

definition good_resp :: http_resp where
  "good_resp = \<lparr>StatusCode = 200, resp_Header = header_Set ''x-id'' ''7'' []\<rparr>"

lemma decode_demo: "json_decode ''[true] '' = Some (JArr [JBool True])"
  by code_simp

lemma decode_bad_demo: "json_decode ''oops'' = None"
  by code_simp

lemma header_demo: "header_Get (resp_Header good_resp) ''x-id'' = ''7''"
  by (simp add: header_Get_lookup good_resp_def)

lemma query_demo: "queryJSONData ''0'' (JArr [JBool True]) = Ret (Inr (JBool True))"
  by (simp add: queryJSONData_def lookupJSONData_def atoi_def parse_int64_def parse_uint_def
      is_digit_def digit_val_def max_uint64_def max_int64_def)

lemma values_demo: "values_loop (JArr [JBool True]) [(''0'', JBool True)] = Ret []"
  by (simp add: check_value_def query_demo)

lemma headers_demo: "checkHeader plain_test good_resp = []"
  by (simp add: checkHeader_def plain_test_def checkHeader1_def header_demo)

lemma plain_test_fields:
  "t_statusCode plain_test = 200" "t_document plain_test = Some (Doc (JArr [JBool True]))"
  "t_jsonSchema plain_test = None" "t_jsonValues plain_test = Some [(''0'', JBool True)]"
  "t_saveDoc plain_test" "t_id plain_test = ''u''" "StatusCode good_resp = 200"
  by (simp_all add: plain_test_def good_resp_def)

lemma check_demo:
  "checkResponse plain_test (Some []) good_resp ''[true] '' = Ret ([], Some [(''u'', JArr [JBool True])])"
  by (simp add: checkResponse_def plain_test_fields headers_demo matchDocument_def unmarshalJSONBody_def
      decode_demo containsJSONValues_def values_demo del: values_loop.simps)

lemma check_bad_demo: "checkResponse plain_test None good_resp ''oops'' = Ret ([Bad_Json], None)"
  by (simp add: checkResponse_def plain_test_fields headers_demo matchDocument_def unmarshalJSONBody_def
      decode_bad_demo containsJSONValues_def)

text \<open>
  C13: A response is accepted exactly when it conforms. Checking a response logs nothing if and only
  if the status is the expected one, every expected header has its value, the body is the
  expected document (the same bytes, or a JSON document with the same value), the schema accepts
  the decoded body, and every query of the expected values gives an equal value; and, when the
  document is to be saved, the body is JSON.
\<close>

theorem checkResponse_accepts:
  assumes "checkResponse t md resp body = Ret (ms, md')"
  shows "ms = [] \<longleftrightarrow> conforms t resp body \<and> (t_saveDoc t \<and> md \<noteq> None \<longrightarrow> json_decode body \<noteq> None)"
  using assms by (rule checkResponse_iff)

theorem checkResponse_accepts_witness:
  "conforms plain_test good_resp ''[true] ''"
  using checkResponse_accepts [OF check_demo] by simp

text \<open>
  A body that is not JSON is reported once: however many of document, schema, values and saving
  need the decoded body, at most one decoding error is logged.
\<close>

theorem checkResponse_one_decode_error:
  assumes "checkResponse t md resp body = Ret (ms, md')"
  shows "count_list ms Bad_Json \<le> 1"
proof (cases "status_conforms t resp")
  case False
  with checkResponse_wrong_status [OF False] assms show ?thesis by auto
next
  case True
  with assms obtain bs r3 us where
    o: "outcome body \<lparr>r_body = body, dataJSON = JNull, dataJSONError = False\<rparr> (bs, r3) (body_conforms t body)"
    and ms: "ms = checkHeader t resp @ bs @ us"
    and save: "if t_saveDoc t \<and> md \<noteq> None then \<exists>ok r4. unmarshalJSONBody r3 = (ok, us, r4) \<and>
       md' = (if ok then Some (AList.update (t_id t) (dataJSON r4) (the md)) else md)
     else us = [] \<and> md' = md" by (rule checkResponse_Ret)
  from o have bs: "count_list bs Bad_Json = (if dataJSONError r3 then 1 else 0)" and r3: "cached body r3"
    by (simp_all add: outcome_def)
  have "count_list us Bad_Json \<le> (if dataJSONError r3 then 0 else 1)"
  proof (cases "t_saveDoc t \<and> md \<noteq> None")
    case True
    with save obtain ok r4 where "unmarshalJSONBody r3 = (ok, us, r4)" by auto
    from unmarshalJSONBody_cached(2) [OF r3 this] show ?thesis by (auto split: option.splits)
  qed (use save in auto)
  with ms bs checkHeader_no_bad_json [of t resp] show ?thesis by (auto split: if_splits)
qed

theorem checkResponse_one_decode_error_witness: "count_list [Bad_Json] Bad_Json \<le> 1"
  by (rule checkResponse_one_decode_error [OF check_bad_demo])

text \<open>
  What is saved for later tests. The metadata map changes only when the status is the expected
  one, the test asks for it and the body is JSON; then the decoded body is stored under the id of the
  test, whatever the other checks found.
\<close>

theorem checkResponse_saves:
  assumes "checkResponse t md resp body = Ret (ms, md')"
  shows "md' = (case (md, json_decode body) of
      (Some m, Some v) \<Rightarrow>
        if status_conforms t resp \<and> t_saveDoc t then Some (AList.update (t_id t) v m) else md
    | _ \<Rightarrow> md)"
  using assms by (rule checkResponse_md)

theorem checkResponse_saves_witness:
  "\<exists>ms md'. checkResponse plain_test (Some []) good_resp ''[true] '' = Ret (ms, md') \<and>
     md' = Some [(''u'', JArr [JBool True])]"
proof -
  have "status_conforms plain_test good_resp" "t_saveDoc plain_test" "t_id plain_test = ''u''"
    by (simp_all add: status_conforms_def plain_test_def good_resp_def)
  then have "Some [(''u'', JArr [JBool True])] = Some (AList.update ''u'' (JArr [JBool True]) [])"
    using checkResponse_saves [OF check_demo] by (simp add: decode_demo)
  then show ?thesis using check_demo by blast
qed

text \<open>
  C14: The order in which the expected headers and values are ranged over does not matter: for any
  other order of the same two maps the same messages are logged, up to their order, and the same
  document is saved.
\<close>

theorem checkResponse_order:
  assumes "wf_map (t_header t)" "wf_map h" "map_of (t_header t) = map_of h"
    and "t_jsonValues t = Some jv" "wf_map jv" "wf_map jv'" "map_of jv = map_of jv'"
    and "checkResponse t md resp body = Ret (ms, md')"
  shows "\<exists>ms'. checkResponse (t\<lparr>t_header := h, t_jsonValues := Some jv'\<rparr>) md resp body = Ret (ms', md') \<and>
    mset ms' = mset ms"
proof (cases "status_conforms t resp")
  case False
  then have "\<not> status_conforms (t\<lparr>t_header := h, t_jsonValues := Some jv'\<rparr>) resp"
    by (simp add: status_conforms_def)
  from checkResponse_wrong_status [OF False] checkResponse_wrong_status [OF this] assms(8)
  show ?thesis by simp
next
  case True
  let ?t = "t\<lparr>t_header := h, t_jsonValues := Some jv'\<rparr>"
  let ?r0 = "\<lparr>r_body = body, dataJSON = JNull, dataJSONError = False\<rparr>"
  from True have st: "\<not> (StatusCode resp \<noteq> t_statusCode t \<and> 0 \<le> t_statusCode t)"
    by (auto simp: status_conforms_def)
  have hs: "mset (checkHeader ?t resp) = mset (checkHeader t resp)"
    using same_map_mset [OF assms(1-3)] by (intro checkHeader_mset) simp
  have jv: "mset jv = mset jv'" by (rule same_map_mset [OF assms(5-7)])
  obtain ds r1 where d: "(case t_document t of None \<Rightarrow> ([], ?r0) | Some d \<Rightarrow> matchDocument d ?r0) = (ds, r1)"
    by fastforce
  obtain ss r2 where s: "(case t_jsonSchema t of None \<Rightarrow> ([], r1) | Some s \<Rightarrow> matchJSONSchema s r1) = (ss, r2)"
    by fastforce
  from assms(8) obtain vs r3 where v: "containsJSONValues jv r2 = Ret (vs, r3)"
    unfolding checkResponse_def if_not_P [OF st] Let_def d s prod.case assms(4)
    by (auto simp: bind_run_Ret_iff)
  from containsJSONValues_mset [OF jv v] obtain vs' where
    v': "containsJSONValues jv' r2 = Ret (vs', r3)" "mset vs' = mset vs" by blast
  obtain ok us r4 where u: "unmarshalJSONBody r3 = (ok, us, r4)" by (metis prod_cases3)
  define tail where "tail = (if t_saveDoc t \<and> md \<noteq> None then us else [])"
  have "ms = (checkHeader t resp @ ds @ ss @ vs) @ tail"
    using assms(8) unfolding checkResponse_def if_not_P [OF st] Let_def d s prod.case assms(4)
    by (auto simp: v u tail_def split: option.splits if_splits)
  moreover have "checkResponse ?t md resp body = Ret ((checkHeader ?t resp @ ds @ ss @ vs') @ tail, md')"
  proof -
    have st': "\<not> (StatusCode resp \<noteq> t_statusCode ?t \<and> 0 \<le> t_statusCode ?t)" using st by simp
    have "md' = (if t_saveDoc t \<and> md \<noteq> None \<and> ok then Some (AList.update (t_id t) (dataJSON r4) (the md)) else md)"
      using assms(8) unfolding checkResponse_def if_not_P [OF st] Let_def d s prod.case assms(4)
      by (cases md; cases "t_saveDoc t"; cases ok) (simp_all add: v u)
    then show ?thesis
      unfolding checkResponse_def if_not_P [OF st'] Let_def
      by (cases md; cases "t_saveDoc t"; cases ok) (simp_all add: d s u v' tail_def)
  qed
  ultimately show ?thesis using hs v'(2) by simp
qed

theorem checkResponse_order_witness:
  "\<exists>ms'. checkResponse (plain_test\<lparr>t_header := t_header plain_test, t_jsonValues := Some [(''0'', JBool True)]\<rparr>)
     (Some []) good_resp ''[true] '' = Ret (ms', Some [(''u'', JArr [JBool True])]) \<and> mset ms' = {#}"
  using checkResponse_order [OF _ _ refl plain_test_fields(4) _ _ refl check_demo]
  by (simp add: plain_test_def)

end
