(* ===== verification/Http_Request.thy ===== *)
theory Http_Request
  imports Http_Response Json_Encode Go_Path
begin

text \<open>
  From the description of a request to the request (\<open>testsuite/httpexpect/request.go\<close>, with the
  configuration structs, \<open>getDocumentField\<close>, \<open>getObjectField\<close> and \<open>getFilePath\<close> of
  \<open>testsuite/httpexpect/config.go\<close>).

  The surroundings are a record of functions: reading a file (an error or its bytes), the URL that
  \<open>http.NewRequest\<close> parses for a method and a URL text (or its error), \<open>url.Parse\<close> as a check, the
  text of a URL, the working directory, the boundary of a multipart writer and
  \<open>gojsonschema.NewSchema\<close>. A field of type \<open>interface{}\<close> is a JSON value, \<open>JNull\<close> for nil; a nil
  map is \<open>None\<close>.
\<close>

record http_env =
  read_file :: "string \<Rightarrow> string + string"
  parse_request :: "string \<Rightarrow> string \<Rightarrow> string + http_url"
  parse_url :: "string \<Rightarrow> string option"
  url_string :: "http_url \<Rightarrow> string"
  working_dir :: "string option"
  boundary :: string
  new_schema :: "json \<Rightarrow> string + json_schema"

record http_base =
  b_URL :: string
  b_Header :: header
  b_Insecure :: bool
  b_OAUTH2 :: "oauth2_config option"

record request_cfg =
  q_URL :: string
  q_Path :: string
  q_Method :: string
  q_Header :: header
  q_Body :: json
  q_Multipart :: "(string, string) gomap option"
  q_FormData :: "(string, string) gomap option"

record expect_cfg =
  e_StatusCode :: int
  e_Header :: header
  e_Document :: json
  e_JSONSchema :: "(string, json) gomap option"
  e_JSONValues :: "(string, json) gomap option"

record test_cfg =
  c_ID :: string
  c_Name :: string
  c_Request :: request_cfg
  c_Expect :: expect_cfg
  c_SaveDocument :: bool

text \<open>The list of tests holds pointers: \<open>None\<close> is the nil pointer a JSON null gives.\<close>

record http_config =
  hc_Path :: string
  hc_Root :: string
  hc_Base :: http_base
  hc_Tests :: "test_cfg option list"

datatype doc_error = Cannot_Read string | Cannot_Decode

datatype request_error =
    Body_Field doc_error
  | Cannot_Marshal
  | Multipart_File string
  | Invalid_Request string

definition http_getFilePath :: "http_config \<Rightarrow> string \<Rightarrow> string" where
  "http_getFilePath cfg path = (if is_abs path then path else path_join [hc_Root cfg, path])"

text \<open>
  \<open>getDocumentField\<close>: an object with a string under \<open>$raw\<close> stands for those bytes, one with a string
  under \<open>$ref\<close> for the file it names, raw when \<open>$raw\<close> is true and decoded otherwise; any other value
  stands for itself.
\<close>

definition getDocumentField :: "http_env \<Rightarrow> http_config \<Rightarrow> json \<Rightarrow> doc_error + document" where
  "getDocumentField env cfg v =
     (case v of
        JObj m \<Rightarrow>
          (case map_of m ''$raw'' of
             Some (JStr raw) \<Rightarrow> Inr (Raw raw)
           | raw \<Rightarrow>
               (case map_of m ''$ref'' of
                  Some (JStr ref) \<Rightarrow>
                    (case read_file env (http_getFilePath cfg ref) of
                       Inl e \<Rightarrow> Inl (Cannot_Read e)
                     | Inr content \<Rightarrow>
                         if raw = Some (JBool True) then Inr (Raw content)
                         else (case json_decode content of
                                 None \<Rightarrow> Inl Cannot_Decode
                               | Some w \<Rightarrow> Inr (Doc w)))
                | _ \<Rightarrow> Inr (Doc v)))
      | _ \<Rightarrow> Inr (Doc v))"

text \<open>Decoding into a map: an object is the map, null the nil map, anything else an error.\<close>

definition getObjectField ::
  "http_env \<Rightarrow> http_config \<Rightarrow> (string, json) gomap \<Rightarrow> doc_error + (string, json) gomap option" where
  "getObjectField env cfg m =
     (case map_of m ''$ref'' of
        Some (JStr ref) \<Rightarrow>
          (case read_file env (http_getFilePath cfg ref) of
             Inl e \<Rightarrow> Inl (Cannot_Read e)
           | Inr content \<Rightarrow>
               (case json_decode content of
                  Some (JObj kvs) \<Rightarrow> Inr (Some kvs)
                | Some JNull \<Rightarrow> Inr None
                | _ \<Rightarrow> Inl Cannot_Decode))
      | _ \<Rightarrow> Inr (Some m))"

subsection \<open>Bodies\<close>

definition crlf :: string where
  "crlf = [CHR 0x0D, CHR 0x0A]"

definition escape_quotes :: "string \<Rightarrow> string" where
  "escape_quotes s = concat (map (\<lambda>c. if c = CHR 0x5C \<or> c = CHR 0x22 then [CHR 0x5C, c] else [c]) s)"

text \<open>\<open>multipart.Writer.CreatePart\<close> for the part after what is written already, and its content.\<close>

definition write_part :: "string \<Rightarrow> string list \<Rightarrow> string \<Rightarrow> string \<Rightarrow> string" where
  "write_part bd headers content out =
     out @ (if out = [] then [] else crlf) @ ''--'' @ bd @ crlf @
     concat (map (\<lambda>h. h @ crlf) headers) @ crlf @ content"

definition addMultipartKV ::
  "http_env \<Rightarrow> http_config \<Rightarrow> string \<Rightarrow> string \<Rightarrow> string \<Rightarrow> request_error + string" where
  "addMultipartKV env cfg k v out =
     (if has_prefix v ''@'' then
        let path = http_getFilePath cfg (tl v) in
        (case read_file env path of
           Inl e \<Rightarrow> Inl (Multipart_File e)
         | Inr content \<Rightarrow>
             Inr (write_part (boundary env)
               [''Content-Disposition: form-data; name=\"'' @ escape_quotes k @ ''\"; filename=\"'' @
                  escape_quotes (path_base path) @ ''\"'',
                ''Content-Type: application/octet-stream'']
               content out))
      else
        Inr (write_part (boundary env)
          [''Content-Disposition: form-data; name=\"'' @ escape_quotes k @ ''\"''] v out))"

fun add_parts ::
  "http_env \<Rightarrow> http_config \<Rightarrow> (string, string) gomap \<Rightarrow> string \<Rightarrow> request_error + string" where
  "add_parts env cfg [] out = Inr out"
| "add_parts env cfg ((k, v) # m) out =
     (case addMultipartKV env cfg k v out of
        Inl e \<Rightarrow> Inl e
      | Inr out1 \<Rightarrow> add_parts env cfg m out1)"

definition fromMultipart ::
  "http_env \<Rightarrow> http_config \<Rightarrow> (string, string) gomap \<Rightarrow> request_error + string \<times> string" where
  "fromMultipart env cfg m =
     (case add_parts env cfg m [] of
        Inl e \<Rightarrow> Inl e
      | Inr out \<Rightarrow>
          Inr (out @ crlf @ ''--'' @ boundary env @ ''--'' @ crlf,
               ''multipart/form-data; boundary='' @ boundary env))"

definition fromFormData :: "(string, string) gomap \<Rightarrow> string" where
  "fromFormData m = values_encode (fold (\<lambda>(k, v). AList.update k v) m [])"

text \<open>The body and its content type; \<open>None\<close> for no body at all.\<close>

definition getBody ::
  "http_env \<Rightarrow> http_config \<Rightarrow> request_cfg \<Rightarrow> request_error + string option \<times> string" where
  "getBody env cfg q =
     (if q_Body q \<noteq> JNull then
        (case getDocumentField env cfg (q_Body q) of
           Inl e \<Rightarrow> Inl (Body_Field e)
         | Inr (Raw raw) \<Rightarrow> Inr (Some raw, [])
         | Inr (Doc v) \<Rightarrow>
             (case json_marshal v of
                None \<Rightarrow> Inl Cannot_Marshal
              | Some s \<Rightarrow> Inr (Some s, ''application/json; charset=utf-8'')))
      else case q_Multipart q of
        Some m \<Rightarrow>
          (case fromMultipart env cfg m of
             Inl e \<Rightarrow> Inl e
           | Inr (body, cnt) \<Rightarrow> Inr (Some body, cnt))
      | None \<Rightarrow>
          (case q_FormData q of
             Some m \<Rightarrow> Inr (Some (fromFormData m), ''application/x-www-form-urlencoded'')
           | None \<Rightarrow> Inr (None, [])))"

definition setHeaderinHTTPRequest :: "header \<Rightarrow> http_request \<Rightarrow> http_request" where
  "setHeaderinHTTPRequest h rq =
     rq\<lparr>rq_Header := fold (\<lambda>(k, v). header_Set k v) h (rq_Header rq)\<rparr>"

definition request_url :: "http_config \<Rightarrow> request_cfg \<Rightarrow> string" where
  "request_url cfg q =
     (if q_URL q \<noteq> [] then q_URL q else b_URL (hc_Base cfg)) @
     (if q_Path q = [] then ''/'' else q_Path q)"

definition toHTTPRequest ::
  "http_env \<Rightarrow> http_config \<Rightarrow> request_cfg \<Rightarrow> request_error + http_request" where
  "toHTTPRequest env cfg q =
     (case getBody env cfg q of
        Inl e \<Rightarrow> Inl e
      | Inr (body, cntType) \<Rightarrow>
          let meth = (if q_Method q = [] then ''GET'' else q_Method q) in
          (case parse_request env meth (request_url cfg q) of
             Inl e \<Rightarrow> Inl (Invalid_Request e)
           | Inr u \<Rightarrow>
               let rq0 = \<lparr>rq_Method = meth, rq_URL = u, rq_Header = [], rq_Body = body\<rparr>;
                   rq1 = setHeaderinHTTPRequest (b_Header (hc_Base cfg)) rq0;
                   rq2 = setHeaderinHTTPRequest (q_Header q) rq1
               in Inr (if cntType \<noteq> [] \<and> header_Get (rq_Header rq2) ''Content-Type'' = []
                       then rq2\<lparr>rq_Header := header_Set ''Content-Type'' cntType (rq_Header rq2)\<rparr>
                       else rq2)))"

lemma setHeader_url [simp]: "rq_URL (setHeaderinHTTPRequest h rq) = rq_URL rq"
  by (simp add: setHeaderinHTTPRequest_def)

text \<open>The URL of the request is the one its text parses to.\<close>

lemma toHTTPRequest_url:
  "toHTTPRequest env cfg q = Inr rq \<Longrightarrow>
    parse_request env (if q_Method q = [] then ''GET'' else q_Method q) (request_url cfg q) = Inr (rq_URL rq)"
  by (auto simp: toHTTPRequest_def Let_def split: sum.splits prod.splits if_splits)

subsection \<open>Properties\<close>

text \<open>The header of a configuration as the request keeps it, under canonical names.\<close>

definition canonical :: "header \<Rightarrow> header" where
  "canonical h = map (\<lambda>(k, v). (canonical_key k, v)) h"

lemma set_header_lookup:
  assumes "distinct (map (canonical_key \<circ> fst) h)"
  shows "header_lookup (rq_Header (setHeaderinHTTPRequest h rq)) k =
    (case map_of (canonical h) (canonical_key k) of
       Some v \<Rightarrow> Some v
     | None \<Rightarrow> header_lookup (rq_Header rq) k)"
  using http_header.get_fold_put_distinct [OF assms, of "rq_Header rq" k]
  by (simp add: setHeaderinHTTPRequest_def canonical_def)

definition demo_http_env :: http_env where
  "demo_http_env = \<lparr>read_file = (\<lambda>_. Inl ''no such file''),
     parse_request = (\<lambda>_ u. Inr \<lparr>u_prefix = [], u_Path = u, u_RawPath = [], u_RawQuery = []\<rparr>),
     parse_url = (\<lambda>_. None), url_string = u_Path, working_dir = Some ''/w'', boundary = ''b'',
     new_schema = (\<lambda>_. Inr (\<lambda>_. Inr (True, [])))\<rparr>"

definition demo_http_config :: http_config where
  "demo_http_config = \<lparr>hc_Path = ''/w/s.json'', hc_Root = ''/w'',
     hc_Base = \<lparr>b_URL = ''http://h'', b_Header = [(''x-id'', ''1''), (''x-key'', ''k'')], b_Insecure = False,
       b_OAUTH2 = None\<rparr>,
     hc_Tests = []\<rparr>"

definition demo_request :: request_cfg where
  "demo_request = \<lparr>q_URL = [], q_Path = [], q_Method = [], q_Header = [(''X-Id'', ''2'')], q_Body = JNull,
     q_Multipart = None, q_FormData = Some [(''name'', ''John Doe'')]\<rparr>"

text \<open>
  C16: The headers of a prepared request. Whatever the order the maps are ranged over, the request
  carries under each name, up to its canonical form, the value its own description gives, or else
  the one of the base, and only when that is empty the content type that goes with the body;
  this for headers that do not name the same header twice.
\<close>

theorem toHTTPRequest_headers:
  assumes "toHTTPRequest env cfg q = Inr rq" and "getBody env cfg q = Inr (body, cntType)"
    and "distinct (map (canonical_key \<circ> fst) (q_Header q))"
    and "distinct (map (canonical_key \<circ> fst) (b_Header (hc_Base cfg)))"
  shows "header_Get (rq_Header rq) k =
    (let given = (case map_of (canonical (q_Header q)) (canonical_key k) of
         Some v \<Rightarrow> v
       | None \<Rightarrow> (case map_of (canonical (b_Header (hc_Base cfg))) (canonical_key k) of
           Some v \<Rightarrow> v | None \<Rightarrow> []))
     in if given = [] \<and> canonical_key k = canonical_key ''Content-Type'' then cntType else given)"
proof -
  from assms(1,2) obtain u where
    "parse_request env (if q_Method q = [] then ''GET'' else q_Method q) (request_url cfg q) = Inr u"
    by (auto simp: toHTTPRequest_def Let_def split: sum.splits)
  define rq0 where "rq0 = \<lparr>rq_Method = if q_Method q = [] then ''GET'' else q_Method q, rq_URL = u,
    rq_Header = [], rq_Body = body\<rparr>"
  have empty: "rq_Header rq0 = []" by (simp add: rq0_def)
  have rq: "rq = (let rq2 = setHeaderinHTTPRequest (q_Header q)
        (setHeaderinHTTPRequest (b_Header (hc_Base cfg)) rq0)
      in if cntType \<noteq> [] \<and> header_Get (rq_Header rq2) ''Content-Type'' = []
         then rq2\<lparr>rq_Header := header_Set ''Content-Type'' cntType (rq_Header rq2)\<rparr> else rq2)"
    using assms(1) unfolding toHTTPRequest_def assms(2) Let_def rq0_def
    by (simp add: \<open>parse_request env _ _ = Inr u\<close>)
  let ?rq2 = "setHeaderinHTTPRequest (q_Header q) (setHeaderinHTTPRequest (b_Header (hc_Base cfg)) rq0)"
  define given where "given k = (case map_of (canonical (q_Header q)) (canonical_key k) of
         Some v \<Rightarrow> v
       | None \<Rightarrow> (case map_of (canonical (b_Header (hc_Base cfg))) (canonical_key k) of
           Some v \<Rightarrow> v | None \<Rightarrow> []))" for k
  have none: "header_lookup [] k' = None" for k'
    by (simp add: header_lookup_def header_values_def)
  have get2: "header_Get (rq_Header ?rq2) k' = given k'" for k'
    by (simp add: header_Get_lookup set_header_lookup [OF assms(3)] set_header_lookup [OF assms(4)]
        empty none given_def split: option.split)
  have "rq_Header rq = (if cntType \<noteq> [] \<and> header_Get (rq_Header ?rq2) ''Content-Type'' = []
      then header_Set ''Content-Type'' cntType (rq_Header ?rq2) else rq_Header ?rq2)"
    by (simp add: rq Let_def)
  then have "header_Get (rq_Header rq) k =
      (if cntType \<noteq> [] \<and> canonical_key k = canonical_key ''Content-Type'' \<and> given k = []
       then cntType else given k)"
    using header_Get_default [of "cntType \<noteq> []" "rq_Header ?rq2" "''Content-Type''" cntType k]
    unfolding get2 by simp
  then show ?thesis unfolding given_def [symmetric] Let_def by auto
qed

lemma demo_canonical:
  "canonical_key ''x-id'' = ''X-Id''" "canonical_key ''X-Id'' = ''X-Id''" "canonical_key ''x-key'' = ''X-Key''"
  "canonical_key ''Content-Type'' = ''Content-Type''"
  by (simp_all add: canonical_eval)

theorem toHTTPRequest_headers_witness:
  "\<exists>rq. toHTTPRequest demo_http_env demo_http_config demo_request = Inr rq \<and>
     header_Get (rq_Header rq) ''x-id'' = ''2'' \<and> header_Get (rq_Header rq) ''x-key'' = ''k'' \<and>
     header_Get (rq_Header rq) ''Content-Type'' = ''application/x-www-form-urlencoded''"
proof -
  have body: "getBody demo_http_env demo_http_config demo_request
      = Inr (Some (fromFormData [(''name'', ''John Doe'')]), ''application/x-www-form-urlencoded'')"
    by (simp add: getBody_def demo_request_def)
  obtain rq where rq: "toHTTPRequest demo_http_env demo_http_config demo_request = Inr rq"
    unfolding toHTTPRequest_def body by (simp add: Let_def demo_http_env_def)
  have d: "distinct (map (canonical_key \<circ> fst) (q_Header demo_request))"
    "distinct (map (canonical_key \<circ> fst) (b_Header (hc_Base demo_http_config)))"
    by (simp_all add: demo_request_def demo_http_config_def demo_canonical)
  note get = toHTTPRequest_headers [OF rq body d]
  have "header_Get (rq_Header rq) ''x-id'' = ''2''" "header_Get (rq_Header rq) ''x-key'' = ''k''"
    "header_Get (rq_Header rq) ''Content-Type'' = ''application/x-www-form-urlencoded''"
    unfolding get by (simp_all add: demo_canonical canonical_def demo_request_def demo_http_config_def)
  with rq show ?thesis by blast
qed

text \<open>
  C17: A form body is read back as the form: decoding the body that form data becomes, as the media
  type application/x-www-form-urlencoded is decoded, gives every field with its value, in the order
  of the names, whatever bytes names and values contain.
\<close>

theorem fromFormData_roundtrip:
  assumes "wf_map m"
  shows "form_decode (fromFormData m) = map (\<lambda>k. (k, the (map_of m k))) (sort (map fst m))"
  by (simp add: fromFormData_def fold_update_copy [OF assms] form_decode_encode)

theorem fromFormData_roundtrip_witness:
  "form_decode (fromFormData [(''q'', ''a=b&c''), (''n'', ''J D'')]) = [(''n'', ''J D''), (''q'', ''a=b&c'')]"
  using fromFormData_roundtrip [of "[(''q'', ''a=b&c''), (''n'', ''J D'')]"]
  by (simp add: less_char_def)

text \<open>
  A JSON body is read back as its value: a body given inline in the description, a value with
  valid text and no reference of its own, is sent as JSON that decodes to the same value (numbers by
  their text, objects with their keys in order), with the JSON content type.
\<close>

theorem getBody_json:
  assumes "q_Body q = v" and "v \<noteq> JNull" and "wf_json v" and "strings_valid v"
    and "getDocumentField env cfg v = Inr (Doc v)"
    and "getBody env cfg q = Inr (body, cntType)"
  shows "\<exists>s. body = Some s \<and> json_decode s = Some (json_norm v) \<and>
    cntType = ''application/json; charset=utf-8''"
proof -
  from assms(1,2,5,6) obtain s where "json_marshal v = Some s" "body = Some s"
    "cntType = ''application/json; charset=utf-8''"
    by (auto simp: getBody_def split: option.splits)
  with json_roundtrip [OF assms(3,4)] show ?thesis by blast
qed

theorem getBody_json_witness:
  "json_decode ''[true]'' = Some (JArr [JBool True])"
proof -
  let ?q = "demo_request\<lparr>q_Body := JArr [JBool True]\<rparr>"
  have body: "getBody demo_http_env demo_http_config ?q
      = Inr (Some ''[true]'', ''application/json; charset=utf-8'')"
    by (simp add: getBody_def getDocumentField_def json_marshal_def)
  have "\<exists>s. Some ''[true]'' = Some s \<and> json_decode s = Some (json_norm (JArr [JBool True])) \<and>
      ''application/json; charset=utf-8'' = ''application/json; charset=utf-8''"
    by (rule getBody_json [OF _ _ _ _ _ body]) (simp_all add: getDocumentField_def)
  then show ?thesis by simp
qed

end
