(* ===== verification/Http_Config.thy ===== *)
theory Http_Config
  imports Http_Request
begin

text \<open>
  From the configuration of an HTTP suite to its prepared tests
  (\<open>testsuite/httpexpect/config.go\<close>: \<open>genTests\<close>, \<open>prepare\<close>, \<open>fixRefInDoc\<close>, \<open>concatErrors\<close>,
  \<open>Example\<close>). The problems found with a test are a list of values, printed by the code as the lines
  of one error. \<open>find_vars\<close> is \<open>varsTmpl.FindAllString\<close>: the leftmost non-overlapping occurrences of
  two opening braces, a name of letters, digits, dots, underscores and dashes, and two closing
  braces.
\<close>

subsection \<open>Template variables\<close>

definition name_char :: "char \<Rightarrow> bool" where
  "name_char c \<longleftrightarrow> is_alnum c \<or> c = CHR ''.'' \<or> c = CHR ''_'' \<or> c = CHR ''-''"

definition open_var :: string where "open_var = [CHR 0x7B, CHR 0x7B]"
definition close_var :: string where "close_var = [CHR 0x7D, CHR 0x7D]"

definition braced :: "string \<Rightarrow> string" where
  "braced n = open_var @ n @ close_var"

text \<open>The variable at the start of a text, if there is one: its name and what follows it.\<close>

definition var_at :: "string \<Rightarrow> (string \<times> string) option" where
  "var_at s =
     (if has_prefix s open_var then
        let n = takeWhile name_char (drop 2 s); r = dropWhile name_char (drop 2 s) in
        if n \<noteq> [] \<and> has_prefix r close_var then Some (n, drop 2 r) else None
      else None)"

lemma var_at_Some:
  assumes "var_at s = Some (n, r)"
  shows "s = braced n @ r" "n \<noteq> []" "\<forall>c \<in> set n. name_char c"
proof -
  let ?n = "takeWhile name_char (drop 2 s)" and ?r = "dropWhile name_char (drop 2 s)"
  from assms have p: "has_prefix s open_var" "has_prefix ?r close_var" "n = ?n" "n \<noteq> []" "r = drop 2 ?r"
    by (auto simp: var_at_def Let_def split: if_splits)
  from p(1) obtain a where a: "s = open_var @ a" by (auto simp: has_prefix_iff)
  from p(2) obtain b where b: "?r = close_var @ b" by (auto simp: has_prefix_iff)
  have "s = open_var @ ?n @ ?r" by (simp add: a open_var_def)
  with b p(3,5) show "s = braced n @ r" by (simp add: braced_def close_var_def)
  show "n \<noteq> []" by fact
  show "\<forall>c \<in> set n. name_char c" using p(3) by (auto dest: set_takeWhileD)
qed

lemma not_name_brace: "\<not> name_char (CHR 0x7D)" "\<not> name_char (CHR 0x7B)"
  by (simp_all add: name_char_def is_alnum_def is_upper_def is_lower_def is_digit_def)

lemma var_at_braced:
  assumes "n \<noteq> []" and "\<forall>c \<in> set n. name_char c"
  shows "var_at (braced n @ r) = Some (n, r)"
  using assms not_name_brace
  by (simp add: var_at_def braced_def open_var_def close_var_def takeWhile_append dropWhile_append Let_def)

function find_vars :: "string \<Rightarrow> string list" where
  "find_vars s =
     (case s of
        [] \<Rightarrow> []
      | c # t \<Rightarrow>
          (case var_at s of
             Some (n, r) \<Rightarrow> braced n # find_vars r
           | None \<Rightarrow> find_vars t))"
  by pat_completeness auto
termination
proof (relation "measure length")
  fix s c t p n r
  assume "s = c # t" "var_at s = Some p" "(n, r) = p"
  then have "s = braced n @ r" by (auto dest: var_at_Some(1))
  then show "(r, s) \<in> measure length" by (simp add: braced_def open_var_def)
qed auto

declare find_vars.simps [simp del]

subsection \<open>References in a JSON schema\<close>

definition fix_ref :: "http_env \<Rightarrow> http_config \<Rightarrow> string \<Rightarrow> string" where
  "fix_ref env cfg ref =
     (if contains_str ref ''://'' then ref
      else (case path_abs (working_dir env) (http_getFilePath cfg ref) of
              None \<Rightarrow> ref
            | Some p \<Rightarrow> ''file://'' @ p))"

text \<open>
  \<open>fixRefInDoc\<close> and \<open>fixRefInInterface\<close> on one value: the text under a key \<open>$ref\<close> is rewritten, what
  else may be under that key is left alone, and everything under other keys is visited.
\<close>

fun fixRefInInterface :: "http_env \<Rightarrow> http_config \<Rightarrow> json \<Rightarrow> json" where
  "fixRefInInterface env cfg (JArr vs) = JArr (map (fixRefInInterface env cfg) vs)"
| "fixRefInInterface env cfg (JObj kvs) =
     JObj (map (\<lambda>kv. (fst kv,
       if fst kv = ''$ref'' then (case snd kv of JStr ref \<Rightarrow> JStr (fix_ref env cfg ref) | v \<Rightarrow> v)
       else fixRefInInterface env cfg (snd kv))) kvs)"
| "fixRefInInterface env cfg v = v"

definition fixRefInDoc :: "http_env \<Rightarrow> http_config \<Rightarrow> (string, json) gomap \<Rightarrow> (string, json) gomap" where
  "fixRefInDoc env cfg m =
     (case fixRefInInterface env cfg (JObj m) of JObj m' \<Rightarrow> m' | _ \<Rightarrow> m)"

subsection \<open>Preparing tests\<close>

datatype prepare_error =
    Body_Conflict
  | Bad_Request request_error
  | Document_And_Schema
  | Document_And_Values
  | Bad_Document doc_error
  | Bad_Schema string
  | Bad_Values doc_error

definition count_set :: "request_cfg \<Rightarrow> nat" where
  "count_set q = (if q_Body q \<noteq> JNull then 1 else 0) + (if q_Multipart q \<noteq> None then 1 else 0) +
     (if q_FormData q \<noteq> None then 1 else 0)"

text \<open>A decoded document as the interface value the code keeps: null is nil, that is no document.\<close>

definition as_document :: "document \<Rightarrow> document option" where
  "as_document d = (case d of Doc JNull \<Rightarrow> None | _ \<Rightarrow> Some d)"

definition is_raw :: "document \<Rightarrow> bool" where
  "is_raw d = (case d of Raw _ \<Rightarrow> True | Doc _ \<Rightarrow> False)"

text \<open>
  The parts of \<open>prepare\<close>: each gives its problems and what it sets. The flag of the last three says
  whether a JSON body is expected.
\<close>

definition prepare_request ::
  "http_env \<Rightarrow> http_config \<Rightarrow> request_cfg \<Rightarrow> prepare_error list \<times> http_request option" where
  "prepare_request env cfg q =
     (case toHTTPRequest env cfg q of
        Inl e \<Rightarrow> ([Bad_Request e], None)
      | Inr rq \<Rightarrow> ([], Some rq))"

definition prepare_document ::
  "http_env \<Rightarrow> http_config \<Rightarrow> json \<Rightarrow> prepare_error list \<times> document option \<times> bool" where
  "prepare_document env cfg v =
     (if v = JNull then ([], None, False)
      else case getDocumentField env cfg v of
             Inl e \<Rightarrow> ([Bad_Document e], None, False)
           | Inr d \<Rightarrow> ([], as_document d, \<not> is_raw d))"

definition prepare_schema ::
  "http_env \<Rightarrow> http_config \<Rightarrow> (string, json) gomap option
    \<Rightarrow> prepare_error list \<times> json_schema option \<times> bool" where
  "prepare_schema env cfg s =
     (case s of
        None \<Rightarrow> ([], None, False)
      | Some m \<Rightarrow>
          (case new_schema env (JObj (fixRefInDoc env cfg m)) of
             Inl e \<Rightarrow> ([Bad_Schema e], None, True)
           | Inr sch \<Rightarrow> ([], Some sch, True)))"

definition prepare_values ::
  "http_env \<Rightarrow> http_config \<Rightarrow> (string, json) gomap option
    \<Rightarrow> prepare_error list \<times> (string, json) gomap option \<times> bool" where
  "prepare_values env cfg jv =
     (case jv of
        None \<Rightarrow> ([], None, False)
      | Some m \<Rightarrow>
          (case getObjectField env cfg m of
             Inl e \<Rightarrow> ([Bad_Values e], None, True)
           | Inr m' \<Rightarrow> ([], m', True)))"

definition prepare ::
  "http_env \<Rightarrow> http_config \<Rightarrow> test_cfg \<Rightarrow> prepare_error list + http_test" where
  "prepare env cfg c =
     (let x = c_Expect c;
          body_errs = (if 1 < count_set (c_Request c) then [Body_Conflict] else []);
          (req_errs, req) = prepare_request env cfg (c_Request c);
          doc_schema = (if e_Document x \<noteq> JNull \<and> e_JSONSchema x \<noteq> None then [Document_And_Schema] else []);
          doc_values = (if e_Document x \<noteq> JNull \<and> e_JSONValues x \<noteq> None then [Document_And_Values] else []);
          (doc_errs, doc, json1) = prepare_document env cfg (e_Document x);
          (schema_errs, schema, json2) = prepare_schema env cfg (e_JSONSchema x);
          (value_errs, values, json3) = prepare_values env cfg (e_JSONValues x);
          errs = body_errs @ req_errs @ doc_schema @ doc_values @ doc_errs @ schema_errs @ value_errs
      in case req of
           None \<Rightarrow> Inl errs
         | Some rq \<Rightarrow>
             if errs \<noteq> [] then Inl errs
             else
               let rq1 = (if (json1 \<or> json2 \<or> json3) \<and> header_Get (rq_Header rq) ''Accept'' = []
                          then rq\<lparr>rq_Header := header_Set ''Accept'' ''application/json'' (rq_Header rq)\<rparr>
                          else rq)
               in Inr \<lparr>t_id = c_ID c, t_name = c_Name c,
                    t_description = rq_Method rq @ '' '' @ url_string env (rq_URL rq),
                    t_saveDoc = c_SaveDocument c, t_req = rq1,
                    t_urlPathQueries = find_vars (u_RawPath (rq_URL rq)),
                    t_urlQueryQueries = find_vars (u_RawQuery (rq_URL rq)),
                    t_statusCode = (if e_StatusCode x = 0 then 200 else e_StatusCode x),
                    t_header = MergeHeaders [e_Header x],
                    t_document = doc, t_jsonSchema = schema, t_jsonValues = values\<rparr>)"

datatype gen_error =
    No_Base_URL
  | Bad_Base_URL string
  | No_Tests
  | Bad_Tests "(string \<times> prepare_error list) list"

text \<open>The loop of \<open>genTests\<close>: the tests prepared and the problems, both in order.\<close>

fun prepare_all ::
  "http_env \<Rightarrow> http_config \<Rightarrow> test_cfg option list
    \<Rightarrow> ((string \<times> prepare_error list) list \<times> http_test list) run" where
  "prepare_all env cfg [] = Ret ([], [])"
| "prepare_all env cfg (None # cs) = Panics Nil_Dereference"
| "prepare_all env cfg (Some c # cs) =
     map_run (\<lambda>(errs, ts). case prepare env cfg c of
         Inl es \<Rightarrow> ((c_Name c, es) # errs, ts)
       | Inr t \<Rightarrow> (errs, t # ts))
       (prepare_all env cfg cs)"

definition genTests :: "http_env \<Rightarrow> http_config \<Rightarrow> (gen_error + http_test list) run" where
  "genTests env cfg =
     (if b_URL (hc_Base cfg) = [] then Ret (Inl No_Base_URL)
      else case parse_url env (b_URL (hc_Base cfg)) of
        Some e \<Rightarrow> Ret (Inl (Bad_Base_URL e))
      | None \<Rightarrow>
          if hc_Tests cfg = [] then Ret (Inl No_Tests)
          else map_run (\<lambda>(errs, ts). if errs \<noteq> [] then Inl (Bad_Tests errs) else Inr ts)
                 (prepare_all env cfg (hc_Tests cfg)))"

definition Example :: http_config where
  "Example = \<lparr>hc_Path = [], hc_Root = [],
     hc_Base = \<lparr>b_URL = ''localhost:8000'', b_Header = [], b_Insecure = False, b_OAUTH2 = None\<rparr>,
     hc_Tests = [Some \<lparr>c_ID = ''index'', c_Name = ''Index'',
       c_Request = \<lparr>q_URL = [], q_Path = ''/'', q_Method = [], q_Header = [], q_Body = JNull,
         q_Multipart = None, q_FormData = Some [(''name'', ''John Doe'')]\<rparr>,
       c_Expect = \<lparr>e_StatusCode = 404, e_Header = [(''X-Custom-Header'', ''1'')],
         e_Document = JObj [(''message'', JStr ''User not found!'')], e_JSONSchema = None, e_JSONValues = None\<rparr>,
       c_SaveDocument = False\<rparr>]\<rparr>"

subsection \<open>Properties of the parts\<close>

lemma contains_file_ref: "contains_str (''file://'' @ p) ''://''"
  using contains_append [of "''file''" "''://''" p] by simp

lemma fix_ref_fixed: "fix_ref env cfg (fix_ref env cfg ref) = fix_ref env cfg ref"
proof (cases "contains_str ref ''://''")
  case True
  then show ?thesis by (simp add: fix_ref_def)
next
  case False
  show ?thesis
  proof (cases "path_abs (working_dir env) (http_getFilePath cfg ref)")
    case None
    with False have "fix_ref env cfg ref = ref" by (simp add: fix_ref_def)
    then show ?thesis by simp
  next
    case (Some p)
    with False have "fix_ref env cfg ref = ''file://'' @ p" by (simp add: fix_ref_def)
    then show ?thesis by (simp add: fix_ref_def contains_file_ref del: append_Cons)
  qed
qed

text \<open>Every string under a key \<open>$ref\<close> that the rewriting reaches satisfies \<open>P\<close>.\<close>

fun refs_all :: "(string \<Rightarrow> bool) \<Rightarrow> json \<Rightarrow> bool" where
  "refs_all P (JArr vs) = list_all (refs_all P) vs"
| "refs_all P (JObj kvs) = list_all (\<lambda>kv.
     if fst kv = ''$ref'' then (case snd kv of JStr r \<Rightarrow> P r | _ \<Rightarrow> True) else refs_all P (snd kv)) kvs"
| "refs_all P _ = True"

lemma fixRef_refs_all:
  assumes "\<And>r. P (fix_ref env cfg r)"
  shows "refs_all P (fixRefInInterface env cfg v)"
proof (induction v)
  case (JObj kvs)
  have "if fst kv = ''$ref''
      then (case (case snd kv of JStr r \<Rightarrow> JStr (fix_ref env cfg r) | v \<Rightarrow> v) of JStr r \<Rightarrow> P r | _ \<Rightarrow> True)
      else refs_all P (fixRefInInterface env cfg (snd kv))" if "kv \<in> set kvs" for kv
    using that JObj.IH [of kv "snd kv"] assms by (auto simp: snds.simps split: json.split)
  then show ?case by (auto simp: list_all_iff)
qed (auto simp: list_all_iff)

lemma fixRef_fixed: "refs_all (\<lambda>r. fix_ref env cfg r = r) v \<Longrightarrow> fixRefInInterface env cfg v = v"
proof (induction v)
  case (JArr vs)
  then have "map (fixRefInInterface env cfg) vs = vs" by (intro map_idI) (auto simp: list_all_iff)
  then show ?case by simp
next
  case (JObj kvs)
  have "(fst kv, if fst kv = ''$ref'' then (case snd kv of JStr ref \<Rightarrow> JStr (fix_ref env cfg ref) | v \<Rightarrow> v)
       else fixRefInInterface env cfg (snd kv)) = kv" if "kv \<in> set kvs" for kv
  proof -
    obtain k v where kv: "kv = (k, v)" by fastforce
    from JObj.prems have all: "\<forall>kv \<in> set kvs. if fst kv = ''$ref''
        then (case snd kv of JStr r \<Rightarrow> fix_ref env cfg r = r | _ \<Rightarrow> True)
        else refs_all (\<lambda>r. fix_ref env cfg r = r) (snd kv)"
      by (simp only: refs_all.simps list_all_iff)
    from bspec [OF all that] have "if k = ''$ref'' then (case v of JStr r \<Rightarrow> fix_ref env cfg r = r | _ \<Rightarrow> True)
        else refs_all (\<lambda>r. fix_ref env cfg r = r) v"
      by (simp only: kv fst_conv snd_conv)
    with JObj.IH [OF that, of v] show ?thesis
      by (cases "k = ''$ref''"; cases v) (simp_all add: kv)
  qed
  then have "map (\<lambda>kv. (fst kv,
       if fst kv = ''$ref'' then (case snd kv of JStr ref \<Rightarrow> JStr (fix_ref env cfg ref) | v \<Rightarrow> v)
       else fixRefInInterface env cfg (snd kv))) kvs = kvs" by (intro map_idI) auto
  then show ?case by simp
qed auto

lemma prepare_Inr:
  assumes "prepare env cfg c = Inr t"
  obtains rq doc schema vals json1 json2 json3 where
    "count_set (c_Request c) \<le> 1" "toHTTPRequest env cfg (c_Request c) = Inr rq"
    "e_Document (c_Expect c) = JNull \<or> e_JSONSchema (c_Expect c) = None \<and> e_JSONValues (c_Expect c) = None"
    "prepare_document env cfg (e_Document (c_Expect c)) = ([], doc, json1)"
    "prepare_schema env cfg (e_JSONSchema (c_Expect c)) = ([], schema, json2)"
    "prepare_values env cfg (e_JSONValues (c_Expect c)) = ([], vals, json3)"
    "t = \<lparr>t_id = c_ID c, t_name = c_Name c,
       t_description = rq_Method rq @ '' '' @ url_string env (rq_URL rq),
       t_saveDoc = c_SaveDocument c,
       t_req = (if (json1 \<or> json2 \<or> json3) \<and> header_Get (rq_Header rq) ''Accept'' = []
                then rq\<lparr>rq_Header := header_Set ''Accept'' ''application/json'' (rq_Header rq)\<rparr> else rq),
       t_urlPathQueries = find_vars (u_RawPath (rq_URL rq)),
       t_urlQueryQueries = find_vars (u_RawQuery (rq_URL rq)),
       t_statusCode = (if e_StatusCode (c_Expect c) = 0 then 200 else e_StatusCode (c_Expect c)),
       t_header = MergeHeaders [e_Header (c_Expect c)],
       t_document = doc, t_jsonSchema = schema, t_jsonValues = vals\<rparr>"
proof -
  obtain de doc json1 where d: "prepare_document env cfg (e_Document (c_Expect c)) = (de, doc, json1)"
    by (metis prod_cases3)
  obtain se schema json2 where s: "prepare_schema env cfg (e_JSONSchema (c_Expect c)) = (se, schema, json2)"
    by (metis prod_cases3)
  obtain ve vals json3 where v: "prepare_values env cfg (e_JSONValues (c_Expect c)) = (ve, vals, json3)"
    by (metis prod_cases3)
  obtain re req where r: "prepare_request env cfg (c_Request c) = (re, req)" by fastforce
  define errs where "errs = (if 1 < count_set (c_Request c) then [Body_Conflict] else []) @ re @
    (if e_Document (c_Expect c) \<noteq> JNull \<and> e_JSONSchema (c_Expect c) \<noteq> None then [Document_And_Schema] else []) @
    (if e_Document (c_Expect c) \<noteq> JNull \<and> e_JSONValues (c_Expect c) \<noteq> None then [Document_And_Values] else []) @
    de @ se @ ve"
  note shape = prepare_def [of env cfg c, unfolded Let_def d s v r prod.case, folded errs_def]
  from assms obtain rq where req: "req = Some rq" unfolding shape by (cases req) simp_all
  have none: "errs = []" using assms unfolding shape req option.case by (cases "errs = []") simp_all
  then have parts: "\<not> 1 < count_set (c_Request c)" "re = []" "de = []" "se = []" "ve = []"
    "e_Document (c_Expect c) = JNull \<or> e_JSONSchema (c_Expect c) = None \<and> e_JSONValues (c_Expect c) = None"
    by (auto simp: errs_def split: if_splits)
  have rq: "toHTTPRequest env cfg (c_Request c) = Inr rq"
    using r by (simp add: prepare_request_def req split: sum.splits)
  show ?thesis
    by (rule that [OF _ rq parts(6) d [unfolded parts] s [unfolded parts] v [unfolded parts]])
      (use assms parts none in \<open>simp_all only: shape req option.case not_less if_False simp_thms
        sum.inject\<close>)
qed

lemma prepare_problems: "prepare env cfg c \<noteq> Inl []"
proof -
  obtain de doc json1 where d: "prepare_document env cfg (e_Document (c_Expect c)) = (de, doc, json1)"
    by (metis prod_cases3)
  obtain se schema json2 where s: "prepare_schema env cfg (e_JSONSchema (c_Expect c)) = (se, schema, json2)"
    by (metis prod_cases3)
  obtain ve vals json3 where v: "prepare_values env cfg (e_JSONValues (c_Expect c)) = (ve, vals, json3)"
    by (metis prod_cases3)
  obtain re req where r: "prepare_request env cfg (c_Request c) = (re, req)" by fastforce
  note shape = prepare_def [of env cfg c, unfolded Let_def d s v r prod.case]
  show ?thesis
  proof (cases req)
    case None
    with r have "re \<noteq> []" by (auto simp: prepare_request_def split: sum.splits)
    then show ?thesis unfolding shape None by simp
  next
    case (Some rq)
    then show ?thesis unfolding shape Some option.case by (simp del: append_is_Nil_conv)
  qed
qed

definition one_body :: "request_cfg \<Rightarrow> bool" where
  "one_body q \<longleftrightarrow>
     (q_Body q = JNull \<or> q_Multipart q = None) \<and> (q_Body q = JNull \<or> q_FormData q = None) \<and>
     (q_Multipart q = None \<or> q_FormData q = None)"

lemma count_set_one: "count_set q \<le> Suc 0 \<longleftrightarrow> one_body q"
  by (auto simp: count_set_def one_body_def)

definition preparable :: "http_env \<Rightarrow> http_config \<Rightarrow> test_cfg \<Rightarrow> bool" where
  "preparable env cfg c \<longleftrightarrow>
     one_body (c_Request c) \<and> (\<exists>rq. toHTTPRequest env cfg (c_Request c) = Inr rq) \<and>
     (e_Document (c_Expect c) = JNull \<or>
        e_JSONSchema (c_Expect c) = None \<and> e_JSONValues (c_Expect c) = None \<and>
        (\<exists>d. getDocumentField env cfg (e_Document (c_Expect c)) = Inr d)) \<and>
     (case e_JSONSchema (c_Expect c) of
        None \<Rightarrow> True | Some m \<Rightarrow> (\<exists>sch. new_schema env (JObj (fixRefInDoc env cfg m)) = Inr sch)) \<and>
     (case e_JSONValues (c_Expect c) of
        None \<Rightarrow> True | Some m \<Rightarrow> (\<exists>jv. getObjectField env cfg m = Inr jv))"

lemma preparable_parts:
  assumes "preparable env cfg c"
  shows "\<exists>rq. prepare_request env cfg (c_Request c) = ([], Some rq)"
    "\<exists>d j. prepare_document env cfg (e_Document (c_Expect c)) = ([], d, j)"
    "\<exists>s j. prepare_schema env cfg (e_JSONSchema (c_Expect c)) = ([], s, j)"
    "\<exists>v j. prepare_values env cfg (e_JSONValues (c_Expect c)) = ([], v, j)"
  using assms
  by (auto simp: preparable_def prepare_request_def prepare_document_def prepare_schema_def
      prepare_values_def split: option.splits)

lemma prepare_preparable: "preparable env cfg c \<Longrightarrow> \<exists>t. prepare env cfg c = Inr t"
  using preparable_parts [of env cfg c]
  by (fastforce simp: prepare_def Let_def preparable_def count_set_one [symmetric])

lemma prepare_document_ok:
  "prepare_document env cfg v = ([], d, j) \<Longrightarrow> v = JNull \<or> (\<exists>d. getDocumentField env cfg v = Inr d)"
  by (auto simp: prepare_document_def split: if_splits sum.splits)

lemma prepare_schema_ok:
  "prepare_schema env cfg (Some m) = ([], s, j) \<Longrightarrow> \<exists>sch. new_schema env (JObj (fixRefInDoc env cfg m)) = Inr sch"
  by (auto simp: prepare_schema_def split: sum.splits)

lemma prepare_values_ok:
  "prepare_values env cfg (Some m) = ([], v, j) \<Longrightarrow> \<exists>jv. getObjectField env cfg m = Inr jv"
  by (auto simp: prepare_values_def split: sum.splits)

subsection \<open>Properties\<close>

text \<open>
  Rewriting the references of a JSON schema is done once: a second pass over the rewritten schema
  changes nothing, and when the working directory is known every reference the pass reaches is a
  full URL afterwards.
\<close>

theorem fixRef_idempotent:
  "fixRefInInterface env cfg (fixRefInInterface env cfg v) = fixRefInInterface env cfg v \<and>
   (working_dir env \<noteq> None \<longrightarrow> refs_all (\<lambda>r. contains_str r ''://'') (fixRefInInterface env cfg v))"
proof (intro conjI impI)
  show "fixRefInInterface env cfg (fixRefInInterface env cfg v) = fixRefInInterface env cfg v"
    by (rule fixRef_fixed, rule fixRef_refs_all, rule fix_ref_fixed)
  assume "working_dir env \<noteq> None"
  then have "contains_str (fix_ref env cfg r) ''://''" for r
    by (auto simp: fix_ref_def path_abs_def contains_file_ref simp del: append_Cons)
  then show "refs_all (\<lambda>r. contains_str r ''://'') (fixRefInInterface env cfg v)"
    by (rule fixRef_refs_all)
qed

theorem fixRef_idempotent_witness:
  "refs_all (\<lambda>r. contains_str r ''://'')
     (fixRefInInterface demo_http_env demo_http_config (JObj [(''$ref'', JStr ''a.json'')]))"
  using fixRef_idempotent [of demo_http_env demo_http_config "JObj [(''$ref'', JStr ''a.json'')]"]
  by (simp add: demo_http_env_def del: fixRefInInterface.simps refs_all.simps)

text \<open>
  C18: Which descriptions of a test are accepted: exactly those with at most one of body, multipart and
  form data, whose request can be built, that expect a document or else a schema and values but
  never a document next to one of these, and whose expected document, schema and values can be
  loaded. In every other case there is no test but a list of problems that is not empty.
\<close>

theorem prepare_accepts:
  "(\<exists>t. prepare env cfg c = Inr t) = preparable env cfg c \<and> prepare env cfg c \<noteq> Inl []"
proof
  show "(\<exists>t. prepare env cfg c = Inr t) = preparable env cfg c"
  proof
    assume "\<exists>t. prepare env cfg c = Inr t"
    then obtain t where "prepare env cfg c = Inr t" ..
    then show "preparable env cfg c"
      by (rule prepare_Inr)
        (auto simp: preparable_def count_set_one split: option.split
          dest: prepare_document_ok prepare_schema_ok prepare_values_ok)
  next
    assume "preparable env cfg c"
    then show "\<exists>t. prepare env cfg c = Inr t" by (rule prepare_preparable)
  qed
  show "prepare env cfg c \<noteq> Inl []" by (rule prepare_problems)
qed

definition demo_expect :: expect_cfg where
  "demo_expect = \<lparr>e_StatusCode = 0, e_Header = [(''x-id'', ''7'')], e_Document = JArr [JBool True],
     e_JSONSchema = None, e_JSONValues = None\<rparr>"

definition demo_test_cfg :: test_cfg where
  "demo_test_cfg = \<lparr>c_ID = ''u'', c_Name = ''user'', c_Request = demo_request, c_Expect = demo_expect,
     c_SaveDocument = False\<rparr>"

lemma demo_preparable: "preparable demo_http_env demo_http_config demo_test_cfg"
proof -
  have body: "getBody demo_http_env demo_http_config demo_request
      = Inr (Some (fromFormData [(''name'', ''John Doe'')]), ''application/x-www-form-urlencoded'')"
    by (simp add: getBody_def demo_request_def)
  have "\<exists>rq. toHTTPRequest demo_http_env demo_http_config demo_request = Inr rq"
    unfolding toHTTPRequest_def body by (simp add: Let_def demo_http_env_def)
  then show ?thesis
    by (simp add: preparable_def demo_test_cfg_def demo_expect_def getDocumentField_def)
      (simp add: one_body_def demo_request_def)
qed

text \<open>
  What a prepared test is. It keeps the id, the name and the saving flag; the expected status is
  the one of the description or 200 when none is given; the expected headers are a copy of the
  description's; the path and query variables are those of the request's URL; and the request is
  the described one, with one addition: when a JSON body is expected (a decoded document, a schema or
  values) and no Accept header was given, it accepts application/json.
\<close>

theorem prepare_result:
  assumes "prepare env cfg c = Inr t" and "wf_map (e_Header (c_Expect c))"
  shows "\<exists>rq json. toHTTPRequest env cfg (c_Request c) = Inr rq \<and>
    t_id t = c_ID c \<and> t_name t = c_Name c \<and> t_saveDoc t = c_SaveDocument c \<and>
    t_statusCode t = (if e_StatusCode (c_Expect c) = 0 then 200 else e_StatusCode (c_Expect c)) \<and>
    map_of (t_header t) = map_of (e_Header (c_Expect c)) \<and>
    t_urlPathQueries t = find_vars (u_RawPath (rq_URL rq)) \<and>
    t_urlQueryQueries t = find_vars (u_RawQuery (rq_URL rq)) \<and>
    (json \<longleftrightarrow> (\<exists>v. getDocumentField env cfg (e_Document (c_Expect c)) = Inr (Doc v) \<and>
        e_Document (c_Expect c) \<noteq> JNull) \<or>
       e_JSONSchema (c_Expect c) \<noteq> None \<or> e_JSONValues (c_Expect c) \<noteq> None) \<and>
    rq_Method (t_req t) = rq_Method rq \<and> rq_URL (t_req t) = rq_URL rq \<and> rq_Body (t_req t) = rq_Body rq \<and>
    (\<forall>k. header_Get (rq_Header (t_req t)) k =
       (if json \<and> canonical_key k = canonical_key ''Accept'' \<and> header_Get (rq_Header rq) k = []
        then ''application/json'' else header_Get (rq_Header rq) k))"
  using assms(1)
proof (rule prepare_Inr)
  fix rq doc schema vals json1 json2 json3
  assume rq: "toHTTPRequest env cfg (c_Request c) = Inr rq"
    and d: "prepare_document env cfg (e_Document (c_Expect c)) = ([], doc, json1)"
    and s: "prepare_schema env cfg (e_JSONSchema (c_Expect c)) = ([], schema, json2)"
    and v: "prepare_values env cfg (e_JSONValues (c_Expect c)) = ([], vals, json3)"
    and t: "t = \<lparr>t_id = c_ID c, t_name = c_Name c,
       t_description = rq_Method rq @ '' '' @ url_string env (rq_URL rq),
       t_saveDoc = c_SaveDocument c,
       t_req = (if (json1 \<or> json2 \<or> json3) \<and> header_Get (rq_Header rq) ''Accept'' = []
                then rq\<lparr>rq_Header := header_Set ''Accept'' ''application/json'' (rq_Header rq)\<rparr> else rq),
       t_urlPathQueries = find_vars (u_RawPath (rq_URL rq)),
       t_urlQueryQueries = find_vars (u_RawQuery (rq_URL rq)),
       t_statusCode = (if e_StatusCode (c_Expect c) = 0 then 200 else e_StatusCode (c_Expect c)),
       t_header = MergeHeaders [e_Header (c_Expect c)],
       t_document = doc, t_jsonSchema = schema, t_jsonValues = vals\<rparr>"
  let ?json = "json1 \<or> json2 \<or> json3"
  have j1: "json1 \<longleftrightarrow> (\<exists>v. getDocumentField env cfg (e_Document (c_Expect c)) = Inr (Doc v) \<and>
      e_Document (c_Expect c) \<noteq> JNull)"
    using d by (auto simp: prepare_document_def is_raw_def split: if_splits sum.splits document.splits)
  have j2: "json2 \<longleftrightarrow> e_JSONSchema (c_Expect c) \<noteq> None"
    using s by (auto simp: prepare_schema_def split: option.splits sum.splits)
  have j3: "json3 \<longleftrightarrow> e_JSONValues (c_Expect c) \<noteq> None"
    using v by (auto simp: prepare_values_def split: option.splits sum.splits)
  have "rq_Header (t_req t) = (if ?json \<and> header_Get (rq_Header rq) ''Accept'' = []
      then header_Set ''Accept'' ''application/json'' (rq_Header rq) else rq_Header rq)"
    by (simp add: t)
  then have hdr: "header_Get (rq_Header (t_req t)) k =
       (if ?json \<and> canonical_key k = canonical_key ''Accept'' \<and> header_Get (rq_Header rq) k = []
        then ''application/json'' else header_Get (rq_Header rq) k)" for k
    by (simp only: header_Get_default)
  have "map_of (t_header t) = map_of (e_Header (c_Expect c))"
    using map_of_MergeHeaders [of "[e_Header (c_Expect c)]"] assms(2) by (simp add: t)
  with rq j1 j2 j3 hdr show ?thesis by (intro exI [of _ rq] exI [of _ ?json]) (simp add: t)
qed

theorem prepare_result_witness:
  "\<exists>t. prepare demo_http_env demo_http_config demo_test_cfg = Inr t \<and> t_statusCode t = 200 \<and>
     map_of (t_header t) ''x-id'' = Some ''7''"
proof -
  obtain t where t: "prepare demo_http_env demo_http_config demo_test_cfg = Inr t"
    using prepare_preparable [OF demo_preparable] ..
  have "wf_map (e_Header (c_Expect demo_test_cfg))" by (simp add: demo_test_cfg_def demo_expect_def)
  from prepare_result [OF t this] t show ?thesis
    by (auto simp: demo_test_cfg_def demo_expect_def)
qed

lemma map_filter_nonempty: "List.map_filter f xs \<noteq> [] \<Longrightarrow> \<exists>x \<in> set xs. f x \<noteq> None"
  by (induction xs) (auto simp: List.map_filter_def split: if_splits)

lemma prepare_all_Ret:
  "prepare_all env cfg cs = Ret (errs, ts) \<Longrightarrow>
    errs = List.map_filter (\<lambda>c. case c of
        Some c \<Rightarrow> (case prepare env cfg c of Inl es \<Rightarrow> Some (c_Name c, es) | Inr _ \<Rightarrow> None) | None \<Rightarrow> None) cs \<and>
    ts = List.map_filter (\<lambda>c. case c of
        Some c \<Rightarrow> (case prepare env cfg c of Inl _ \<Rightarrow> None | Inr t \<Rightarrow> Some t) | None \<Rightarrow> None) cs \<and>
    None \<notin> set cs"
proof (induction env cfg cs arbitrary: errs ts rule: prepare_all.induct)
  case (3 env cfg c cs)
  then obtain errs' ts' where rest: "prepare_all env cfg cs = Ret (errs', ts')"
    "(case prepare env cfg c of Inl es \<Rightarrow> ((c_Name c, es) # errs', ts') | Inr t \<Rightarrow> (errs', t # ts')) = (errs, ts)"
    by (auto simp: map_run_Ret_iff)
  from 3(1) [OF rest(1)] rest(2) show ?case
    by (auto simp: List.map_filter_def split: sum.splits)
qed (auto simp: List.map_filter_def)

text \<open>
  C19: \<open>genTests\<close> is all or nothing: a suite with a base URL and at least one test gives, when every
  test can be prepared, exactly the prepared tests in the order of the configuration, and otherwise
  one error that lists, under their names and in order, exactly the tests that cannot.
\<close>

theorem genTests_all_or_nothing:
  assumes "genTests env cfg = Ret res" and "b_URL (hc_Base cfg) \<noteq> []"
    and "parse_url env (b_URL (hc_Base cfg)) = None" and "hc_Tests cfg \<noteq> []"
  shows "case res of
      Inr ts \<Rightarrow> map (prepare env cfg \<circ> the) (hc_Tests cfg) = map Inr ts
    | Inl e \<Rightarrow> e = Bad_Tests (List.map_filter (\<lambda>c. case c of
        Some c \<Rightarrow> (case prepare env cfg c of Inl es \<Rightarrow> Some (c_Name c, es) | Inr _ \<Rightarrow> None) | None \<Rightarrow> None)
        (hc_Tests cfg)) \<and> (\<exists>c es. Some c \<in> set (hc_Tests cfg) \<and> prepare env cfg c = Inl es)"
proof -
  from assms obtain errs ts where all: "prepare_all env cfg (hc_Tests cfg) = Ret (errs, ts)"
    and res: "res = (if errs \<noteq> [] then Inl (Bad_Tests errs) else Inr ts)"
    by (auto simp: genTests_def map_run_Ret_iff)
  note parts = prepare_all_Ret [OF all]
  let ?bad = "\<lambda>c. case c of
      Some c \<Rightarrow> (case prepare env cfg c of Inl es \<Rightarrow> Some (c_Name c, es) | Inr _ \<Rightarrow> None) | None \<Rightarrow> None"
  let ?good = "\<lambda>c. case c of
      Some c \<Rightarrow> (case prepare env cfg c of Inl _ \<Rightarrow> None | Inr t \<Rightarrow> Some t) | None \<Rightarrow> None"
  have good: "map (prepare env cfg \<circ> the) cs = map Inr (List.map_filter ?good cs)"
    if "List.map_filter ?bad cs = []" "None \<notin> set cs" for cs
    using that by (induction cs) (auto simp: List.map_filter_def split: option.splits sum.splits)
  have bad: "\<exists>c es. Some c \<in> set cs \<and> prepare env cfg c = Inl es" if "List.map_filter ?bad cs \<noteq> []" for cs
  proof -
    from map_filter_nonempty [OF that] obtain c where "c \<in> set cs" "?bad c \<noteq> None" by blast
    then show ?thesis by (auto split: option.splits sum.splits)
  qed
  show ?thesis
  proof (cases "errs = []")
    case True
    with parts have "List.map_filter ?bad (hc_Tests cfg) = []" "None \<notin> set (hc_Tests cfg)" by simp_all
    from good [OF this] True res parts show ?thesis by simp
  next
    case False
    with parts have "List.map_filter ?bad (hc_Tests cfg) \<noteq> []" by simp
    from bad [OF this] False res parts show ?thesis by simp
  qed
qed

theorem genTests_all_or_nothing_witness:
  "\<exists>ts. genTests demo_http_env (demo_http_config\<lparr>hc_Tests := [Some (demo_test_cfg\<lparr>c_Request :=
     demo_request\<lparr>q_Multipart := Some []\<rparr>\<rparr>)]\<rparr>) = Ret (Inl (Bad_Tests ts)) \<and> map fst ts = [''user'']"
proof -
  let ?c = "demo_test_cfg\<lparr>c_Request := demo_request\<lparr>q_Multipart := Some []\<rparr>\<rparr>"
  let ?cfg = "demo_http_config\<lparr>hc_Tests := [Some ?c]\<rparr>"
  have "\<not> preparable demo_http_env ?cfg ?c"
    by (simp add: preparable_def one_body_def demo_test_cfg_def demo_request_def)
  then have not: "prepare demo_http_env ?cfg ?c \<noteq> Inr t" for t
    by (auto elim!: prepare_Inr simp: count_set_def demo_test_cfg_def demo_request_def)
  then obtain es where es: "prepare demo_http_env ?cfg ?c = Inl es"
    by (cases "prepare demo_http_env ?cfg ?c") auto
  have url: "b_URL (hc_Base ?cfg) \<noteq> []" "parse_url demo_http_env (b_URL (hc_Base ?cfg)) = None"
    "hc_Tests ?cfg = [Some ?c]"
    by (simp_all add: demo_http_config_def demo_http_env_def)
  have gen: "genTests demo_http_env ?cfg = Ret (Inl (Bad_Tests [(c_Name ?c, es)]))"
    using url es by (simp add: genTests_def)
  have "\<exists>c es. Some c \<in> set (hc_Tests ?cfg) \<and> prepare demo_http_env ?cfg c = Inl es"
    using genTests_all_or_nothing [OF gen url(1,2)] url(3) by simp
  with gen show ?thesis by (auto simp: demo_test_cfg_def)
qed

end
