(* ===== verification/Http_Test.thy ===== *)
theory Http_Test
  imports Http_Config
begin

text \<open>
  Running an HTTP test (\<open>testsuite/httpexpect/httpexpect.go\<close>: \<open>Run\<close>, \<open>cloneRequest\<close>): the
  variables of the URL are replaced by what the metadata of earlier tests hold, the request is
  sent, the response checked. \<open>client.Do\<close> and the reading of the body are a parameter of the model:
  for a request, a time limit and the state of the world, an error, or the response with the body
  or the error of reading it. \<open>replacer\<close> is \<open>strings.NewReplacer(oldnew...).Replace\<close> for old strings
  that are not empty: from left to right, the first of the pairs that matches wins.
\<close>

function replacer :: "(string \<times> string) list \<Rightarrow> string \<Rightarrow> string" where
  "replacer ps s =
     (case s of
        [] \<Rightarrow> []
      | c # t \<Rightarrow>
          (case find (\<lambda>(old, new). old \<noteq> [] \<and> has_prefix s old) ps of
             Some (old, new) \<Rightarrow> new @ replacer ps (drop (length old) s)
           | None \<Rightarrow> c # replacer ps t))"
  by pat_completeness auto
termination
  by (relation "measure (\<lambda>(ps, s). length s)") (auto simp: find_Some_iff)

declare replacer.simps [simp del]

type_synonym 'w http_client =
  "http_request \<Rightarrow> int \<Rightarrow> 'w \<Rightarrow> (string + http_resp \<times> (string + string)) \<times> 'w"

definition cloneRequest :: "http_test \<Rightarrow> http_request" where
  "cloneRequest t =
     \<lparr>rq_Method = rq_Method (t_req t), rq_URL = rq_URL (t_req t),
      rq_Header = map (\<lambda>(k, s). (k, s)) (rq_Header (t_req t)), rq_Body = rq_Body (t_req t)\<rparr>"

text \<open>The expression \<open>q[2:len(q)-2]\<close>, which panics for a string shorter than four bytes.\<close>

definition var_name :: "string \<Rightarrow> string run" where
  "var_name q =
     (if length q < 4 then Panics (Index_Out_Of_Range (int (length q) - 2) (length q))
      else Ret (take (length q - 4) (drop 2 q)))"

fun oldnew :: "(string \<Rightarrow> string) \<Rightarrow> md \<Rightarrow> string list \<Rightarrow> (string \<times> string) list run" where
  "oldnew enc m [] = Ret []"
| "oldnew enc m (q # qs) =
     bind_run (var_name q) (\<lambda>n.
       bind_run (queryJSONData n (JObj m)) (\<lambda>res.
         map_run (\<lambda>ps. case res of Inl _ \<Rightarrow> ps | Inr v \<Rightarrow> (q, enc (json_sprint v)) # ps)
           (oldnew enc m qs)))"

definition substitute_path :: "http_test \<Rightarrow> md \<Rightarrow> http_request \<Rightarrow> http_request run" where
  "substitute_path t m rq =
     (if t_urlPathQueries t = [] then Ret rq
      else map_run (\<lambda>ps. rq\<lparr>rq_URL := (rq_URL rq)\<lparr>u_Path := replacer ps (u_Path (rq_URL rq)), u_RawPath := []\<rparr>\<rparr>)
             (oldnew (\<lambda>s. s) m (t_urlPathQueries t)))"

definition substitute_query :: "http_test \<Rightarrow> md \<Rightarrow> http_request \<Rightarrow> http_request run" where
  "substitute_query t m rq =
     (if t_urlQueryQueries t = [] then Ret rq
      else map_run (\<lambda>ps. rq\<lparr>rq_URL := (rq_URL rq)\<lparr>u_RawQuery := replacer ps (u_RawQuery (rq_URL rq))\<rparr>\<rparr>)
             (oldnew query_escape m (t_urlQueryQueries t)))"

definition http_request_for :: "http_test \<Rightarrow> go_context \<Rightarrow> http_request run" where
  "http_request_for t ctx =
     (case MDFromContext ctx of (m, ok) \<Rightarrow>
        if ok then bind_run (substitute_path t m (cloneRequest t)) (substitute_query t m)
        else Ret (cloneRequest t))"

definition http_Run ::
  "'w http_client \<Rightarrow> http_test \<Rightarrow> int \<Rightarrow> go_context \<Rightarrow> 'w \<Rightarrow> (http_msg list \<times> go_context \<times> 'w) run" where
  "http_Run do t limit ctx w =
     bind_run (http_request_for t ctx) (\<lambda>rq.
       case do rq limit w of
         (Inl e, w1) \<Rightarrow> Ret ([No_Response e], ctx, w1)
       | (Inr (resp, Inl e), w1) \<Rightarrow> Ret ([No_Body e], ctx, w1)
       | (Inr (resp, Inr body), w1) \<Rightarrow>
           map_run (\<lambda>(ms, md'). (ms, ctx\<lparr>ctx_md := md'\<rparr>, w1)) (checkResponse t (ctx_md ctx) resp body))"

definition as_test :: "'w http_client \<Rightarrow> http_test \<Rightarrow> ('w, http_msg) test" where
  "as_test do t = \<lparr>tName = t_name t, tDescription = t_description t, tRun = http_Run do t\<rparr>"

text \<open>
  \<open>New\<close>: the client of a suite, and its tests. The client is what the HTTP library makes of its
  settings; the tracing transport around it is left out.
\<close>

definition client_of :: "http_config \<Rightarrow> client_settings" where
  "client_of cfg =
     (let client = Plain_Client (b_Insecure (hc_Base cfg)) in
      case b_OAUTH2 (hc_Base cfg) of None \<Rightarrow> client | Some o2 \<Rightarrow> OAuth2_Client o2 client)"

definition http_New ::
  "(client_settings \<Rightarrow> 'w http_client) \<Rightarrow> http_env \<Rightarrow> http_config
    \<Rightarrow> (gen_error + ('w, http_msg) test list) run" where
  "http_New do_with env cfg =
     map_run (\<lambda>res. case res of Inl e \<Rightarrow> Inl e | Inr ts \<Rightarrow> Inr (map (as_test (do_with (client_of cfg))) ts))
       (genTests env cfg)"

subsection \<open>Templates\<close>

text \<open>What the substitution is for: a template with the variables \<open>val\<close> knows replaced.\<close>

function render :: "(string \<Rightarrow> string option) \<Rightarrow> string \<Rightarrow> string" where
  "render val s =
     (case s of
        [] \<Rightarrow> []
      | c # t \<Rightarrow>
          (case var_at s of
             Some (n, r) \<Rightarrow> (case val n of Some v \<Rightarrow> v | None \<Rightarrow> braced n) @ render val r
           | None \<Rightarrow> c # render val t))"
  by pat_completeness auto
termination
proof (relation "measure (\<lambda>(val, s). length s)")
  fix val :: "string \<Rightarrow> string option" and s c t p n r
  assume "s = c # t" "var_at s = Some p" "(n, r) = p"
  then have "s = braced n @ r" by (auto dest: var_at_Some(1))
  then show "((val, r), val, s) \<in> measure (\<lambda>(val, s). length s)" by (simp add: braced_def open_var_def)
qed auto

declare render.simps [simp del]

definition is_name :: "string \<Rightarrow> bool" where
  "is_name n \<longleftrightarrow> n \<noteq> [] \<and> (\<forall>c \<in> set n. name_char c)"

lemma render_Nil [simp]: "render val [] = []" and replacer_Nil [simp]: "replacer ps [] = []"
  and find_vars_Nil [simp]: "find_vars [] = []"
  by (simp_all add: render.simps replacer.simps find_vars.simps)

lemma braced_eq [simp]: "braced n = braced m \<longleftrightarrow> n = m"
  by (simp add: braced_def)

lemma braced_not_Nil [simp]: "braced n \<noteq> []"
  by (simp add: braced_def open_var_def)

lemma braced_prefix:
  assumes "is_name n" and "has_prefix s (braced n)"
  shows "var_at s = Some (n, drop (length (braced n)) s)"
proof -
  from assms(2) obtain r where "s = braced n @ r" by (auto simp: has_prefix_iff)
  with assms(1) show ?thesis by (simp add: is_name_def var_at_braced)
qed

text \<open>The pairs the code builds: known variables only, each with its value.\<close>

definition known_pairs :: "(string \<Rightarrow> string option) \<Rightarrow> string list \<Rightarrow> (string \<times> string) list" where
  "known_pairs val ns = List.map_filter (\<lambda>n. map_option (\<lambda>v. (braced n, v)) (val n)) ns"

lemma known_pairs_simps [simp]:
  "known_pairs val [] = []"
  "known_pairs val (n # ns) = (case val n of None \<Rightarrow> known_pairs val ns | Some v \<Rightarrow> (braced n, v) # known_pairs val ns)"
  by (simp_all add: known_pairs_def List.map_filter_def split: option.split)

definition restrict :: "(string \<Rightarrow> string option) \<Rightarrow> string list \<Rightarrow> string \<Rightarrow> string option" where
  "restrict val ns n = (if n \<in> set ns then val n else None)"

lemma find_known_pairs:
  assumes "\<forall>n \<in> set ns. is_name n"
  shows "find (\<lambda>(old, new). old \<noteq> [] \<and> has_prefix s old) (known_pairs val ns) =
    (case var_at s of
       None \<Rightarrow> None
     | Some (n, r) \<Rightarrow> map_option (\<lambda>v. (braced n, v)) (restrict val ns n))"
  using assms
proof (induction ns)
  case Nil
  then show ?case by (simp add: restrict_def split: option.split)
next
  case (Cons m ns)
  then have m: "is_name m" by simp
  show ?case
  proof (cases "has_prefix s (braced m)")
    case True
    from braced_prefix [OF m this] Cons True show ?thesis
      by (auto simp: restrict_def split: option.split)
  next
    case False
    have "n \<noteq> m" if "var_at s = Some (n, r)" for n r
      using var_at_Some(1) [OF that] False by auto
    with Cons False show ?thesis
      by (auto simp: restrict_def split: option.split)
  qed
qed

text \<open>Text without an opening brace is copied.\<close>

lemma replacer_plain:
  assumes "\<forall>n \<in> set ns. is_name n" and "CHR 0x7B \<notin> set a"
  shows "replacer (known_pairs val ns) (a @ s) = a @ replacer (known_pairs val ns) s"
  using assms(2)
proof (induction a)
  case Nil
  then show ?case by simp
next
  case (Cons c a)
  then have "var_at (c # a @ s) = None" by (auto simp: var_at_def open_var_def)
  with Cons find_known_pairs [OF assms(1), of "c # a @ s" val] show ?case
    by (simp add: replacer.simps [of _ "c # a @ s"])
qed

text \<open>A variable without a value stays as it is: no pair matches at either of its braces.\<close>

lemma replacer_unknown:
  assumes names: "\<forall>n \<in> set ns. is_name n"
    and s: "s = braced n @ r" and v: "var_at s = Some (n, r)" and none: "restrict val ns n = None"
    and n: "CHR 0x7B \<notin> set n" "n \<noteq> []"
  shows "replacer (known_pairs val ns) s = braced n @ replacer (known_pairs val ns) r"
proof -
  let ?ps = "known_pairs val ns" and ?t = "n @ close_var @ r"
  have st: "s = CHR 0x7B # CHR 0x7B # ?t" using s by (simp add: braced_def open_var_def)
  have "replacer ?ps s = CHR 0x7B # replacer ?ps (CHR 0x7B # ?t)"
    using find_known_pairs [OF names, of s val] v none
    by (simp add: st replacer.simps [of _ "CHR 0x7B # CHR 0x7B # ?t"])
  also have "var_at (CHR 0x7B # ?t) = None"
    using n by (cases n) (auto simp: var_at_def open_var_def)
  then have "replacer ?ps (CHR 0x7B # ?t) = CHR 0x7B # replacer ?ps ?t"
    using find_known_pairs [OF names, of "CHR 0x7B # ?t" val]
    by (simp add: replacer.simps [of _ "CHR 0x7B # ?t"])
  also have "replacer ?ps ?t = (n @ close_var) @ replacer ?ps r"
    using replacer_plain [OF names, of "n @ close_var" val r] n by (simp add: close_var_def)
  finally show ?thesis by (simp add: braced_def open_var_def)
qed

lemma replacer_render:
  assumes names: "\<forall>n \<in> set ns. is_name n"
  shows "replacer (known_pairs val ns) s = render (restrict val ns) s"
proof (induction "restrict val ns" s rule: render.induct)
  case (1 s)
  let ?ps = "known_pairs val ns"
  show ?case
  proof (cases s)
    case Nil
    then show ?thesis by simp
  next
    case (Cons c t)
    note fnd = find_known_pairs [OF names, of s val]
    show ?thesis
    proof (cases "var_at s")
      case None
      with fnd have "replacer ?ps s = c # replacer ?ps t"
        by (simp add: Cons replacer.simps [of _ "c # t"])
      moreover from None have "render (restrict val ns) s = c # render (restrict val ns) t"
        by (simp add: Cons render.simps [of _ "c # t"])
      ultimately show ?thesis using 1(1) [OF Cons None] by simp
    next
      case (Some p)
      obtain n r where p: "p = (n, r)" by fastforce
      note s = var_at_Some [OF Some [unfolded p]]
      have IH: "replacer ?ps r = render (restrict val ns) r" using 1(2) [OF Cons Some p [symmetric]] .
      have right: "render (restrict val ns) s =
          (case restrict val ns n of Some v \<Rightarrow> v | None \<Rightarrow> braced n) @ render (restrict val ns) r"
        using Some p by (simp add: Cons render.simps [of _ "c # t"])
      show ?thesis
      proof (cases "restrict val ns n")
        case (Some v)
        with fnd \<open>var_at s = Some p\<close> p have "replacer ?ps s = v @ replacer ?ps (drop (length (braced n)) s)"
          by (simp add: Cons replacer.simps [of _ "c # t"])
        also have "drop (length (braced n)) s = r" by (simp add: s(1))
        finally show ?thesis using IH right Some by simp
      next
        case None
        have "CHR 0x7B \<notin> set n" using s(3) not_name_brace by auto
        with None replacer_unknown [OF names s(1) Some [unfolded p]] s(2)
        show ?thesis using IH right by simp
      qed
    qed
  qed
qed

lemma render_cong:
  "\<forall>n. braced n \<in> set (find_vars s) \<longrightarrow> val n = val' n \<Longrightarrow> render val s = render val' s"
proof (induction val s rule: render.induct)
  case (1 val s)
  show ?case
  proof (cases s)
    case Nil
    then show ?thesis by simp
  next
    case (Cons c t)
    show ?thesis
    proof (cases "var_at s")
      case None
      with Cons have "find_vars s = find_vars t" by (simp add: find_vars.simps [of "c # t"])
      with 1(1) [OF Cons None] 1(3) None Cons show ?thesis
        by (simp add: render.simps [of _ "c # t"])
    next
      case (Some p)
      obtain n r where p: "p = (n, r)" by fastforce
      with Cons Some have "find_vars s = braced n # find_vars r" by (simp add: find_vars.simps [of "c # t"])
      with 1(2) [OF Cons Some p [symmetric]] 1(3) Some p Cons show ?thesis
        by (simp add: render.simps [of _ "c # t"])
    qed
  qed
qed

lemma find_vars_names: "\<exists>ns. find_vars s = map braced ns \<and> (\<forall>n \<in> set ns. is_name n)"
proof (induction s rule: find_vars.induct)
  case (1 s)
  show ?case
  proof (cases s)
    case Nil
    then show ?thesis by simp
  next
    case (Cons c t)
    show ?thesis
    proof (cases "var_at s")
      case None
      with 1(1) [OF Cons None] Cons show ?thesis by (simp add: find_vars.simps [of "c # t"])
    next
      case (Some p)
      obtain n r where p: "p = (n, r)" by fastforce
      from 1(2) [OF Cons Some p [symmetric]] obtain ns where "find_vars r = map braced ns" "\<forall>n \<in> set ns. is_name n"
        by blast
      moreover have "is_name n" using var_at_Some(2,3) [OF Some [unfolded p]] by (simp add: is_name_def)
      ultimately show ?thesis using Cons Some p
        by (intro exI [of _ "n # ns"]) (simp add: find_vars.simps [of "c # t"])
    qed
  qed
qed

subsection \<open>The values of variables\<close>

definition query_val :: "(string \<Rightarrow> string) \<Rightarrow> md \<Rightarrow> string \<Rightarrow> string option" where
  "query_val enc m n =
     (case queryJSONData n (JObj m) of Ret (Inr v) \<Rightarrow> Some (enc (json_sprint v)) | _ \<Rightarrow> None)"

lemma var_name_braced: "var_name (braced n) = Ret n"
  by (simp add: var_name_def braced_def open_var_def close_var_def)

lemma oldnew_pairs:
  "oldnew enc m (map braced ns) = Ret ps \<Longrightarrow> ps = known_pairs (query_val enc m) ns"
  by (induction ns arbitrary: ps)
    (auto simp: var_name_braced bind_run_Ret_iff map_run_Ret_iff query_val_def split: sum.splits)

lemma oldnew_returns:
  "\<forall>n \<in> set ns. returns (queryJSONData n (JObj m)) \<Longrightarrow> returns (oldnew enc m (map braced ns))"
proof (induction ns)
  case Nil
  then show ?case by simp
next
  case (Cons n ns)
  then have "returns (queryJSONData n (JObj m))" "returns (oldnew enc m (map braced ns))" by simp_all
  then obtain res ps where "queryJSONData n (JObj m) = Ret res" "oldnew enc m (map braced ns) = Ret ps"
    unfolding returns_iff by blast
  then show ?case by (simp add: var_name_braced)
qed

text \<open>The substitution of one template, with the variables found in a text \<open>src\<close>.\<close>

lemma substitution:
  assumes "oldnew enc m (find_vars src) = Ret ps"
  obtains ns where "find_vars src = map braced ns" "\<forall>n \<in> set ns. is_name n"
    "replacer ps s = render (restrict (query_val enc m) ns) s"
proof -
  from find_vars_names [of src] obtain ns where ns: "find_vars src = map braced ns" "\<forall>n \<in> set ns. is_name n"
    by blast
  from oldnew_pairs [of enc m ns ps] assms ns(1) have "ps = known_pairs (query_val enc m) ns" by simp
  with replacer_render [OF ns(2)] that [OF ns] show ?thesis by simp
qed


lemma render_no_vars: "render (\<lambda>_. None) s = s"
proof (induction "\<lambda>_ :: string. None :: string option" s rule: render.induct)
  case (1 s)
  show ?case
  proof (cases s)
    case Nil
    then show ?thesis by simp
  next
    case (Cons c t)
    show ?thesis
    proof (cases "var_at s")
      case None
      with 1(1) [OF Cons None] Cons show ?thesis by (simp add: render.simps [of _ "c # t"])
    next
      case (Some p)
      obtain n r where p: "p = (n, r)" by fastforce
      note s = var_at_Some(1) [OF Some [unfolded p]]
      from 1(2) [OF Cons Some p [symmetric]] Some p Cons have "render (\<lambda>_. None) s = braced n @ r"
        by (simp add: render.simps [of _ "c # t"])
      with s show ?thesis by simp
    qed
  qed
qed

text \<open>The variables of a text \<open>src\<close> that occur in it, with their values.\<close>

definition vars_of :: "string \<Rightarrow> (string \<Rightarrow> string option) \<Rightarrow> string \<Rightarrow> string option" where
  "vars_of src val n = (if braced n \<in> set (find_vars src) then val n else None)"

lemma vars_of_restrict: "find_vars src = map braced ns \<Longrightarrow> restrict val ns = vars_of src val"
  by (rule ext) (auto simp: restrict_def vars_of_def)

lemma render_vars_of: "render (vars_of s val) s = render val s"
  by (rule render_cong) (simp add: vars_of_def)

lemma render_vars_of_none: "find_vars src = [] \<Longrightarrow> render (vars_of src val) s = s"
  using render_no_vars [of s] by (simp add: vars_of_def [abs_def])

lemma substitution_render:
  assumes "oldnew enc m (find_vars src) = Ret ps"
  shows "replacer ps s = render (vars_of src (query_val enc m)) s"
  using assms by (rule substitution [of _ _ _ _ s]) (simp add: vars_of_restrict)


lemma substitute_query_url:
  assumes "substitute_query t m rq = Ret rq'" and "t_urlQueryQueries t = find_vars (u_RawQuery (rq_URL rq))"
  shows "rq' = rq\<lparr>rq_URL := (rq_URL rq)\<lparr>u_RawQuery :=
    render (query_val query_escape m) (u_RawQuery (rq_URL rq))\<rparr>\<rparr>"
proof (cases "t_urlQueryQueries t = []")
  case True
  with assms have "rq' = rq" "find_vars (u_RawQuery (rq_URL rq)) = []"
    by (simp_all add: substitute_query_def)
  moreover from this(2) have "render (query_val query_escape m) (u_RawQuery (rq_URL rq)) = u_RawQuery (rq_URL rq)"
    using render_vars_of_none render_vars_of by metis
  ultimately show ?thesis by simp
next
  case False
  with assms obtain ps where "oldnew query_escape m (find_vars (u_RawQuery (rq_URL rq))) = Ret ps"
    "rq' = rq\<lparr>rq_URL := (rq_URL rq)\<lparr>u_RawQuery := replacer ps (u_RawQuery (rq_URL rq))\<rparr>\<rparr>"
    by (auto simp: substitute_query_def map_run_Ret_iff)
  with substitution_render show ?thesis by (simp add: render_vars_of)
qed

lemma substitute_path_url:
  assumes "substitute_path t m rq = Ret rq'" and "t_urlPathQueries t = find_vars src"
  shows "u_Path (rq_URL rq') = render (vars_of src (query_val (\<lambda>s. s) m)) (u_Path (rq_URL rq)) \<and>
    u_RawQuery (rq_URL rq') = u_RawQuery (rq_URL rq) \<and> u_prefix (rq_URL rq') = u_prefix (rq_URL rq) \<and>
    rq_Method rq' = rq_Method rq \<and> rq_Header rq' = rq_Header rq \<and> rq_Body rq' = rq_Body rq"
proof (cases "t_urlPathQueries t = []")
  case True
  with assms render_vars_of_none [of src] show ?thesis by (simp add: substitute_path_def)
next
  case False
  with assms obtain ps where "oldnew (\<lambda>s. s) m (find_vars src) = Ret ps"
    "rq' = rq\<lparr>rq_URL := (rq_URL rq)\<lparr>u_Path := replacer ps (u_Path (rq_URL rq)), u_RawPath := []\<rparr>\<rparr>"
    by (auto simp: substitute_path_def map_run_Ret_iff)
  with substitution_render show ?thesis by simp
qed

lemma cloneRequest_same: "cloneRequest t = t_req t"
  by (simp add: cloneRequest_def)

text \<open>The variables of a prepared test are those of its request.\<close>

definition vars_match :: "http_test \<Rightarrow> bool" where
  "vars_match t \<longleftrightarrow> t_urlPathQueries t = find_vars (u_RawPath (rq_URL (t_req t))) \<and>
     t_urlQueryQueries t = find_vars (u_RawQuery (rq_URL (t_req t)))"

lemma prepare_vars: "prepare env cfg c = Inr t \<Longrightarrow> vars_match t"
  by (erule prepare_Inr) (simp add: vars_match_def)

lemma http_request_for_url:
  assumes "vars_match t" and "ctx_md ctx = Some m" and "http_request_for t ctx = Ret rq"
  shows "u_Path (rq_URL rq) = render (vars_of (u_RawPath (rq_URL (t_req t))) (query_val (\<lambda>s. s) m))
      (u_Path (rq_URL (t_req t)))"
    "u_RawQuery (rq_URL rq) = render (query_val query_escape m) (u_RawQuery (rq_URL (t_req t)))"
    "u_prefix (rq_URL rq) = u_prefix (rq_URL (t_req t))"
    "rq_Method rq = rq_Method (t_req t)" "rq_Header rq = rq_Header (t_req t)" "rq_Body rq = rq_Body (t_req t)"
proof -
  from assms(2,3) obtain rq1 where rq1: "substitute_path t m (t_req t) = Ret rq1"
    and rq: "substitute_query t m rq1 = Ret rq"
    by (auto simp: http_request_for_def MDFromContext_def cloneRequest_same bind_run_Ret_iff)
  note path = substitute_path_url [OF rq1, of "u_RawPath (rq_URL (t_req t))"]
  from assms(1) have vars: "t_urlPathQueries t = find_vars (u_RawPath (rq_URL (t_req t)))"
    "t_urlQueryQueries t = find_vars (u_RawQuery (rq_URL (t_req t)))" by (simp_all add: vars_match_def)
  note path = path [OF vars(1)]
  from path vars(2) have "t_urlQueryQueries t = find_vars (u_RawQuery (rq_URL rq1))" by simp
  note query = substitute_query_url [OF rq this]
  from path query show "u_Path (rq_URL rq) = render (vars_of (u_RawPath (rq_URL (t_req t))) (query_val (\<lambda>s. s) m))
      (u_Path (rq_URL (t_req t)))"
    "u_RawQuery (rq_URL rq) = render (query_val query_escape m) (u_RawQuery (rq_URL (t_req t)))"
    "u_prefix (rq_URL rq) = u_prefix (rq_URL (t_req t))"
    "rq_Method rq = rq_Method (t_req t)" "rq_Header rq = rq_Header (t_req t)" "rq_Body rq = rq_Body (t_req t)"
    by simp_all
qed

subsection \<open>Rendering and separators\<close>

lemma var_at_sep:
  assumes "d \<noteq> CHR 0x7B" "d \<noteq> CHR 0x7D" "\<not> name_char d"
  shows "var_at (p @ d # q) = map_option (\<lambda>(n, r). (n, r @ d # q)) (var_at p)"
proof (cases "var_at p")
  case (Some nr)
  obtain n r where nr: "nr = (n, r)" by fastforce
  note p = var_at_Some [OF Some [unfolded nr]]
  from var_at_braced [OF p(2,3), of "r @ d # q"] p(1) Some nr show ?thesis by simp
next
  case None
  have "var_at (p @ d # q) \<noteq> Some (n, r)" for n r
  proof
    assume "var_at (p @ d # q) = Some (n, r)"
    note v = var_at_Some [OF this]
    have "d \<notin> set (braced n)" using assms v(3) by (auto simp: braced_def open_var_def close_var_def)
    moreover from v(1) obtain us where "p = braced n @ us \<or> p @ us = braced n \<and> d # q = us @ r"
      by (auto simp: append_eq_append_conv2)
    moreover have "d \<in> set (braced n)" if "p @ d # l = braced n" for l
      by (simp flip: that)
    ultimately obtain r' where "p = braced n @ r'" by (cases us) auto
    with var_at_braced [OF v(2,3), of r'] None show False by simp
  qed
  with None show ?thesis by (cases "var_at (p @ d # q)") auto
qed

lemma render_sep:
  assumes "d \<noteq> CHR 0x7B" "d \<noteq> CHR 0x7D" "\<not> name_char d"
  shows "render val (p @ d # q) = render val p @ d # render val q"
proof (induction val p rule: render.induct)
  case (1 val p)
  note at = var_at_sep [OF assms, of p q]
  show ?case
  proof (cases p)
    case Nil
    with at show ?thesis by (simp add: render.simps [of _ "d # q"] var_at_def open_var_def)
  next
    case (Cons c t)
    show ?thesis
    proof (cases "var_at p")
      case None
      with 1(1) [OF Cons None] at Cons show ?thesis
        by (simp add: render.simps [of _ "c # t"] render.simps [of _ "c # t @ d # q"])
    next
      case (Some x)
      obtain n r where x: "x = (n, r)" by fastforce
      from 1(2) [OF Cons Some x [symmetric]] at Cons Some x show ?thesis
        by (simp add: render.simps [of _ "c # t"] render.simps [of _ "c # t @ d # q"])
    qed
  qed
qed

lemma render_no_sep:
  assumes "\<And>n v. val n = Some v \<Longrightarrow> d \<notin> set v" and "d \<notin> set s"
  shows "d \<notin> set (render val s)"
  using assms
proof (induction val s rule: render.induct)
  case (1 val s)
  show ?case
  proof (cases s)
    case Nil
    then show ?thesis by simp
  next
    case (Cons c t)
    show ?thesis
    proof (cases "var_at s")
      case None
      from 1(4) Cons have "d \<notin> set t" "d \<noteq> c" by auto
      with 1(1) [OF Cons None 1(3)] None Cons show ?thesis by (simp add: render.simps [of _ "c # t"])
    next
      case (Some p)
      obtain n r where p: "p = (n, r)" by fastforce
      with var_at_Some(1) [OF Some [unfolded p]] 1(4) have "d \<notin> set r" "d \<notin> set (braced n)" by auto
      with 1(2) [OF Cons Some p [symmetric] 1(3)] 1(3) Some p Cons show ?thesis
        by (auto simp: render.simps [of _ "c # t"] split: option.split)
    qed
  qed
qed

lemma split_render:
  assumes "\<And>n v. val n = Some v \<Longrightarrow> d \<notin> set v" and "d \<noteq> CHR 0x7B" "d \<noteq> CHR 0x7D" "\<not> name_char d"
  shows "split_on d (render val s) = map (render val) (split_on d s)"
proof (induction "length s" arbitrary: s rule: less_induct)
  case less
  show ?case
  proof (cases "d \<in> set s")
    case True
    then obtain a b where s: "s = a @ d # b" "d \<notin> set a" by (meson split_list_first)
    have "split_on d b = split_on d b \<and> split_on d (render val b) = map (render val) (split_on d b)"
      using less [of b] s by simp
    with s show ?thesis
      by (simp add: render_sep [OF assms(2-4)] split_on_append render_no_sep [of val d a, OF assms(1)])
  next
    case False
    then show ?thesis by (simp add: split_on_no_sep render_no_sep [of val d s, OF assms(1)])
  qed
qed


lemma render_plain: "CHR 0x7B \<notin> set a \<Longrightarrow> render val (a @ s) = a @ render val s"
proof (induction a)
  case (Cons c a)
  then have "var_at (c # a @ s) = None" by (auto simp: var_at_def open_var_def)
  with Cons show ?case by (simp add: render.simps [of _ "c # a @ s"])
qed simp

lemma render_braced:
  "is_name n \<Longrightarrow> render val (braced n @ r) = (case val n of Some v \<Rightarrow> v | None \<Rightarrow> braced n) @ render val r"
  using var_at_braced [of n r]
  by (subst render.simps) (auto simp: is_name_def braced_def open_var_def)

lemma find_vars_plain: "CHR 0x7B \<notin> set a \<Longrightarrow> find_vars (a @ s) = find_vars s"
proof (induction a)
  case (Cons c a)
  then have "var_at (c # a @ s) = None" by (auto simp: var_at_def open_var_def)
  with Cons show ?case by (simp add: find_vars.simps [of "c # a @ s"])
qed simp

lemma find_vars_braced: "is_name n \<Longrightarrow> find_vars (braced n @ r) = braced n # find_vars r"
  using var_at_braced [of n r]
  by (subst find_vars.simps) (auto simp: is_name_def braced_def open_var_def)

subsection \<open>Running never panics on plain names\<close>

definition plain_query :: "string \<Rightarrow> bool" where
  "plain_query q \<longleftrightarrow> (\<forall>k \<in> set (split_on CHR ''.'' q). plain_key k)"

text \<open>No variable of the URL and no expected value has a key that starts with a minus sign.\<close>

definition plain_names :: "http_test \<Rightarrow> bool" where
  "plain_names t \<longleftrightarrow>
     (\<forall>n. braced n \<in> set (t_urlPathQueries t) \<union> set (t_urlQueryQueries t) \<longrightarrow> plain_query n) \<and>
     (\<forall>jv q x. t_jsonValues t = Some jv \<and> (q, x) \<in> set jv \<longrightarrow> plain_query q)"

lemma plain_query_returns: "plain_query q \<Longrightarrow> returns (queryJSONData q v)"
  by (simp add: plain_query_def queryJSONData_def query_loop_returns)

lemma values_loop_returns: "\<forall>(q, x) \<in> set jv. plain_query q \<Longrightarrow> returns (values_loop v jv)"
  by (induction jv) (auto simp: check_value_def plain_query_returns intro!: returns_bind)

lemma containsJSONValues_returns:
  "\<forall>(q, x) \<in> set jv. plain_query q \<Longrightarrow> returns (containsJSONValues jv r)"
  by (auto simp: containsJSONValues_def values_loop_returns split: prod.split)

lemma checkResponse_returns:
  assumes "\<forall>jv q x. t_jsonValues t = Some jv \<and> (q, x) \<in> set jv \<longrightarrow> plain_query q"
  shows "returns (checkResponse t md resp body)"
proof -
  have vals: "returns (containsJSONValues jv r)" if "t_jsonValues t = Some jv" for jv r
    using assms that by (auto intro!: containsJSONValues_returns)
  show ?thesis
    unfolding checkResponse_def Let_def
    by (auto intro!: returns_bind intro: vals split: prod.split option.split)
qed

lemma oldnew_find_vars_returns:
  assumes "\<forall>n. braced n \<in> set (find_vars src) \<longrightarrow> plain_query n"
  shows "returns (oldnew enc m (find_vars src))"
proof -
  from find_vars_names [of src] obtain ns where ns: "find_vars src = map braced ns" by blast
  with assms have "\<forall>n \<in> set ns. returns (queryJSONData n (JObj m))" by (auto intro: plain_query_returns)
  from oldnew_returns [OF this, of enc] ns show ?thesis by simp
qed

lemma http_request_for_returns:
  assumes "vars_match t" and "plain_names t"
  shows "returns (http_request_for t ctx)"
proof -
  from assms have "returns (oldnew enc m (t_urlPathQueries t))" "returns (oldnew enc m (t_urlQueryQueries t))" for enc m
    by (auto simp: vars_match_def plain_names_def intro!: oldnew_find_vars_returns)
  then show ?thesis
    by (auto simp: http_request_for_def substitute_path_def substitute_query_def
        intro!: returns_bind split: prod.split)
qed

lemma http_Run_returns:
  assumes "vars_match t" and "plain_names t"
  shows "returns (http_Run do t limit ctx w)"
  unfolding http_Run_def
proof (rule returns_bind [OF http_request_for_returns [OF assms]])
  fix rq
  show "returns (case do rq limit w of
         (Inl e, w1) \<Rightarrow> Ret ([No_Response e], ctx, w1)
       | (Inr (resp, Inl e), w1) \<Rightarrow> Ret ([No_Body e], ctx, w1)
       | (Inr (resp, Inr body), w1) \<Rightarrow>
           map_run (\<lambda>(ms, md'). (ms, ctx\<lparr>ctx_md := md'\<rparr>, w1)) (checkResponse t (ctx_md ctx) resp body))"
    using assms(2) checkResponse_returns [of t]
    by (auto simp: plain_names_def split: prod.split sum.split)
qed

lemma as_test_returns:
  "vars_match t \<Longrightarrow> plain_names t \<Longrightarrow> never_panics (as_test do t)"
  by (simp add: never_panics_def as_test_def http_Run_returns)

text \<open>What a run does after its request was built.\<close>

lemma http_Run_Ret:
  assumes "http_Run do t limit ctx w = Ret (ms, ctx', w')"
  obtains rq res where "http_request_for t ctx = Ret rq" "do rq limit w = (res, w')"
    "case res of
       Inl e \<Rightarrow> ms = [No_Response e] \<and> ctx' = ctx
     | Inr (resp, Inl e) \<Rightarrow> ms = [No_Body e] \<and> ctx' = ctx
     | Inr (resp, Inr body) \<Rightarrow>
         \<exists>md'. checkResponse t (ctx_md ctx) resp body = Ret (ms, md') \<and> ctx' = ctx\<lparr>ctx_md := md'\<rparr>"
proof -
  from assms obtain rq where rq: "http_request_for t ctx = Ret rq"
    by (auto simp: http_Run_def bind_run_Ret_iff)
  obtain res w1 where res: "do rq limit w = (res, w1)" by fastforce
  from assms rq res have w1: "w1 = w'"
    by (auto simp: http_Run_def map_run_Ret_iff split: sum.splits prod.splits)
  show ?thesis
  proof (rule that [OF rq])
    from res w1 show "do rq limit w = (res, w')" by simp
    from assms rq res show "case res of
       Inl e \<Rightarrow> ms = [No_Response e] \<and> ctx' = ctx
     | Inr (resp, Inl e) \<Rightarrow> ms = [No_Body e] \<and> ctx' = ctx
     | Inr (resp, Inr body) \<Rightarrow>
         \<exists>md'. checkResponse t (ctx_md ctx) resp body = Ret (ms, md') \<and> ctx' = ctx\<lparr>ctx_md := md'\<rparr>"
      by (auto simp: http_Run_def map_run_Ret_iff split: sum.splits prod.splits)
  qed
qed


lemma prepare_url:
  "prepare env cfg c = Inr t \<Longrightarrow>
    parse_request env (if q_Method (c_Request c) = [] then ''GET'' else q_Method (c_Request c))
      (request_url cfg (c_Request c)) = Inr (rq_URL (t_req t)) \<and>
    t_id t = c_ID c \<and> t_saveDoc t = c_SaveDocument c"
  by (erule prepare_Inr) (auto dest: toHTTPRequest_url)

subsection \<open>Properties\<close>

definition demo_vars_url :: http_url where
  "demo_vars_url = \<lparr>u_prefix = [], u_Path = ''/'', u_RawPath = [], u_RawQuery = ''id='' @ braced ''u.0''\<rparr>"

definition demo_vars_env :: http_env where
  "demo_vars_env = demo_http_env\<lparr>parse_request := (\<lambda>_ _. Inr demo_vars_url)\<rparr>"

lemma demo_vars_test:
  obtains t where "prepare demo_vars_env demo_http_config demo_test_cfg = Inr t"
    "rq_URL (t_req t) = demo_vars_url" "t_jsonValues t = None" "\<not> t_saveDoc t"
    "t_urlPathQueries t = []" "t_urlQueryQueries t = [braced ''u.0'']"
proof -
  have name: "is_name ''u.0''" by (simp add: is_name_def name_char_def is_alnum_def is_lower_def is_digit_def)
  have "\<exists>rq. toHTTPRequest demo_vars_env demo_http_config demo_request = Inr rq"
    by (simp add: toHTTPRequest_def getBody_def demo_request_def Let_def demo_vars_env_def)
  then have "preparable demo_vars_env demo_http_config demo_test_cfg"
    by (simp add: preparable_def demo_test_cfg_def demo_expect_def getDocumentField_def)
      (simp add: one_body_def demo_request_def)
  from prepare_preparable [OF this] obtain t where t: "prepare demo_vars_env demo_http_config demo_test_cfg = Inr t" ..
  from prepare_url [OF t] have url: "rq_URL (t_req t) = demo_vars_url" and save: "\<not> t_saveDoc t"
    by (simp_all add: demo_vars_env_def demo_test_cfg_def)
  from t have vals: "t_jsonValues t = None"
    by (rule prepare_Inr) (simp add: demo_test_cfg_def demo_expect_def prepare_values_def)
  have "find_vars (''id='' @ braced ''u.0'' @ []) = [braced ''u.0'']"
    using find_vars_plain [of "''id=''" "braced ''u.0'' @ []"] find_vars_braced [OF name, of "[]"] by simp
  with prepare_vars [OF t] url have "t_urlPathQueries t = []" "t_urlQueryQueries t = [braced ''u.0'']"
    by (simp_all add: vars_match_def demo_vars_url_def)
  with t url save vals show ?thesis by (intro that)
qed

definition demo_md :: md where
  "demo_md = [(''u'', JArr [JStr ''a&b''])]"

lemma demo_query_val: "query_val query_escape demo_md ''u.0'' = Some ''a%26b''"
proof -
  have "query_escape ''a&b'' = ''a%26b''"
    by (simp add: query_escape_def escape_char_def is_unreserved_def is_alnum_def is_upper_def
        is_lower_def is_digit_def hex_digit_def char_of_def bit_Suc_0_iff)
  then show ?thesis
    by (simp add: query_val_def demo_md_def queryJSONData_def lookupJSONData_def atoi_def
        parse_int64_def parse_uint_def is_digit_def digit_val_def max_uint64_def max_int64_def)
qed


text \<open>
  C20: The request a prepared test sends. Its query is the query of the described URL rendered in one
  pass as a template: every variable that the metadata of the earlier tests answer is replaced by the
  escaped text of its value, every other one is kept as it is, and what a value contains is not
  expanded again. Its path is the described path rendered with the unescaped values, for the
  variables that also stand in the escaped form of the path. Method, headers and body are the
  described ones.
\<close>

theorem http_request_renders:
  assumes "prepare env cfg c = Inr t" and "ctx_md ctx = Some m" and "http_request_for t ctx = Ret rq"
  shows "u_RawQuery (rq_URL rq) = render (query_val query_escape m) (u_RawQuery (rq_URL (t_req t))) \<and>
    u_Path (rq_URL rq) = render (vars_of (u_RawPath (rq_URL (t_req t))) (query_val (\<lambda>s. s) m))
      (u_Path (rq_URL (t_req t))) \<and>
    u_prefix (rq_URL rq) = u_prefix (rq_URL (t_req t)) \<and>
    rq_Method rq = rq_Method (t_req t) \<and> rq_Header rq = rq_Header (t_req t) \<and> rq_Body rq = rq_Body (t_req t)"
  using http_request_for_url [OF prepare_vars [OF assms(1)] assms(2,3)] by simp

theorem http_request_renders_witness:
  "\<exists>t rq. prepare demo_vars_env demo_http_config demo_test_cfg = Inr t \<and>
     http_request_for t \<lparr>ctx_md = Some demo_md\<rparr> = Ret rq \<and> u_RawQuery (rq_URL rq) = ''id=a%26b''"
proof -
  obtain t where t: "prepare demo_vars_env demo_http_config demo_test_cfg = Inr t"
    "rq_URL (t_req t) = demo_vars_url" "t_jsonValues t = None" "\<not> t_saveDoc t"
    "t_urlPathQueries t = []" "t_urlQueryQueries t = [braced ''u.0'']" by (rule demo_vars_test)
  have "plain_names t" by (simp add: plain_names_def t plain_query_def plain_key_def)
  with http_request_for_returns [OF prepare_vars [OF t(1)]] obtain rq where
    rq: "http_request_for t \<lparr>ctx_md = Some demo_md\<rparr> = Ret rq" unfolding returns_iff by blast
  have name: "is_name ''u.0''" by (simp add: is_name_def name_char_def is_alnum_def is_lower_def is_digit_def)
  have "u_RawQuery (rq_URL rq) = render (query_val query_escape demo_md) (''id='' @ braced ''u.0'' @ [])"
    using http_request_renders [OF t(1) _ rq] t(2) by (simp add: demo_vars_url_def)
  also have "\<dots> = ''id=a%26b''"
    using render_plain [of "''id=''"] render_braced [OF name, of _ "[]"] demo_query_val by simp
  finally show ?thesis using t(1) rq by blast
qed

text \<open>
  C21: A value cannot add parameters to a query: the parameters of the query that is sent, separated by
  ampersands, are those of the described query, each rendered by itself, so that their number and
  order are the described ones whatever the servers answered before.
\<close>

theorem query_parameters_kept:
  assumes "prepare env cfg c = Inr t" and "ctx_md ctx = Some m" and "http_request_for t ctx = Ret rq"
  shows "split_on CHR ''&'' (u_RawQuery (rq_URL rq)) =
    map (render (query_val query_escape m)) (split_on CHR ''&'' (u_RawQuery (rq_URL (t_req t))))"
proof -
  have "CHR ''&'' \<notin> set v" if "query_val query_escape m n = Some v" for n v
    using that query_escape_no_sep(1)
    by (auto simp: query_val_def split: run.splits sum.splits)
  then have "split_on CHR ''&'' (render (query_val query_escape m) s) =
      map (render (query_val query_escape m)) (split_on CHR ''&'' s)" for s
    by (rule split_render) (auto simp: name_char_def is_alnum_def is_upper_def is_lower_def is_digit_def)
  with http_request_for_url(2) [OF prepare_vars [OF assms(1)] assms(2,3)] show ?thesis by simp
qed

theorem query_parameters_kept_witness:
  "\<exists>t rq. prepare demo_vars_env demo_http_config demo_test_cfg = Inr t \<and>
     http_request_for t \<lparr>ctx_md = Some demo_md\<rparr> = Ret rq \<and>
     length (split_on CHR ''&'' (u_RawQuery (rq_URL rq))) = 1"
proof -
  obtain t where t: "prepare demo_vars_env demo_http_config demo_test_cfg = Inr t"
    "rq_URL (t_req t) = demo_vars_url" "t_jsonValues t = None" "\<not> t_saveDoc t"
    "t_urlPathQueries t = []" "t_urlQueryQueries t = [braced ''u.0'']" by (rule demo_vars_test)
  have "plain_names t" by (simp add: plain_names_def t plain_query_def plain_key_def)
  with http_request_for_returns [OF prepare_vars [OF t(1)]] obtain rq where
    rq: "http_request_for t \<lparr>ctx_md = Some demo_md\<rparr> = Ret rq" unfolding returns_iff by blast
  have "split_on CHR ''&'' (u_RawQuery demo_vars_url) = [u_RawQuery demo_vars_url]"
    by (simp add: demo_vars_url_def braced_def open_var_def close_var_def)
  with query_parameters_kept [OF t(1) _ rq] t(2)
  have "length (split_on CHR ''&'' (u_RawQuery (rq_URL rq))) = 1" by simp
  with t(1) rq show ?thesis by blast
qed

text \<open>
  C22: A run of an HTTP test that returns logs nothing, and so passes, exactly when a response arrived
  for its request within the time limit, its body could be read and it conforms to what is
  expected, with a JSON body when it is to be saved; a missing response and an unreadable body are one
  error each and leave the metadata alone.
\<close>

theorem http_Run_passes:
  assumes "http_Run do t limit ctx w = Ret (ms, ctx', w')"
  shows "\<exists>rq res. http_request_for t ctx = Ret rq \<and> do rq limit w = (res, w') \<and>
    (case res of
       Inl e \<Rightarrow> ms = [No_Response e] \<and> ctx' = ctx
     | Inr (resp, Inl e) \<Rightarrow> ms = [No_Body e] \<and> ctx' = ctx
     | Inr (resp, Inr body) \<Rightarrow>
         (ms = [] \<longleftrightarrow> conforms t resp body \<and>
            (t_saveDoc t \<and> ctx_md ctx \<noteq> None \<longrightarrow> json_decode body \<noteq> None)))"
  using assms
proof (rule http_Run_Ret)
  fix rq res
  assume r: "http_request_for t ctx = Ret rq" "do rq limit w = (res, w')"
    and c: "case res of
       Inl e \<Rightarrow> ms = [No_Response e] \<and> ctx' = ctx
     | Inr (resp, Inl e) \<Rightarrow> ms = [No_Body e] \<and> ctx' = ctx
     | Inr (resp, Inr body) \<Rightarrow>
         \<exists>md'. checkResponse t (ctx_md ctx) resp body = Ret (ms, md') \<and> ctx' = ctx\<lparr>ctx_md := md'\<rparr>"
  from c have "case res of
       Inl e \<Rightarrow> ms = [No_Response e] \<and> ctx' = ctx
     | Inr (resp, Inl e) \<Rightarrow> ms = [No_Body e] \<and> ctx' = ctx
     | Inr (resp, Inr body) \<Rightarrow>
         (ms = [] \<longleftrightarrow> conforms t resp body \<and>
            (t_saveDoc t \<and> ctx_md ctx \<noteq> None \<longrightarrow> json_decode body \<noteq> None))"
    using checkResponse_iff [of t "ctx_md ctx" _ _ ms] by (fastforce split: sum.splits)
  with r show ?thesis by blast
qed

definition demo_client :: "nat http_client" where
  "demo_client = (\<lambda>rq limit n. (if n = 0 then Inl ''no route'' else Inr (good_resp, Inr ''[true] ''), n - 1))"

lemma demo_request_for: "http_request_for plain_test ctx = Ret (t_req plain_test)"
  by (simp add: http_request_for_def substitute_path_def substitute_query_def cloneRequest_same
      plain_test_def split: prod.split)

lemma demo_run:
  "http_Run demo_client plain_test 5 \<lparr>ctx_md = Some []\<rparr> 1 =
     Ret ([], \<lparr>ctx_md = Some [(''u'', JArr [JBool True])]\<rparr>, 0)"
  by (simp add: http_Run_def demo_request_for demo_client_def check_demo)

theorem http_Run_passes_witness: "conforms plain_test good_resp ''[true] ''"
  using http_Run_passes [OF demo_run] by (simp add: demo_request_for demo_client_def)

text \<open>
  C23: A prepared test never panics, whatever the server answers and whatever earlier tests have saved,
  as long as no variable of its URL and no query of its expected values has a key that starts with a
  minus sign.
\<close>

theorem http_test_never_panics:
  assumes "prepare env cfg c = Inr t" and "plain_names t"
  shows "never_panics (as_test do t)"
  using as_test_returns [OF prepare_vars [OF assms(1)] assms(2)] .

theorem http_test_never_panics_witness:
  "\<exists>t. prepare demo_vars_env demo_http_config demo_test_cfg = Inr t \<and> never_panics (as_test demo_client t)"
proof -
  obtain t where t: "prepare demo_vars_env demo_http_config demo_test_cfg = Inr t"
    "rq_URL (t_req t) = demo_vars_url" "t_jsonValues t = None" "\<not> t_saveDoc t"
    "t_urlPathQueries t = []" "t_urlQueryQueries t = [braced ''u.0'']" by (rule demo_vars_test)
  have "plain_names t" by (simp add: plain_names_def t plain_query_def plain_key_def)
  from http_test_never_panics [OF t(1) this] t(1) show ?thesis by blast
qed

text \<open>
  Documents flow from test to test: after a passing run of a test that saves its document, a
  variable made of the id of the test and a path into the document has, in the requests of the tests
  that follow, the text of the value at that path.
\<close>

theorem saved_document_found:
  assumes "http_Run do t limit ctx w = Ret ([], ctx', w')" and "t_saveDoc t" and "ctx_md ctx = Some m"
    and "do rq limit w = (Inr (resp, Inr body), w')" and "http_request_for t ctx = Ret rq"
    and "json_decode body = Some v" and "path_value ps v = Some u"
    and "\<forall>p \<in> set ps. ok_step p" and "CHR ''.'' \<notin> set (t_id t)"
  shows "\<exists>m'. ctx_md ctx' = Some m' \<and> query_val enc m' (join_with ''.'' (t_id t # map render_step ps)) =
    Some (enc (json_sprint u))"
proof -
  from assms(1) obtain rq' res where "http_request_for t ctx = Ret rq'" "do rq' limit w = (res, w')"
    "case res of
       Inl e \<Rightarrow> [] = [No_Response e] \<and> ctx' = ctx
     | Inr (resp, Inl e) \<Rightarrow> [] = [No_Body e] \<and> ctx' = ctx
     | Inr (resp, Inr body) \<Rightarrow>
         \<exists>md'. checkResponse t (ctx_md ctx) resp body = Ret ([], md') \<and> ctx' = ctx\<lparr>ctx_md := md'\<rparr>"
    by (rule http_Run_Ret)
  with assms(4,5) obtain md' where c: "checkResponse t (Some m) resp body = Ret ([], md')"
    and ctx': "ctx' = ctx\<lparr>ctx_md := md'\<rparr>" by (auto simp: assms(3))
  from checkResponse_iff [OF c] have "status_conforms t resp" by (simp add: conforms_def)
  with checkResponse_md [OF c] assms(2,6) have md': "md' = Some (AList.update (t_id t) v m)" by simp
  let ?ps = "Field (t_id t) # ps"
  have "split_on CHR ''.'' (join_with ''.'' (map render_step ?ps)) = map render_step ?ps"
    using assms(8,9) by (intro split_join_on) (auto simp: render_step_no_dot)
  moreover have "query_loop [] (map render_step ?ps) (JObj (AList.update (t_id t) v m)) = Ret (Inr u)"
    using assms(7-9) by (intro query_loop_path) (auto simp: gomap.get_put_same)
  ultimately have "queryJSONData (join_with ''.'' (map render_step ?ps)) (JObj (AList.update (t_id t) v m))
      = Ret (Inr u)" by (simp only: queryJSONData_def)
  then show ?thesis by (simp add: ctx' md' query_val_def)
qed

theorem saved_document_found_witness:
  "query_val (\<lambda>s. s) [(''u'', JArr [JBool True])] ''u.length'' = Some ''1''"
proof -
  have len: "path_value [Len] (JArr [JBool True]) = Some (JNum (itoa 1))" by simp
  have "\<exists>m'. ctx_md \<lparr>ctx_md = Some [(''u'', JArr [JBool True])]\<rparr> = Some m' \<and>
      query_val (\<lambda>s. s) m' (join_with ''.'' (t_id plain_test # map render_step [Len])) =
      Some (json_sprint (JNum (itoa 1)))"
    by (rule saved_document_found [OF demo_run _ _ _ demo_request_for decode_demo len])
      (simp_all add: plain_test_fields demo_client_def)
  then show ?thesis by (simp add: plain_test_fields itoa_def digit_char_def char_of_def bit_Suc_0_iff nat_digits.simps [of "Suc 0"])
qed

end
