(* ===== verification/Grpc_Doc.thy ===== *)
theory Grpc_Doc
  imports Json_Encode Go_Path Go_Net
begin

text \<open>
  The documents of a GRPC suite (\<open>testsuite/grpcexpect/config.go\<close>: \<open>loadDoc\<close>, \<open>readJSONFileToDoc\<close>,
  \<open>readFileToBase64String\<close>, \<open>newDocToMsgs\<close>). Reading a file is a parameter \<open>rf\<close>. A reference leads
  to a file that is loaded in turn, so loading need not end: the model takes a number of references it
  may follow one below another, and \<open>Out_Of_Fuel\<close> is the result when they do not suffice.

  The nil map that a file with the JSON null gives is written \<open>JNull\<close>. Comparing two interface values
  that hold maps panics in Go, whatever the maps are.
\<close>

subsection \<open>Base 64\<close>

definition b64_alphabet :: string where
  "b64_alphabet = ''ABCDEFGHIJKLMNOPQRSTUVWXYZabcdefghijklmnopqrstuvwxyz0123456789+/''"

definition b64_char :: "nat \<Rightarrow> char" where
  "b64_char n = b64_alphabet ! n"

text \<open>\<open>base64.StdEncoding.EncodeToString\<close>: groups of three bytes, padded.\<close>

fun b64_encode :: "string \<Rightarrow> string" where
  "b64_encode [] = []"
| "b64_encode [a] =
     [b64_char (of_char a div 4), b64_char (of_char a mod 4 * 16), CHR ''='', CHR ''='']"
| "b64_encode [a, b] =
     [b64_char (of_char a div 4), b64_char (of_char a mod 4 * 16 + of_char b div 16),
      b64_char (of_char b mod 16 * 4), CHR ''='']"
| "b64_encode (a # b # c # s) =
     b64_char (of_char a div 4) # b64_char (of_char a mod 4 * 16 + of_char b div 16) #
     b64_char (of_char b mod 16 * 4 + of_char c div 64) # b64_char (of_char c mod 64) # b64_encode s"

text \<open>The decoder of the format, as a specification.\<close>

definition b64_val :: "char \<Rightarrow> nat" where
  "b64_val c = length (takeWhile (\<lambda>d. d \<noteq> c) b64_alphabet)"

fun b64_decode :: "string \<Rightarrow> string" where
  "b64_decode (p # q # r # s # t) =
     (if r = CHR ''='' then [char_of (b64_val p * 4 + b64_val q div 16)]
      else if s = CHR ''='' then
        [char_of (b64_val p * 4 + b64_val q div 16), char_of (b64_val q mod 16 * 16 + b64_val r div 4)]
      else
        char_of (b64_val p * 4 + b64_val q div 16) # char_of (b64_val q mod 16 * 16 + b64_val r div 4) #
        char_of (b64_val r mod 4 * 64 + b64_val s) # b64_decode t)"
| "b64_decode _ = []"

lemma b64_val_char_all: "\<forall>n \<in> set [0..<64]. b64_val (b64_char n) = n \<and> b64_char n \<noteq> CHR ''=''"
  by code_simp

lemma b64_val_char: "n < 64 \<Longrightarrow> b64_val (b64_char n) = n" "n < 64 \<Longrightarrow> b64_char n \<noteq> CHR ''=''"
  using b64_val_char_all by simp_all

text \<open>Quarters of bytes: the sextets are below 64, and a byte is the sum of its parts.\<close>

lemma byte_quarters [simp]:
  "of_char c div 4 < (64 :: nat)" "of_char c div 16 < (16 :: nat)" "of_char c div 64 < (4 :: nat)"
  "of_char c div 16 div 16 = (0 :: nat)" "of_char c div 16 mod 16 = (of_char c div 16 :: nat)"
  "of_char c div 64 div 4 = (0 :: nat)" "of_char c div 64 mod 4 = (of_char c div 64 :: nat)"
proof -
  show 4: "of_char c div 4 < (64 :: nat)" and 16: "of_char c div 16 < (16 :: nat)"
    and 64: "of_char c div 64 < (4 :: nat)" using of_char_less [of c] by linarith+
  from 16 show "of_char c div 16 div 16 = (0 :: nat)" "of_char c div 16 mod 16 = (of_char c div 16 :: nat)"
    by simp_all
  from 64 show "of_char c div 64 div 4 = (0 :: nat)" "of_char c div 64 mod 4 = (of_char c div 64 :: nat)"
    by simp_all
qed

lemma sextet_bounds [simp]:
  "n mod 4 * 16 < (64 :: nat)" "n mod 4 * 16 + of_char b div 16 < (64 :: nat)"
  "n mod 16 * 4 < (64 :: nat)" "n mod 16 * 4 + of_char c div 64 < (64 :: nat)"
proof -
  have "n mod 4 < 4" "n mod 16 < 16" by simp_all
  with byte_quarters(2) [of b] byte_quarters(3) [of c]
  show "n mod 4 * 16 < (64 :: nat)" "n mod 4 * 16 + of_char b div 16 < (64 :: nat)"
    "n mod 16 * 4 < (64 :: nat)" "n mod 16 * 4 + of_char c div 64 < (64 :: nat)" by linarith+
qed

lemma b64_roundtrip: "b64_decode (b64_encode s) = s"
  by (induction s rule: b64_encode.induct) (simp_all add: b64_val_char)

subsection \<open>Loading documents\<close>

datatype load_error = No_File string | No_JSON | Invalid_Document_Type

datatype ('e, 'a) loaded =
    Loaded 'a
  | Load_Error 'e
  | Load_Panic panic
  | Out_Of_Fuel

fun bind_loaded :: "('e, 'a) loaded \<Rightarrow> ('a \<Rightarrow> ('e, 'b) loaded) \<Rightarrow> ('e, 'b) loaded" where
  "bind_loaded (Loaded x) f = f x"
| "bind_loaded (Load_Error e) f = Load_Error e"
| "bind_loaded (Load_Panic p) f = Load_Panic p"
| "bind_loaded Out_Of_Fuel f = Out_Of_Fuel"

text \<open>Wrapping an error, as \<open>fmt.Errorf\<close> does.\<close>

fun wrap_error :: "('e \<Rightarrow> 'f) \<Rightarrow> ('e, 'a) loaded \<Rightarrow> ('f, 'a) loaded" where
  "wrap_error w (Loaded x) = Loaded x"
| "wrap_error w (Load_Error e) = Load_Error (w e)"
| "wrap_error w (Load_Panic p) = Load_Panic p"
| "wrap_error w Out_Of_Fuel = Out_Of_Fuel"

type_synonym files = "string \<Rightarrow> string + string"

definition readFileToBase64String :: "files \<Rightarrow> string \<Rightarrow> (load_error, json) loaded" where
  "readFileToBase64String rf path =
     (case rf path of Inl e \<Rightarrow> Load_Error (No_File e) | Inr data \<Rightarrow> Loaded (JStr (b64_encode data)))"

definition ref_path :: "string \<Rightarrow> string \<Rightarrow> string" where
  "ref_path path ref = (if is_abs ref then ref else path_join [path, ref])"

text \<open>
  The assignment in the loop over a map: an array was loaded in place; the comparison of what a nested
  object became with the object panics unless it became a string, which is stored; anything else
  stays.
\<close>

definition store_field :: "json \<Rightarrow> json \<Rightarrow> (load_error, json) loaded" where
  "store_field v new =
     (case v of
        JObj _ \<Rightarrow> (case new of JStr s \<Rightarrow> Loaded (JStr s) | _ \<Rightarrow> Load_Panic Uncomparable_Type)
      | JArr _ \<Rightarrow> Loaded new
      | _ \<Rightarrow> Loaded v)"

lemma size_field [simp]: "size_prod (\<lambda>x. 0) size = (\<lambda>kv. Suc (size (snd kv)))"
  by (simp add: fun_eq_iff)

function loadDoc :: "files \<Rightarrow> nat \<Rightarrow> string \<Rightarrow> json \<Rightarrow> (load_error, json) loaded"
  and load_items :: "files \<Rightarrow> nat \<Rightarrow> string \<Rightarrow> json list \<Rightarrow> (load_error, json list) loaded"
  and load_fields :: "files \<Rightarrow> nat \<Rightarrow> string \<Rightarrow> (string, json) gomap \<Rightarrow> (load_error, (string, json) gomap) loaded"
  and readJSONFileToDoc :: "files \<Rightarrow> nat \<Rightarrow> string \<Rightarrow> (load_error, json) loaded" where
  "loadDoc rf n path v =
     (case v of
        JArr vs \<Rightarrow> bind_loaded (load_items rf n path vs) (\<lambda>ws. Loaded (JArr ws))
      | JObj m \<Rightarrow>
          (case map_of m ''$ref'' of
             Some (JStr ref) \<Rightarrow>
               if map_of m ''$raw'' = Some (JBool True)
               then readFileToBase64String rf (ref_path path ref)
               else (case n of 0 \<Rightarrow> Out_Of_Fuel | Suc n' \<Rightarrow> readJSONFileToDoc rf n' (ref_path path ref))
           | _ \<Rightarrow>
               (case map_of m ''$raw'' of
                  Some (JStr raw) \<Rightarrow> Loaded (JStr (b64_encode raw))
                | _ \<Rightarrow> bind_loaded (load_fields rf n path m) (\<lambda>m'. Loaded (JObj m'))))
      | _ \<Rightarrow> Loaded v)"
| "load_items rf n path [] = Loaded []"
| "load_items rf n path (v # vs) =
     bind_loaded (loadDoc rf n path v) (\<lambda>w.
       bind_loaded (load_items rf n path vs) (\<lambda>ws. Loaded (w # ws)))"
| "load_fields rf n path [] = Loaded []"
| "load_fields rf n path (kv # m) =
     bind_loaded (loadDoc rf n path (snd kv)) (\<lambda>new.
       bind_loaded (store_field (snd kv) new) (\<lambda>w.
         bind_loaded (load_fields rf n path m) (\<lambda>m'. Loaded ((fst kv, w) # m'))))"
| "readJSONFileToDoc rf n path =
     (case rf path of
        Inl e \<Rightarrow> Load_Error (No_File e)
      | Inr content \<Rightarrow>
          (case json_decode content of
             Some (JObj m) \<Rightarrow> loadDoc rf n (path_dir path) (JObj m)
           | Some JNull \<Rightarrow> Loaded JNull
           | _ \<Rightarrow> Load_Error No_JSON))"
  by pat_completeness auto
termination
  by (relation "inv_image (less_than <*lex*> less_than)
       (case_sum
         (case_sum (\<lambda>(rf, n, path, v). (2 * n, size v)) (\<lambda>(rf, n, path, vs). (2 * n, size_list size vs)))
         (case_sum (\<lambda>(rf, n, path, m). (2 * n, size_list (size_prod (\<lambda>x. 0) size) m))
           (\<lambda>(rf, n, path). (2 * n + 1, 0))))") auto


text \<open>The messages of a document; an element that cannot be marshalled is the empty message.\<close>

definition marshal_or_empty :: "json \<Rightarrow> string" where
  "marshal_or_empty v = (case json_marshal v of None \<Rightarrow> [] | Some s \<Rightarrow> s)"

definition newDocToMsgs :: "files \<Rightarrow> nat \<Rightarrow> string \<Rightarrow> json \<Rightarrow> (load_error, string list) loaded" where
  "newDocToMsgs rf n path doc =
     bind_loaded (loadDoc rf n path doc) (\<lambda>d.
       case d of
         JArr vs \<Rightarrow> Loaded (map marshal_or_empty vs)
       | JObj m \<Rightarrow> Loaded [marshal_or_empty (JObj m)]
       | JNull \<Rightarrow> Loaded [if doc = JNull then ''{}'' else ''null'']
       | _ \<Rightarrow> Load_Error Invalid_Document_Type)"

declare loadDoc.simps [simp del] readJSONFileToDoc.simps [simp del]

lemmas load_induct = loadDoc_load_items_load_fields_readJSONFileToDoc.induct

lemma bind_loaded_iff:
  "bind_loaded m f = Loaded y \<longleftrightarrow> (\<exists>x. m = Loaded x \<and> f x = Loaded y)"
  "bind_loaded m f = Out_Of_Fuel \<longleftrightarrow> m = Out_Of_Fuel \<or> (\<exists>x. m = Loaded x \<and> f x = Out_Of_Fuel)"
  by (cases m; auto)+

lemma store_field_fuel [simp]: "store_field v new \<noteq> Out_Of_Fuel"
  by (simp add: store_field_def split: json.split)

text \<open>An object that is a reference to a JSON document, and the file it refers to.\<close>

definition json_ref :: "(string, json) gomap \<Rightarrow> string option" where
  "json_ref m =
     (case map_of m ''$ref'' of
        Some (JStr ref) \<Rightarrow> if map_of m ''$raw'' = Some (JBool True) then None else Some ref
      | _ \<Rightarrow> None)"

text \<open>An object that stands for bytes in base 64.\<close>

definition raw_object :: "(string, json) gomap \<Rightarrow> bool" where
  "raw_object m \<longleftrightarrow> json_ref m = None \<and>
     ((\<exists>ref. map_of m ''$ref'' = Some (JStr ref)) \<or> (\<exists>raw. map_of m ''$raw'' = Some (JStr raw)))"

lemma loadDoc_plain:
  "loadDoc rf n path JNull = Loaded JNull" "loadDoc rf n path (JBool b) = Loaded (JBool b)"
  "loadDoc rf n path (JNum s) = Loaded (JNum s)" "loadDoc rf n path (JStr s) = Loaded (JStr s)"
  "loadDoc rf n path (JArr vs) = bind_loaded (load_items rf n path vs) (\<lambda>ws. Loaded (JArr ws))"
  by (simp_all add: loadDoc.simps)

lemma loadDoc_ref:
  "json_ref m = Some ref \<Longrightarrow> loadDoc rf n path (JObj m) =
     (case n of 0 \<Rightarrow> Out_Of_Fuel | Suc n' \<Rightarrow> readJSONFileToDoc rf n' (ref_path path ref))"
  by (auto simp: loadDoc.simps json_ref_def split: option.splits json.splits if_splits)

lemma loadDoc_raw:
  "raw_object m \<Longrightarrow> (\<exists>e. loadDoc rf n path (JObj m) = Load_Error e) \<or>
     (\<exists>s. loadDoc rf n path (JObj m) = Loaded (JStr s))"
  by (auto simp: loadDoc.simps json_ref_def raw_object_def readFileToBase64String_def
      split: option.splits json.splits if_splits sum.splits)

lemma loadDoc_raw_fuel:
  "raw_object m \<Longrightarrow> loadDoc rf n path (JObj m) = loadDoc rf n' path (JObj m)"
  by (auto simp: loadDoc.simps json_ref_def raw_object_def split: option.splits json.splits if_splits)

lemma loadDoc_fields:
  "json_ref m = None \<Longrightarrow> \<not> raw_object m \<Longrightarrow>
    loadDoc rf n path (JObj m) = bind_loaded (load_fields rf n path m) (\<lambda>m'. Loaded (JObj m'))"
  by (auto simp: loadDoc.simps json_ref_def raw_object_def split: option.splits json.splits if_splits)

text \<open>Induction over a document and, one level of fuel below, the documents it refers to.\<close>

lemma load_doc_induct [case_names plain arr ref raw fields]:
  assumes plain: "\<And>n path v. v \<notin> range JArr \<union> range JObj \<Longrightarrow> P n path v"
    and arr: "\<And>n path vs. (\<And>v. v \<in> set vs \<Longrightarrow> P n path v) \<Longrightarrow> P n path (JArr vs)"
    and ref: "\<And>n path m ref. json_ref m = Some ref \<Longrightarrow>
      (\<And>n' dir m'. n = Suc n' \<Longrightarrow> P n' dir (JObj m')) \<Longrightarrow> P n path (JObj m)"
    and raw: "\<And>n path m. raw_object m \<Longrightarrow> P n path (JObj m)"
    and fields: "\<And>n path m. json_ref m = None \<Longrightarrow> \<not> raw_object m \<Longrightarrow>
      (\<And>kv. kv \<in> set m \<Longrightarrow> P n path (snd kv)) \<Longrightarrow> P n path (JObj m)"
  shows "P n path v"
proof (induction n arbitrary: path v)
  case (0 path v)
  show ?case
  proof (induction v)
    case (JObj m)
    have "P 0 path (snd kv)" if "kv \<in> set m" for kv
      using JObj.IH [OF that, of "snd kv"] by (simp add: snds.simps)
    with raw fields show ?case by (cases "json_ref m"; cases "raw_object m") (auto intro: ref)
  qed (use plain arr in auto)
next
  case (Suc n path v)
  show ?case
  proof (induction v)
    case (JObj m)
    have "P (Suc n) path (snd kv)" if "kv \<in> set m" for kv
      using JObj.IH [OF that, of "snd kv"] by (simp add: snds.simps)
    note below = this
    show ?case
    proof (cases "json_ref m")
      case None
      with below raw fields show ?thesis by (cases "raw_object m") auto
    next
      case (Some r)
      show ?thesis by (rule ref [OF Some]) (use Suc in simp)
    qed
  qed (use plain arr in auto)
qed

lemma load_plain_value: "v \<notin> range JArr \<union> range JObj \<Longrightarrow> loadDoc rf n path v = Loaded v"
  by (cases v) (auto simp: loadDoc_plain)

lemma readJSON_cases [case_names object other]:
  obtains (object) content m where "rf path = Inr content" "json_decode content = Some (JObj m)"
      "\<And>k. readJSONFileToDoc rf k path = loadDoc rf k (path_dir path) (JObj m)"
  | (other) res where "\<And>k. readJSONFileToDoc rf k path = res" "res \<noteq> Out_Of_Fuel"
proof -
  show ?thesis
  proof (cases "rf path")
    case (Inl e)
    then show ?thesis by (intro other [of "Load_Error (No_File e)"]) (simp_all add: readJSONFileToDoc.simps)
  next
    case (Inr content)
    note read = readJSONFileToDoc.simps [of rf _ path, unfolded Inr sum.case]
    show ?thesis
    proof (cases "\<exists>m. json_decode content = Some (JObj m)")
      case True
      then obtain m where "json_decode content = Some (JObj m)" ..
      with Inr read show ?thesis by (intro object) simp_all
    next
      case False
      then show ?thesis
        by (cases "json_decode content = Some JNull")
          (rule other [of "Loaded JNull"], simp_all add: read,
           rule other [of "Load_Error No_JSON"], auto simp: read split: option.splits json.splits)
    qed
  qed
qed

subsection \<open>Fuel\<close>

text \<open>More fuel never changes a result.\<close>

lemma load_items_fuel:
  assumes "\<And>v. v \<in> set vs \<Longrightarrow> loadDoc rf n path v \<noteq> Out_Of_Fuel \<Longrightarrow> loadDoc rf k path v = loadDoc rf n path v"
    and "load_items rf n path vs \<noteq> Out_Of_Fuel"
  shows "load_items rf k path vs = load_items rf n path vs"
  using assms
proof (induction vs)
  case (Cons v vs)
  show ?case
  proof (cases "loadDoc rf n path v")
    case (Loaded w)
    with Cons.prems(2) have "load_items rf n path vs \<noteq> Out_Of_Fuel" by auto
    with Cons Loaded show ?thesis by simp
  qed (use Cons.prems in auto)
qed simp

lemma load_fields_fuel:
  assumes "\<And>kv. kv \<in> set m \<Longrightarrow> loadDoc rf n path (snd kv) \<noteq> Out_Of_Fuel \<Longrightarrow>
      loadDoc rf k path (snd kv) = loadDoc rf n path (snd kv)"
    and "load_fields rf n path m \<noteq> Out_Of_Fuel"
  shows "load_fields rf k path m = load_fields rf n path m"
  using assms
proof (induction m)
  case (Cons kv m)
  show ?case
  proof (cases "loadDoc rf n path (snd kv)")
    case (Loaded w)
    show ?thesis
    proof (cases "store_field (snd kv) w")
      case stored: (Loaded w')
      with Loaded Cons.prems(2) have "load_fields rf n path m \<noteq> Out_Of_Fuel" by auto
      with Cons Loaded stored show ?thesis by simp
    qed (use Loaded Cons.prems in auto)
  qed (use Cons.prems in auto)
qed simp

lemma loadDoc_fuel:
  "loadDoc rf n path v \<noteq> Out_Of_Fuel \<Longrightarrow> n \<le> k \<Longrightarrow> loadDoc rf k path v = loadDoc rf n path v"
proof (induction n path v arbitrary: k rule: load_doc_induct)
  case (plain n path v)
  then show ?case by (simp add: load_plain_value)
next
  case (arr n path vs)
  from arr(2) have ne: "load_items rf n path vs \<noteq> Out_Of_Fuel" by (auto simp: loadDoc_plain)
  have "load_items rf k path vs = load_items rf n path vs"
    by (rule load_items_fuel [OF _ ne]) (rule arr(1) [OF _ _ arr(3)])
  then show ?case by (simp add: loadDoc_plain)
next
  case (ref n path m r)
  then obtain n' where n: "n = Suc n'" by (cases n) (auto simp: loadDoc_ref)
  with ref(4) obtain k' where k: "k = Suc k'" "n' \<le> k'" by (cases k) auto
  let ?p = "ref_path path r"
  have ne: "readJSONFileToDoc rf n' ?p \<noteq> Out_Of_Fuel" using ref(3) n by (simp add: loadDoc_ref [OF ref(1)])
  have "readJSONFileToDoc rf k' ?p = readJSONFileToDoc rf n' ?p"
  proof (cases rule: readJSON_cases [of rf ?p])
    case (object content m')
    then show ?thesis using ref(2) [OF n _ k(2), of "path_dir ?p" m'] ne by simp
  qed simp
  then show ?case by (simp add: loadDoc_ref [OF ref(1)] n k)
next
  case (raw n path m)
  then show ?case using loadDoc_raw_fuel by blast
next
  case (fields n path m)
  from fields(4) have ne: "load_fields rf n path m \<noteq> Out_Of_Fuel" by (auto simp: loadDoc_fields [OF fields(1,2)])
  have "load_fields rf k path m = load_fields rf n path m"
    by (rule load_fields_fuel [OF _ ne]) (rule fields(3) [OF _ _ fields(5)])
  then show ?case by (simp add: loadDoc_fields [OF fields(1,2)])
qed

text \<open>The files a document refers to, and what it takes for loading to end.\<close>

fun doc_refs :: "string \<Rightarrow> json \<Rightarrow> string list" where
  "doc_refs path (JArr vs) = concat (map (doc_refs path) vs)"
| "doc_refs path (JObj m) =
     (case json_ref m of
        Some ref \<Rightarrow> [ref_path path ref]
      | None \<Rightarrow> if raw_object m then [] else concat (map (\<lambda>kv. doc_refs path (snd kv)) m))"
| "doc_refs path _ = []"

definition acyclic_refs :: "files \<Rightarrow> (string \<Rightarrow> nat) \<Rightarrow> bool" where
  "acyclic_refs rf rank \<longleftrightarrow>
     (\<forall>p content m q. rf p = Inr content \<and> json_decode content = Some (JObj m) \<and>
        q \<in> set (doc_refs (path_dir p) (JObj m)) \<longrightarrow> rank q < rank p)"

lemma load_items_ends:
  "\<forall>v \<in> set vs. loadDoc rf n path v \<noteq> Out_Of_Fuel \<Longrightarrow> load_items rf n path vs \<noteq> Out_Of_Fuel"
  by (induction vs) (auto simp: bind_loaded_iff)

lemma load_fields_ends:
  "\<forall>kv \<in> set m. loadDoc rf n path (snd kv) \<noteq> Out_Of_Fuel \<Longrightarrow> load_fields rf n path m \<noteq> Out_Of_Fuel"
  by (induction m) (auto simp: bind_loaded_iff)

lemma loadDoc_ends:
  assumes "acyclic_refs rf rank"
  shows "\<forall>q \<in> set (doc_refs path v). rank q < n \<Longrightarrow> loadDoc rf n path v \<noteq> Out_Of_Fuel"
proof (induction n path v rule: load_doc_induct)
  case (plain n path v)
  then show ?case by (simp add: load_plain_value)
next
  case (arr n path vs)
  then have "load_items rf n path vs \<noteq> Out_Of_Fuel" by (intro load_items_ends) auto
  then show ?case by (simp add: loadDoc_plain bind_loaded_iff)
next
  case (ref n path m r)
  let ?p = "ref_path path r"
  from ref have "rank ?p < n" by simp
  then obtain n' where n: "n = Suc n'" "rank ?p \<le> n'" by (cases n) auto
  have below: "loadDoc rf n' (path_dir ?p) (JObj m') \<noteq> Out_Of_Fuel"
    if "rf ?p = Inr content" "json_decode content = Some (JObj m')" for content m'
  proof (rule ref(2) [OF n(1)], intro ballI)
    fix q
    assume "q \<in> set (doc_refs (path_dir ?p) (JObj m'))"
    with that assms have "rank q < rank ?p" unfolding acyclic_refs_def by blast
    with n(2) show "rank q < n'" by simp
  qed
  have "readJSONFileToDoc rf n' ?p \<noteq> Out_Of_Fuel"
    using below by (cases rule: readJSON_cases [of rf ?p]) auto
  then show ?case by (simp add: loadDoc_ref [OF ref(1)] n)
next
  case (raw n path m)
  then show ?case using loadDoc_raw [of m rf n path] by auto
next
  case (fields n path m)
  then have "load_fields rf n path m \<noteq> Out_Of_Fuel" by (intro load_fields_ends) auto
  then show ?case by (simp add: loadDoc_fields [OF fields(1,2)] bind_loaded_iff)
qed


subsection \<open>Documents without references\<close>

fun closed_doc :: "json \<Rightarrow> bool" where
  "closed_doc (JArr vs) = list_all closed_doc vs"
| "closed_doc (JObj m) = ((case map_of m ''$ref'' of Some (JStr _) \<Rightarrow> False | _ \<Rightarrow> True) \<and>
     list_all (\<lambda>kv. closed_doc (snd kv)) m)"
| "closed_doc _ = True"

text \<open>No field of an object is an object, other than raw bytes.\<close>

fun flat_doc :: "json \<Rightarrow> bool" where
  "flat_doc (JArr vs) = list_all flat_doc vs"
| "flat_doc (JObj m) = (raw_object m \<or>
     list_all (\<lambda>kv. case snd kv of JObj m' \<Rightarrow> raw_object m' | _ \<Rightarrow> flat_doc (snd kv)) m)"
| "flat_doc _ = True"

fun expand_raw :: "json \<Rightarrow> json" where
  "expand_raw (JArr vs) = JArr (map expand_raw vs)"
| "expand_raw (JObj m) =
     (case map_of m ''$raw'' of
        Some (JStr raw) \<Rightarrow> JStr (b64_encode raw)
      | _ \<Rightarrow> JObj (map (\<lambda>kv. (fst kv, expand_raw (snd kv))) m))"
| "expand_raw v = v"

lemma closed_obj:
  assumes "closed_doc (JObj m)"
  shows "json_ref m = None" "raw_object m \<longleftrightarrow> (\<exists>raw. map_of m ''$raw'' = Some (JStr raw))"
    "\<And>kv. kv \<in> set m \<Longrightarrow> closed_doc (snd kv)"
  using assms by (auto simp: json_ref_def raw_object_def list_all_iff split: option.splits json.splits)

lemma load_items_closed:
  assumes "\<And>v. v \<in> set vs \<Longrightarrow>
      loadDoc rf n path v = (if flat_doc v then Loaded (expand_raw v) else Load_Panic Uncomparable_Type)"
  shows "load_items rf n path vs =
      (if list_all flat_doc vs then Loaded (map expand_raw vs) else Load_Panic Uncomparable_Type)"
  using assms by (induction vs) auto

lemma load_fields_closed:
  assumes "\<And>kv. kv \<in> set m \<Longrightarrow> closed_doc (snd kv)"
    and "\<And>kv. kv \<in> set m \<Longrightarrow> loadDoc rf n path (snd kv) =
      (if flat_doc (snd kv) then Loaded (expand_raw (snd kv)) else Load_Panic Uncomparable_Type)"
  shows "load_fields rf n path m =
      (if list_all (\<lambda>kv. case snd kv of JObj m' \<Rightarrow> raw_object m' | _ \<Rightarrow> flat_doc (snd kv)) m
       then Loaded (map (\<lambda>kv. (fst kv, expand_raw (snd kv))) m) else Load_Panic Uncomparable_Type)"
  using assms
proof (induction m)
  case (Cons kv m)
  have rest: "load_fields rf n path m =
      (if list_all (\<lambda>kv. case snd kv of JObj m' \<Rightarrow> raw_object m' | _ \<Rightarrow> flat_doc (snd kv)) m
       then Loaded (map (\<lambda>kv. (fst kv, expand_raw (snd kv))) m) else Load_Panic Uncomparable_Type)"
    using Cons by simp
  have here: "loadDoc rf n path (snd kv) =
      (if flat_doc (snd kv) then Loaded (expand_raw (snd kv)) else Load_Panic Uncomparable_Type)"
    using Cons.prems(2) by simp
  show ?case
  proof (cases "snd kv")
    case (JObj m')
    with Cons.prems(1) [of kv] have "raw_object m' \<longleftrightarrow> (\<exists>raw. map_of m' ''$raw'' = Some (JStr raw))"
      by (intro closed_obj(2)) simp
    then show ?thesis using here rest JObj
      by (cases "raw_object m'") (auto simp: store_field_def split: option.splits json.splits)
  qed (use here rest in \<open>simp_all add: store_field_def\<close>)
qed simp

lemma loadDoc_closed:
  "closed_doc v \<Longrightarrow> loadDoc rf n path v =
     (if flat_doc v then Loaded (expand_raw v) else Load_Panic Uncomparable_Type)"
proof (induction n path v rule: load_doc_induct)
  case (plain n path v)
  then show ?case by (cases v) (auto simp: loadDoc_plain)
next
  case (arr n path vs)
  then have "load_items rf n path vs =
      (if list_all flat_doc vs then Loaded (map expand_raw vs) else Load_Panic Uncomparable_Type)"
    by (intro load_items_closed) (auto simp: list_all_iff)
  then show ?case by (simp add: loadDoc_plain)
next
  case (ref n path m r)
  then show ?case using closed_obj(1) [of m] by simp
next
  case (raw n path m)
  then have "\<exists>raw. map_of m ''$raw'' = Some (JStr raw)" using closed_obj(2) [of m] by simp
  with raw show ?case
    by (auto simp: loadDoc.simps split: option.splits json.splits)
next
  case (fields n path m)
  note c = closed_obj [OF fields(4)]
  have "load_fields rf n path m =
      (if list_all (\<lambda>kv. case snd kv of JObj m' \<Rightarrow> raw_object m' | _ \<Rightarrow> flat_doc (snd kv)) m
       then Loaded (map (\<lambda>kv. (fst kv, expand_raw (snd kv))) m) else Load_Panic Uncomparable_Type)"
    using c(3) fields(3) by (intro load_fields_closed) auto
  with fields(2) c(2) show ?case
    by (auto simp: loadDoc_fields [OF fields(1,2)] split: option.splits json.splits)
qed


subsection \<open>Properties\<close>


definition demo_files :: files where
  "demo_files p = (if p = ''/d/a.json'' then Inr ''{}'' else Inl ''no such file'')"

lemma demo_decode: "json_decode ''{}'' = Some (JObj [])"
  by code_simp


text \<open>
  A file that refers to itself is never loaded: however many nested references are allowed, they do
  not suffice, so that the code, which sets no limit, recurses until its stack overflows.
\<close>

theorem loadDoc_self_reference:
  assumes "is_abs p" and "rf p = Inr content" and "json_decode content = Some (JObj m)"
    and "map_of m ''$ref'' = Some (JStr p)" and "map_of m ''$raw'' = None"
  shows "loadDoc rf n path (JObj m) = Out_Of_Fuel"
proof -
  have ref: "json_ref m = Some p" using assms(4,5) by (simp add: json_ref_def)
  have "ref_path d p = p" for d using assms(1) by (simp add: ref_path_def)
  then show ?thesis
    by (induction n arbitrary: path)
      (simp_all add: loadDoc_ref [OF ref] readJSONFileToDoc.simps assms(2,3))
qed

theorem loadDoc_self_reference_witness:
  "loadDoc (\<lambda>_. Inr ''{\"$ref\":\"/a\"}'') 7 ''/d'' (JObj [(''$ref'', JStr ''/a'')]) = Out_Of_Fuel"
proof -
  have "json_decode ''{\"$ref\":\"/a\"}'' = Some (JObj [(''$ref'', JStr ''/a'')])" by code_simp
  from loadDoc_self_reference [OF _ _ this] show ?thesis by (simp add: is_abs_def)
qed



text \<open>
  Raw bytes survive: what a raw object is loaded as, for the text it holds as for the content of the
  file it names, is a string whose base 64 decoding gives the bytes back.
\<close>

theorem loadDoc_raw_bytes:
  assumes "raw_object m" and "loadDoc rf n path (JObj m) = Loaded w"
  shows "\<exists>s bytes. w = JStr s \<and> b64_decode s = bytes \<and>
    (case map_of m ''$ref'' of
       Some (JStr ref) \<Rightarrow> rf (ref_path path ref) = Inr bytes
     | _ \<Rightarrow> map_of m ''$raw'' = Some (JStr bytes))"
  using assms
  by (auto simp: loadDoc.simps raw_object_def json_ref_def readFileToBase64String_def b64_roundtrip
      split: option.splits json.splits if_splits sum.splits)

theorem loadDoc_raw_bytes_witness:
  "\<exists>s. loadDoc (\<lambda>_. Inr ''PNG'') 0 ''/d'' (JObj [(''$ref'', JStr ''a.png''), (''$raw'', JBool True)]) = Loaded (JStr s) \<and>
     b64_decode s = ''PNG''"
proof -
  let ?m = "[(''$ref'', JStr ''a.png''), (''$raw'', JBool True)]"
  have raw: "raw_object ?m" by (simp add: raw_object_def json_ref_def)
  obtain w where "loadDoc (\<lambda>_. Inr ''PNG'') 0 ''/d'' (JObj ?m) = Loaded w"
    by (simp add: loadDoc.simps readFileToBase64String_def)
  from loadDoc_raw_bytes [OF raw this] this show ?thesis by auto
qed

text \<open>
  The messages of a document. A document without references and nested objects becomes one message
  for each element when it is an array, one for an object and an empty one when there is none; and each
  message is JSON that decodes to the element, with its raw objects replaced, keys in order. Any other
  document is an error.
\<close>

theorem newDocToMsgs_decode:
  assumes "closed_doc doc" and "flat_doc doc" and "wf_json (expand_raw doc)"
    and "strings_valid (expand_raw doc)" and "numbers_valid (expand_raw doc)"
  shows "case expand_raw doc of
      JArr vs \<Rightarrow> \<exists>ms. newDocToMsgs rf n path doc = Loaded ms \<and>
        map json_decode ms = map (\<lambda>v. Some (json_norm v)) vs
    | JObj m \<Rightarrow> \<exists>s. newDocToMsgs rf n path doc = Loaded [s] \<and> json_decode s = Some (json_norm (JObj m))
    | JNull \<Rightarrow> newDocToMsgs rf n path doc = Loaded [''{}'']
    | _ \<Rightarrow> newDocToMsgs rf n path doc = Load_Error Invalid_Document_Type"
proof -
  have load: "loadDoc rf n path doc = Loaded (expand_raw doc)"
    using loadDoc_closed [OF assms(1), of rf n path] assms(2) by simp
  have decode: "json_decode (marshal_or_empty v) = Some (json_norm v)"
    if "wf_json v" "strings_valid v" "numbers_valid v" for v
    using json_text_reads [OF that, of True] that(3) by (simp add: marshal_or_empty_def json_marshal_def)
  show ?thesis
  proof (cases "expand_raw doc")
    case JNull
    then have "doc = JNull" by (cases doc) (auto split: option.splits json.splits)
    with JNull load show ?thesis by (simp add: newDocToMsgs_def)
  next
    case (JArr vs)
    with assms(3-5) decode have "map json_decode (map marshal_or_empty vs) = map (\<lambda>v. Some (json_norm v)) vs"
      by (auto simp: list_all_iff)
    with JArr load show ?thesis by (simp add: newDocToMsgs_def)
  next
    case (JObj m)
    with assms(3-5) decode [of "JObj m"] load show ?thesis
      by (simp add: newDocToMsgs_def del: json_read.simps)
  qed (use load in \<open>simp_all add: newDocToMsgs_def\<close>)
qed

theorem newDocToMsgs_decode_witness:
  "\<exists>s. newDocToMsgs demo_files 0 ''/d'' (JObj [(''ok'', JBool True)]) = Loaded [s] \<and>
     json_decode s = Some (JObj [(''ok'', JBool True)])"
proof -
  have "sanitize ''ok'' = ''ok''" by code_simp
  then show ?thesis
    using newDocToMsgs_decode [of "JObj [(''ok'', JBool True)]" demo_files 0 "''/d''"]
    by (simp add: in_order_def)
qed

end
