(* ===== verification/Grpc_Test.thy ===== *)
theory Grpc_Test
  imports Grpc_Doc Testsuite
begin

text \<open>
  GRPC suites (\<open>testsuite/grpcexpect/config.go\<close>: \<open>genTests\<close>, \<open>transportDialOption\<close>, \<open>getFilePath\<close>,
  \<open>Example\<close>; \<open>testsuite/grpcexpect/grpcexpect.go\<close>: \<open>New\<close>, \<open>Run\<close>, \<open>handler\<close>).

  The GRPC library is a parameter: dialling gives a connection, a description of the services comes
  from a file or from the connection, and \<open>grpcurl.InvokeRpc\<close> is the list of the calls it makes of
  the handler, in order, with its error. Messages are of a type \<open>'m\<close>, for which decoding an expected
  document into a fresh message of the same type and \<open>dynamic.MessagesEqual\<close> are given. The tracing
  interceptors are left out.
\<close>

type_synonym metadata = "(string, string list) gomap"

record grpc_test_cfg =
  gc_Name :: string
  gc_Method :: string
  gc_Header :: header
  gc_Document :: json
  gc_ExpectCode :: int
  gc_ExpectHeader :: header
  gc_ExpectDocument :: json

record grpc_config =
  gr_Path :: string
  gr_Root :: string
  gr_Address :: string
  gr_ProtoSetPath :: string
  gr_TLS :: bool
  gr_CAPath :: string
  gr_ServerHostOverride :: string
  gr_Insecure :: bool
  gr_OAUTH2 :: "oauth2_config option"
  gr_Header :: header
  gr_Tests :: "grpc_test_cfg list"

record grpc_test =
  gt_name :: string
  gt_description :: string
  gt_methodName :: string
  gt_headers :: "string list"
  gt_msgs :: "string list"
  gt_code :: int
  gt_header :: header
  gt_expected :: "string list"

definition grpc_Example :: grpc_config where
  "grpc_Example = \<lparr>gr_Path = [], gr_Root = [], gr_Address = ''localhost:50051'', gr_ProtoSetPath = [],
     gr_TLS = False, gr_CAPath = [], gr_ServerHostOverride = [], gr_Insecure = True, gr_OAUTH2 = None, gr_Header = [],
     gr_Tests = [\<lparr>gc_Name = ''Simple Call'', gc_Method = ''grpcexpect.testing.TestService/SimpleCall'',
       gc_Header = [(''hello'', ''world'')], gc_Document = JObj [(''username'', JStr ''world'')],
       gc_ExpectCode = 0, gc_ExpectHeader = [(''hello'', ''world'')],
       gc_ExpectDocument = JObj [(''message'', JStr ''Hello world!'')]\<rparr>]\<rparr>"

subsection \<open>Generating the tests\<close>

datatype grpc_error =
    In_Request nat string load_error
  | In_Expect nat string load_error
  | No_CA_File string
  | Bad_Certificates
  | Dial_Failed string
  | Bad_Proto_Set string

definition grpc_getFilePath :: "grpc_config \<Rightarrow> string \<Rightarrow> string" where
  "grpc_getFilePath cfg path = (if is_abs path then path else path_join [gr_Root cfg, path])"

definition grpc_test_of ::
  "grpc_config \<Rightarrow> grpc_test_cfg \<Rightarrow> string list \<Rightarrow> string list \<Rightarrow> grpc_test" where
  "grpc_test_of cfg c reqMsgs expMsgs =
     \<lparr>gt_name = gc_Name c, gt_description = ''grpc://'' @ gr_Address cfg @ ''/'' @ gc_Method c,
      gt_methodName = gc_Method c, gt_headers = header_Slice (MergeHeaders [gr_Header cfg, gc_Header c]),
      gt_msgs = reqMsgs, gt_code = gc_ExpectCode c, gt_header = MergeHeaders [gc_ExpectHeader c],
      gt_expected = expMsgs\<rparr>"

fun grpc_tests_from ::
  "files \<Rightarrow> nat \<Rightarrow> grpc_config \<Rightarrow> nat \<Rightarrow> grpc_test_cfg list \<Rightarrow> (grpc_error, grpc_test list) loaded" where
  "grpc_tests_from rf n cfg i [] = Loaded []"
| "grpc_tests_from rf n cfg i (c # cs) =
     bind_loaded (wrap_error (In_Request i (gc_Name c)) (newDocToMsgs rf n (gr_Path cfg) (gc_Document c)))
       (\<lambda>reqMsgs.
         bind_loaded (wrap_error (In_Expect i (gc_Name c))
             (newDocToMsgs rf n (gr_Path cfg) (gc_ExpectDocument c)))
           (\<lambda>expMsgs.
             bind_loaded (grpc_tests_from rf n cfg (Suc i) cs) (\<lambda>ts.
               Loaded (grpc_test_of cfg c reqMsgs expMsgs # ts))))"

definition grpc_genTests ::
  "files \<Rightarrow> nat \<Rightarrow> grpc_config \<Rightarrow> (grpc_error, grpc_test list) loaded" where
  "grpc_genTests rf n cfg = grpc_tests_from rf n cfg 0 (gr_Tests cfg)"

subsection \<open>Connecting\<close>

text \<open>The credentials: in the clear, or TLS with a server name, trusted certificates and no verification.\<close>

datatype transport = In_Clear | With_TLS string "string list" bool

definition transportDialOption ::
  "files \<Rightarrow> (string \<Rightarrow> bool) \<Rightarrow> grpc_config \<Rightarrow> grpc_error + transport" where
  "transportDialOption rf valid_pem cfg =
     (if \<not> gr_TLS cfg then Inr In_Clear
      else if gr_CAPath cfg \<noteq> [] then
        (case rf (grpc_getFilePath cfg (gr_CAPath cfg)) of
           Inl e \<Rightarrow> Inl (No_CA_File e)
         | Inr b \<Rightarrow>
             if \<not> valid_pem b then Inl Bad_Certificates
             else Inr (With_TLS (gr_ServerHostOverride cfg) [b] (gr_Insecure cfg)))
      else Inr (With_TLS (gr_ServerHostOverride cfg) [] (gr_Insecure cfg)))"

record ('cc, 'ds) grpc_env =
  g_files :: files
  g_valid_pem :: "string \<Rightarrow> bool"
  g_dial :: "transport \<Rightarrow> oauth2_config option \<Rightarrow> string \<Rightarrow> string + 'cc"
  g_protoset :: "string \<Rightarrow> string + 'ds"
  g_reflect :: "'cc \<Rightarrow> 'ds"

definition grpc_New ::
  "('cc, 'ds) grpc_env \<Rightarrow> nat \<Rightarrow> grpc_config \<Rightarrow> (grpc_error, 'cc \<times> 'ds \<times> grpc_test list) loaded" where
  "grpc_New env n cfg =
     (case transportDialOption (g_files env) (g_valid_pem env) cfg of
        Inl e \<Rightarrow> Load_Error e
      | Inr tc \<Rightarrow>
          (case g_dial env tc (gr_OAUTH2 cfg) (gr_Address cfg) of
             Inl e \<Rightarrow> Load_Error (Dial_Failed e)
           | Inr cc \<Rightarrow>
               (case (if gr_ProtoSetPath cfg \<noteq> []
                      then g_protoset env (grpc_getFilePath cfg (gr_ProtoSetPath cfg))
                      else Inr (g_reflect env cc)) of
                  Inl e \<Rightarrow> Load_Error (Bad_Proto_Set e)
                | Inr ds \<Rightarrow>
                    bind_loaded (grpc_genTests (g_files env) n cfg) (\<lambda>ts. Loaded (cc, ds, ts)))))"

subsection \<open>The handler\<close>

record 'm handler =
  h_reqs :: "string list"
  h_curReq :: nat
  h_md :: metadata
  h_status :: "(int \<times> string) option"
  h_resps :: "'m list"

text \<open>The calls the library makes of the handler; a request may be asked for at any point.\<close>

datatype 'm callback =
    OnResolveMethod
  | OnSendHeaders metadata
  | OnReceiveHeaders metadata
  | OnReceiveTrailers "int \<times> string" metadata
  | OnReceiveResponse 'm
  | GetRequestData

text \<open>\<open>None\<close> is \<open>io.EOF\<close>.\<close>

definition getRequestData :: "'m handler \<Rightarrow> string option \<times> 'm handler" where
  "getRequestData h =
     (if length (h_reqs h) \<le> h_curReq h then (None, h)
      else (Some (h_reqs h ! h_curReq h), h\<lparr>h_curReq := h_curReq h + 1\<rparr>))"

fun handle :: "'m callback \<Rightarrow> 'm handler \<Rightarrow> 'm handler" where
  "handle OnResolveMethod h = h"
| "handle (OnSendHeaders md) h = h"
| "handle (OnReceiveHeaders md) h = h\<lparr>h_md := md\<rparr>"
| "handle (OnReceiveTrailers st md) h = h\<lparr>h_status := Some st\<rparr>"
| "handle (OnReceiveResponse m) h = h\<lparr>h_resps := h_resps h @ [m]\<rparr>"
| "handle GetRequestData h = snd (getRequestData h)"

definition new_handler :: "string list \<Rightarrow> 'm handler" where
  "new_handler reqs = \<lparr>h_reqs = reqs, h_curReq = 0, h_md = [], h_status = None, h_resps = []\<rparr>"

subsection \<open>Running a test\<close>

datatype 'm grpc_msg =
    Invoke_Failed string
  | Wrong_Code int int string
  | No_Header string
  | Bad_Header string string string
  | Wrong_Count nat nat
  | Bad_Expected string
  | Wrong_Response 'm 'm

record ('m, 'w) grpc_rpc =
  rpc_invoke :: "string \<Rightarrow> string list \<Rightarrow> string list \<Rightarrow> int \<Rightarrow> 'w \<Rightarrow> (string option \<times> 'm callback list) \<times> 'w"
  rpc_like :: "'m \<Rightarrow> string \<Rightarrow> string + 'm"
  rpc_equal :: "'m \<Rightarrow> 'm \<Rightarrow> bool"

text \<open>A status that was never received counts as OK with no message.\<close>

definition status_of :: "'m handler \<Rightarrow> int \<times> string" where
  "status_of h = (case h_status h of None \<Rightarrow> (0, []) | Some st \<Rightarrow> st)"

definition check_grpc_header :: "metadata \<Rightarrow> string \<times> string \<Rightarrow> 'm grpc_msg list" where
  "check_grpc_header md = (\<lambda>(k, want).
     case map_of md k of
       None \<Rightarrow> [No_Header k]
     | Some [] \<Rightarrow> [No_Header k]
     | Some (got # _) \<Rightarrow> if got \<noteq> want then [Bad_Header k got want] else [])"

text \<open>The loop over the expected messages stops with the responses.\<close>

fun check_responses ::
  "('m, 'w) grpc_rpc \<Rightarrow> string list \<Rightarrow> 'm list \<Rightarrow> 'm grpc_msg list" where
  "check_responses rpc (wantRaw # ws) (got # gs) =
     (case rpc_like rpc got wantRaw of
        Inl e \<Rightarrow> [Bad_Expected e]
      | Inr want \<Rightarrow> if \<not> rpc_equal rpc got want then [Wrong_Response got want] else []) @
     check_responses rpc ws gs"
| "check_responses rpc _ _ = []"

definition check_call :: "('m, 'w) grpc_rpc \<Rightarrow> grpc_test \<Rightarrow> 'm handler \<Rightarrow> 'm grpc_msg list" where
  "check_call rpc t h =
     (if fst (status_of h) \<noteq> gt_code t then [Wrong_Code (fst (status_of h)) (gt_code t) (snd (status_of h))]
      else concat (map (check_grpc_header (h_md h)) (gt_header t)) @
        (if length (gt_expected t) \<noteq> length (h_resps h)
         then [Wrong_Count (length (h_resps h)) (length (gt_expected t))] else []) @
        check_responses rpc (gt_expected t) (h_resps h))"

definition grpc_Run ::
  "('m, 'w) grpc_rpc \<Rightarrow> grpc_test \<Rightarrow> int \<Rightarrow> go_context \<Rightarrow> 'w \<Rightarrow> 'm grpc_msg list \<times> 'w" where
  "grpc_Run rpc t limit ctx w =
     (case rpc_invoke rpc (gt_methodName t) (gt_headers t) (gt_msgs t) limit w of
        ((err, calls), w1) \<Rightarrow>
          let h = fold handle calls (new_handler (gt_msgs t)) in
          (case err of
             Some e \<Rightarrow> ([Invoke_Failed e], w1)
           | None \<Rightarrow> (check_call rpc t h, w1)))"

definition as_grpc_test :: "('m, 'w) grpc_rpc \<Rightarrow> grpc_test \<Rightarrow> ('w, 'm grpc_msg) test" where
  "as_grpc_test rpc t = \<lparr>tName = gt_name t, tDescription = gt_description t,
     tRun = (\<lambda>limit ctx w. case grpc_Run rpc t limit ctx w of (ms, w1) \<Rightarrow> Ret (ms, ctx, w1))\<rparr>"


subsection \<open>What the handler collects\<close>

definition responses :: "'m callback list \<Rightarrow> 'm list" where
  "responses calls = List.map_filter (\<lambda>c. case c of OnReceiveResponse m \<Rightarrow> Some m | _ \<Rightarrow> None) calls"

definition last_or :: "'a \<Rightarrow> 'a list \<Rightarrow> 'a" where
  "last_or d xs = (if xs = [] then d else last xs)"

definition received_status :: "'m callback list \<Rightarrow> int \<times> string" where
  "received_status calls =
     last_or (0, []) (List.map_filter (\<lambda>c. case c of OnReceiveTrailers st _ \<Rightarrow> Some st | _ \<Rightarrow> None) calls)"

definition received_headers :: "'m callback list \<Rightarrow> metadata" where
  "received_headers calls =
     last_or [] (List.map_filter (\<lambda>c. case c of OnReceiveHeaders md \<Rightarrow> Some md | _ \<Rightarrow> None) calls)"

lemma map_filter_snoc:
  "List.map_filter f (xs @ [x]) = List.map_filter f xs @ (case f x of None \<Rightarrow> [] | Some y \<Rightarrow> [y])"
  by (simp add: List.map_filter_def split: option.split)

lemma last_or_snoc [simp]: "last_or d (xs @ [x]) = x" "last_or d [] = d"
  by (simp_all add: last_or_def)

lemma handler_collects:
  "h_resps (fold handle calls (new_handler reqs)) = responses calls"
  "status_of (fold handle calls (new_handler reqs)) = received_status calls"
  "h_md (fold handle calls (new_handler reqs)) = received_headers calls"
proof (induction calls rule: rev_induct)
  case Nil
  { case 1 show ?case by (simp add: responses_def new_handler_def List.map_filter_def)
  next
    case 2 show ?case by (simp add: received_status_def new_handler_def status_of_def List.map_filter_def)
  next
    case 3 show ?case by (simp add: received_headers_def new_handler_def List.map_filter_def)
  }
next
  case (snoc c calls)
  { case 1 show ?case using snoc(1)
      by (cases c) (auto simp: responses_def map_filter_snoc getRequestData_def)
  next
    case 2 show ?case using snoc(2)
      by (cases c) (auto simp: received_status_def map_filter_snoc getRequestData_def status_of_def)
  next
    case 3 show ?case using snoc(3)
      by (cases c) (auto simp: received_headers_def map_filter_snoc getRequestData_def)
  }
qed

text \<open>What the requests for data give, in a sequence of calls.\<close>

fun served :: "'m callback list \<Rightarrow> 'm handler \<Rightarrow> string option list" where
  "served [] h = []"
| "served (c # cs) h =
     (case c of GetRequestData \<Rightarrow> fst (getRequestData h) # served cs (handle c h) | _ \<Rightarrow> served cs (handle c h))"

definition requests_made :: "'m callback list \<Rightarrow> nat" where
  "requests_made calls = length (filter (\<lambda>c. case c of GetRequestData \<Rightarrow> True | _ \<Rightarrow> False) calls)"

lemma requests_made_simps [simp]:
  "requests_made [] = 0"
  "requests_made (c # cs) = (if c = GetRequestData then Suc (requests_made cs) else requests_made cs)"
  by (cases c; simp add: requests_made_def)+

lemma handle_reqs [simp]: "h_reqs (handle c h) = h_reqs h"
  by (cases c) (simp_all add: getRequestData_def)

lemma getRequestData_reqs [simp]: "h_reqs (snd (getRequestData h)) = h_reqs h"
  by (simp add: getRequestData_def)

lemma served_over: "length (h_reqs h) \<le> h_curReq h \<Longrightarrow> served calls h = replicate (requests_made calls) None"
proof (induction calls arbitrary: h)
  case Nil
  then show ?case by simp
next
  case (Cons c cs)
  then have "length (h_reqs (handle c h)) \<le> h_curReq (handle c h)"
    by (cases c) (auto simp: getRequestData_def)
  from Cons.IH [OF this] Cons.prems show ?case
    by (cases c) (simp_all add: getRequestData_def)
qed

lemma served_from:
  "served calls h = map (\<lambda>i. if i < length (h_reqs h) then Some (h_reqs h ! i) else None)
     [h_curReq h ..< h_curReq h + requests_made calls]"
proof (induction calls arbitrary: h)
  case Nil
  then show ?case by simp
next
  case (Cons c cs)
  show ?case
  proof (cases "c = GetRequestData")
    case False
    then have "h_curReq (handle c h) = h_curReq h" by (cases c) auto
    with Cons [of "handle c h"] False show ?thesis by (cases c) simp_all
  next
    case True
    show ?thesis
    proof (cases "h_curReq h < length (h_reqs h)")
      case less: True
      have "h_curReq (handle c h) = Suc (h_curReq h)" using True less by (simp add: getRequestData_def)
      moreover have "fst (getRequestData h) = Some (h_reqs h ! h_curReq h)"
        using less by (simp add: getRequestData_def)
      moreover have "[h_curReq h ..< h_curReq h + Suc k] = h_curReq h # [Suc (h_curReq h) ..< Suc (h_curReq h) + k]" for k
        by (simp add: upt_conv_Cons)
      ultimately show ?thesis using less Cons [of "handle c h"] True by (simp del: upt_Suc)
    next
      case False
      then have "map (\<lambda>i. if i < length (h_reqs h) then Some (h_reqs h ! i) else None)
          [h_curReq h ..< h_curReq h + k] = replicate k None" for k
        by (intro nth_equalityI) auto
      with False served_over [of h "c # cs"] show ?thesis by simp
    qed
  qed
qed

subsection \<open>What a call must be\<close>

definition grpc_header_conforms :: "metadata \<Rightarrow> string \<times> string \<Rightarrow> bool" where
  "grpc_header_conforms md = (\<lambda>(k, want). \<exists>vs. map_of md k = Some (want # vs))"

definition response_conforms :: "('m, 'w) grpc_rpc \<Rightarrow> string \<Rightarrow> 'm \<Rightarrow> bool" where
  "response_conforms rpc want got \<longleftrightarrow> (\<exists>m. rpc_like rpc got want = Inr m \<and> rpc_equal rpc got m)"

definition grpc_conforms :: "('m, 'w) grpc_rpc \<Rightarrow> grpc_test \<Rightarrow> 'm callback list \<Rightarrow> bool" where
  "grpc_conforms rpc t calls \<longleftrightarrow>
     fst (received_status calls) = gt_code t \<and>
     (\<forall>kv \<in> set (gt_header t). grpc_header_conforms (received_headers calls) kv) \<and>
     list_all2 (response_conforms rpc) (gt_expected t) (responses calls)"

lemma check_grpc_header_Nil: "check_grpc_header md kv = [] \<longleftrightarrow> grpc_header_conforms md kv"
  by (cases kv) (auto simp: check_grpc_header_def grpc_header_conforms_def split: option.split list.split)

lemma check_responses_Nil:
  "length ws = length gs \<Longrightarrow> check_responses rpc ws gs = [] \<longleftrightarrow> list_all2 (response_conforms rpc) ws gs"
  by (induction ws gs rule: list_induct2) (auto simp: response_conforms_def split: sum.splits)

lemma check_call_Nil:
  "check_call rpc t h = [] \<longleftrightarrow> fst (status_of h) = gt_code t \<and>
     (\<forall>kv \<in> set (gt_header t). grpc_header_conforms (h_md h) kv) \<and>
     list_all2 (response_conforms rpc) (gt_expected t) (h_resps h)"
proof (cases "length (gt_expected t) = length (h_resps h)")
  case True
  then show ?thesis by (auto simp: check_call_def check_grpc_header_Nil check_responses_Nil)
next
  case False
  then have "\<not> list_all2 (response_conforms rpc) (gt_expected t) (h_resps h)"
    by (auto dest: list_all2_lengthD)
  with False show ?thesis by (simp add: check_call_def)
qed

lemma as_grpc_test_returns: "never_panics (as_grpc_test rpc t)"
  by (simp add: never_panics_def as_grpc_test_def split: prod.split)

lemma grpc_tests_from_Loaded:
  "grpc_tests_from rf n cfg i cs = Loaded ts \<Longrightarrow>
    list_all2 (\<lambda>c t. \<exists>reqs exps. newDocToMsgs rf n (gr_Path cfg) (gc_Document c) = Loaded reqs \<and>
      newDocToMsgs rf n (gr_Path cfg) (gc_ExpectDocument c) = Loaded exps \<and>
      t = grpc_test_of cfg c reqs exps) cs ts"
proof (induction cs arbitrary: i ts)
  case (Cons c cs)
  have wrap: "wrap_error f m = Loaded x \<longleftrightarrow> m = Loaded x" for f :: "load_error \<Rightarrow> grpc_error" and m and x :: "string list"
    by (cases m) auto
  from Cons.prems obtain reqs exps ts' where
    "newDocToMsgs rf n (gr_Path cfg) (gc_Document c) = Loaded reqs"
    "newDocToMsgs rf n (gr_Path cfg) (gc_ExpectDocument c) = Loaded exps"
    "grpc_tests_from rf n cfg (Suc i) cs = Loaded ts'" "ts = grpc_test_of cfg c reqs exps # ts'"
    by (auto simp: bind_loaded_iff wrap)
  with Cons.IH show ?case by auto
qed simp

subsection \<open>Properties\<close>

text \<open>
  C32: A GRPC test passes, logging nothing, exactly when the call could be made and its outcome conforms:
  the last status received, OK when none was, has the expected code; every expected header is, under
  that very name, the first value of the last headers received; and there are as many responses as
  expected messages, each equal to its expected document read as a message of the same type.
\<close>

theorem grpc_Run_passes:
  assumes "grpc_Run rpc t limit ctx w = (ms, w')"
  shows "ms = [] \<longleftrightarrow> (\<exists>calls. rpc_invoke rpc (gt_methodName t) (gt_headers t) (gt_msgs t) limit w =
      ((None, calls), w') \<and> grpc_conforms rpc t calls)"
  using assms
  by (auto simp: grpc_Run_def Let_def check_call_Nil handler_collects grpc_conforms_def
      split: prod.splits option.splits)

definition demo_rpc :: "(string, nat) grpc_rpc" where
  "demo_rpc = \<lparr>rpc_invoke = (\<lambda>m hs reqs limit w.
       ((None, [GetRequestData, OnReceiveHeaders [(''hello'', [''world''])], OnReceiveResponse ''{}'',
          OnReceiveTrailers (0, []) []]), w + 1)),
     rpc_like = (\<lambda>_ s. Inr s), rpc_equal = (=)\<rparr>"

definition demo_grpc_test :: grpc_test where
  "demo_grpc_test = \<lparr>gt_name = ''t'', gt_description = [], gt_methodName = ''S/M'', gt_headers = [],
     gt_msgs = [''{}''], gt_code = 0, gt_header = [(''hello'', ''world'')], gt_expected = [''{}'']\<rparr>"

theorem grpc_Run_passes_witness:
  "\<exists>calls. grpc_conforms demo_rpc demo_grpc_test calls \<and> responses calls = [''{}'']"
proof -
  have "grpc_Run demo_rpc demo_grpc_test 5 \<lparr>ctx_md = None\<rparr> 0 = ([], 1)"
    by (simp add: grpc_Run_def demo_rpc_def demo_grpc_test_def check_call_def new_handler_def status_of_def
        getRequestData_def check_grpc_header_def)
  from grpc_Run_passes [OF this] show ?thesis
    by (auto simp: demo_rpc_def responses_def List.map_filter_def)
qed

text \<open>
  C33: Every request message is sent once, in order. Whenever and however often the library asks the
  handler for a request, among its other calls, the answers are the messages of the test one after the
  other and then the end of the stream, for ever.
\<close>

theorem requests_in_order:
  "served calls (new_handler reqs) =
     map (\<lambda>i. if i < length reqs then Some (reqs ! i) else None) [0 ..< requests_made calls]"
  using served_from [of calls "new_handler reqs"] by (simp add: new_handler_def)

text \<open>
  The tests of a GRPC suite. When they can be generated there is one for each entry, in order, with
  its name, method and expected code; its request headers are those of the suite with those of the
  entry on top, one line for each name; and its messages are those of its two documents.
\<close>

theorem grpc_genTests_entries:
  assumes "grpc_genTests rf n cfg = Loaded ts" and "wf_map (gr_Header cfg)"
    and "\<forall>c \<in> set (gr_Tests cfg). wf_map (gc_Header c)"
  shows "list_all2 (\<lambda>c t. gt_name t = gc_Name c \<and> gt_methodName t = gc_Method c \<and> gt_code t = gc_ExpectCode c \<and>
      newDocToMsgs rf n (gr_Path cfg) (gc_Document c) = Loaded (gt_msgs t) \<and>
      newDocToMsgs rf n (gr_Path cfg) (gc_ExpectDocument c) = Loaded (gt_expected t) \<and>
      (\<exists>h. wf_map h \<and> map_of h = map_of (gr_Header cfg) ++ map_of (gc_Header c) \<and>
         gt_headers t = map (\<lambda>(k, v). k @ '':'' @ v) h))
    (gr_Tests cfg) ts"
proof -
  have hdr: "wf_map (MergeHeaders [gr_Header cfg, gc_Header c]) \<and>
      map_of (MergeHeaders [gr_Header cfg, gc_Header c]) = map_of (gr_Header cfg) ++ map_of (gc_Header c)"
    if "c \<in> set (gr_Tests cfg)" for c
    using that assms(2,3) map_of_MergeHeaders [of "[gr_Header cfg, gc_Header c]"] by (simp add: wf_MergeHeaders)
  from grpc_tests_from_Loaded [of rf n cfg 0 "gr_Tests cfg" ts] assms(1)
  have "list_all2 (\<lambda>c t. \<exists>reqs exps. newDocToMsgs rf n (gr_Path cfg) (gc_Document c) = Loaded reqs \<and>
      newDocToMsgs rf n (gr_Path cfg) (gc_ExpectDocument c) = Loaded exps \<and>
      t = grpc_test_of cfg c reqs exps) (gr_Tests cfg) ts" by (simp add: grpc_genTests_def)
  then show ?thesis
    by (rule list.rel_mono_strong)
      (use hdr in \<open>fastforce simp: grpc_test_of_def header_Slice_def\<close>)
qed

theorem grpc_genTests_entries_witness:
  "\<exists>t. grpc_genTests demo_files 0 (grpc_Example\<lparr>gr_Header := [(''hello'', ''you'')]\<rparr>) = Loaded [t] \<and>
     gt_methodName t = ''grpcexpect.testing.TestService/SimpleCall''"
proof -
  let ?cfg = "grpc_Example\<lparr>gr_Header := [(''hello'', ''you'')]\<rparr>"
  obtain t where t: "grpc_genTests demo_files 0 ?cfg = Loaded [t]"
    by (simp add: grpc_genTests_def grpc_Example_def newDocToMsgs_def loadDoc_closed raw_object_def json_ref_def)
  from grpc_genTests_entries [OF t] t show ?thesis by (simp add: grpc_Example_def)
qed

end
