(* ===== verification/App.thy ===== *)
theory App
  imports Commands Slack Http_Test Grpc_Test
begin

text \<open>
  The plugins the program is built with: the \<open>init\<close> functions of \<open>notifier/slack/slack.go\<close>,
  \<open>testsuite/grpcexpect/grpcexpect.go\<close> and \<open>testsuite/httpexpect/httpexpect.go\<close>, which
  \<open>cmd/aragorn/main.go\<close> imports for their effect on the registry. With them the two type parameters
  of the registry get their values: a configuration is that of one of the three plugins, and a logged
  message comes from an HTTP or a GRPC test.

  The surroundings gather those of the plugins. A GRPC document that would be followed through more
  references than the stack of the process has room for ends the program, as a panic.
\<close>

datatype plugin_config =
    HTTP_Config http_config
  | GRPC_Config grpc_config
  | Slack_Plugin_Config Slack_Config

datatype 'm app_msg = HTTP_Msg http_msg | GRPC_Msg "'m grpc_msg"

record ('cc, 'ds, 'm, 'w) app_env =
  ap_http :: http_env
  ap_client :: "client_settings \<Rightarrow> 'w http_client"
  ap_grpc :: "('cc, 'ds) grpc_env"
  ap_rpc :: "'cc \<Rightarrow> 'ds \<Rightarrow> ('m, 'w) grpc_rpc"
  ap_depth :: nat
  ap_slack :: "('w, 'm app_msg) slack_env"
  ap_http_error :: "gen_error \<Rightarrow> string"
  ap_grpc_error :: "grpc_error \<Rightarrow> string"

text \<open>A test of a plugin as a test of the program: its messages are those of the plugin, tagged.\<close>

definition lift_test :: "('e \<Rightarrow> 'f) \<Rightarrow> ('w, 'e) test \<Rightarrow> ('w, 'f) test" where
  "lift_test f t = \<lparr>tName = tName t, tDescription = tDescription t,
     tRun = (\<lambda>limit ctx w. map_run (\<lambda>(ms, ctx1, w1). (map f ms, ctx1, w1)) (tRun t limit ctx w))\<rparr>"

definition wrong_config :: "'a run" where
  "wrong_config = Panics (Explicit_Panic ''interface conversion'')"

type_synonym ('m, 'w) app_instance = "('w, 'm app_msg) plugin_instance"

subsection \<open>Registrations\<close>

definition zero_Slack_Config :: Slack_Config where
  "zero_Slack_Config = \<lparr>sl_Webhook = [], sl_Username = [], sl_Channel = [], sl_Verbose = False\<rparr>"

definition slack_registration ::
  "('cc, 'ds, 'm, 'w) app_env \<Rightarrow> (plugin_config, ('m, 'w) app_instance) Registration" where
  "slack_registration env =
     \<lparr>reg_Type = NotifierPlugin, reg_ID = ''slack'',
      reg_Config = Some (Slack_Plugin_Config zero_Slack_Config),
      InitFn = (\<lambda>ic. case ic_Config ic of
          Slack_Plugin_Config cfg \<Rightarrow> Ret (Inr (Notifier_Instance (Slack_New (ap_slack env) cfg)))
        | _ \<Rightarrow> wrong_config)\<rparr>"

definition zero_grpc_config :: grpc_config where
  "zero_grpc_config = \<lparr>gr_Path = [], gr_Root = [], gr_Address = [], gr_ProtoSetPath = [], gr_TLS = False,
     gr_CAPath = [], gr_ServerHostOverride = [], gr_Insecure = False, gr_OAUTH2 = None, gr_Header = [],
     gr_Tests = []\<rparr>"

definition grpc_suite ::
  "('cc, 'ds, 'm, 'w) app_env \<Rightarrow> grpc_config \<Rightarrow> (string + ('m, 'w) app_instance) run" where
  "grpc_suite env cfg =
     (case grpc_New (ap_grpc env) (ap_depth env) cfg of
        Loaded (cc, ds, ts) \<Rightarrow>
          Ret (Inr (Suite_Instance (map (\<lambda>t. lift_test GRPC_Msg (as_grpc_test (ap_rpc env cc ds) t)) ts)))
      | Load_Error e \<Rightarrow> Ret (Inl (ap_grpc_error env e))
      | Load_Panic p \<Rightarrow> Panics p
      | Out_Of_Fuel \<Rightarrow> Panics (Explicit_Panic ''stack overflow''))"

definition grpc_registration ::
  "('cc, 'ds, 'm, 'w) app_env \<Rightarrow> (plugin_config, ('m, 'w) app_instance) Registration" where
  "grpc_registration env =
     \<lparr>reg_Type = TestSuitePlugin, reg_ID = ''GRPC'', reg_Config = Some (GRPC_Config zero_grpc_config),
      InitFn = (\<lambda>ic. case ic_Config ic of
          GRPC_Config cfg \<Rightarrow> grpc_suite env (cfg\<lparr>gr_Path := ic_Path ic, gr_Root := ic_Root ic\<rparr>)
        | _ \<Rightarrow> wrong_config)\<rparr>"

definition zero_http_config :: http_config where
  "zero_http_config = \<lparr>hc_Path = [], hc_Root = [],
     hc_Base = \<lparr>b_URL = [], b_Header = [], b_Insecure = False, b_OAUTH2 = None\<rparr>, hc_Tests = []\<rparr>"

definition http_suite ::
  "('cc, 'ds, 'm, 'w) app_env \<Rightarrow> http_config \<Rightarrow> (string + ('m, 'w) app_instance) run" where
  "http_suite env cfg =
     map_run (\<lambda>res. case res of
         Inl e \<Rightarrow> Inl (ap_http_error env e)
       | Inr ts \<Rightarrow> Inr (Suite_Instance (map (lift_test HTTP_Msg) ts)))
       (http_New (ap_client env) (ap_http env) cfg)"

definition http_registration ::
  "('cc, 'ds, 'm, 'w) app_env \<Rightarrow> (plugin_config, ('m, 'w) app_instance) Registration" where
  "http_registration env =
     \<lparr>reg_Type = TestSuitePlugin, reg_ID = ''HTTP'', reg_Config = Some (HTTP_Config zero_http_config),
      InitFn = (\<lambda>ic. case ic_Config ic of
          HTTP_Config cfg \<Rightarrow> http_suite env (cfg\<lparr>hc_Path := ic_Path ic, hc_Root := ic_Root ic\<rparr>)
        | _ \<Rightarrow> wrong_config)\<rparr>"

text \<open>The registry after the \<open>init\<close> functions, which run in the order of the imports.\<close>

definition app_registry ::
  "('cc, 'ds, 'm, 'w) app_env \<Rightarrow> (plugin_config, ('m, 'w) app_instance) registry run" where
  "app_registry env =
     bind_run (Register (slack_registration env) []) (\<lambda>r1.
       bind_run (Register (grpc_registration env) r1) (\<lambda>r2.
         Register (http_registration env) r2))"

subsection \<open>The registry\<close>

lemma app_registry_Ret:
  "app_registry env = Ret [(URI (slack_registration env), slack_registration env),
     (URI (grpc_registration env), grpc_registration env),
     (URI (http_registration env), http_registration env)]"
  by (simp add: app_registry_def Register_def URI_def registrationURI_def slack_registration_def
      grpc_registration_def http_registration_def TestSuitePlugin_def NotifierPlugin_def)

lemma registration_fields:
  "reg_Type (slack_registration env) = NotifierPlugin" "reg_ID (slack_registration env) = ''slack''"
  "reg_Type (grpc_registration env) = TestSuitePlugin" "reg_ID (grpc_registration env) = ''GRPC''"
  "reg_Type (http_registration env) = TestSuitePlugin" "reg_ID (http_registration env) = ''HTTP''"
  by (simp_all add: slack_registration_def grpc_registration_def http_registration_def)

lemma app_Get:
  assumes "app_registry env = Ret reg"
  shows "Get reg TestSuitePlugin i = (if i = ''GRPC'' then Some (grpc_registration env)
      else if i = ''HTTP'' then Some (http_registration env) else None)"
    "Get reg NotifierPlugin i = (if i = ''slack'' then Some (slack_registration env) else None)"
  using assms registrationURI_known [of TestSuitePlugin NotifierPlugin i]
    registrationURI_known [of NotifierPlugin TestSuitePlugin i]
  by (auto simp: app_registry_Ret Get_def URI_def registration_fields known_type_def
      TestSuitePlugin_def NotifierPlugin_def registrationURI_def)

subsection \<open>Suites of the program\<close>

lemma lift_test_never_panics: "never_panics t \<Longrightarrow> never_panics (lift_test f t)"
  by (simp add: never_panics_def lift_test_def)

lemma tName_lift [simp]: "tName (lift_test f t) = tName t" "tName (as_test do u) = t_name u"
  by (simp_all add: lift_test_def as_test_def)

lemma grpc_suite_tests:
  assumes "grpc_suite env cfg = Ret (Inr (Suite_Instance ts))" and "t \<in> set ts"
  shows "never_panics t"
  using assms
  by (auto simp: grpc_suite_def lift_test_never_panics as_grpc_test_returns split: loaded.splits)

lemma prepare_all_vars:
  "prepare_all env cfg cs = Ret (errs, ts) \<Longrightarrow> t \<in> set ts \<Longrightarrow> \<exists>c. prepare env cfg c = Inr t"
proof (induction env cfg cs arbitrary: errs ts rule: prepare_all.induct)
  case (3 env cfg c cs)
  then show ?case by (cases "prepare env cfg c") (auto simp: map_run_Ret_iff)
qed simp_all

lemma http_suite_tests:
  assumes "http_suite env cfg = Ret (Inr (Suite_Instance ts))"
  obtains hts where "genTests (ap_http env) cfg = Ret (Inr hts)" "\<forall>t \<in> set hts. vars_match t"
    "ts = map (\<lambda>t. lift_test HTTP_Msg (as_test (ap_client env (client_of cfg)) t)) hts"
proof -
  obtain hts where gen: "genTests (ap_http env) cfg = Ret (Inr hts)"
    and ts: "ts = map (\<lambda>t. lift_test HTTP_Msg (as_test (ap_client env (client_of cfg)) t)) hts"
  proof (cases "genTests (ap_http env) cfg")
    case (Ret res)
    with assms that show thesis by (cases res) (auto simp: http_suite_def http_New_def)
  qed (use assms in \<open>simp add: http_suite_def http_New_def\<close>)
  from gen have "\<exists>errs. prepare_all (ap_http env) cfg (hc_Tests cfg) = Ret (errs, hts)"
    by (auto simp: genTests_def map_run_Ret_iff split: if_splits option.splits)
  then have "\<forall>t \<in> set hts. vars_match t" using prepare_all_vars prepare_vars by blast
  with gen ts that show thesis by blast
qed

lemma app_suite:
  assumes "app_registry env = Ret (plugins cenv)"
    and "NewSuiteFromReader cenv (doc, Some path) opts = Ret (Inr s)"
  obtains (grpc) ts where "s_typ s = ''GRPC''" "set (s_tests s) \<subseteq> set ts" "\<forall>t \<in> set ts. never_panics t"
  | (http) cfg hts where "s_typ s = ''HTTP''" "hc_Path cfg = path" "hc_Root cfg = path_dir path"
      "genTests (ap_http env) cfg = Ret (Inr hts)" "\<forall>t \<in> set hts. vars_match t"
      "set (s_tests s) \<subseteq> (\<lambda>t. lift_test HTTP_Msg (as_test (ap_client env (client_of cfg)) t)) ` set hts"
proof -
  from assms(2) obtain cfg0 where "decode_suite cenv doc default_SuiteConfig = Inr cfg0"
    by (cases "decode_suite cenv doc default_SuiteConfig") (auto simp: NewSuiteFromReader_def)
  from NewSuiteFromReader_Inr [OF assms(2) this] obtain reg c ts where
    get: "Get (plugins cenv) TestSuitePlugin (sc_Type (applyOptions opts cfg0)) = Some reg"
    and init: "Init reg \<lparr>ic_Config = c, ic_Path = path, ic_Root = path_dir path\<rparr> = Ret (Inr (Suite_Instance ts))"
    and new: "NewSuite cenv path (sc_Type (applyOptions opts cfg0)) ts (applyOptions opts cfg0) = Inr s"
    by blast
  from NewSuite_Inr(2,10) [OF new] have s: "s_typ s = sc_Type (applyOptions opts cfg0)"
    "set (s_tests s) \<subseteq> set ts" by (auto simp: keeps_def split: if_splits)
  from get app_Get(1) [OF assms(1)] consider "s_typ s = ''GRPC''" "reg = grpc_registration env"
    | "s_typ s = ''HTTP''" "reg = http_registration env"
    by (auto simp: s split: if_splits)
  then show thesis
  proof cases
    case 1
    with init have "\<exists>cfg. grpc_suite env cfg = Ret (Inr (Suite_Instance ts))"
      by (auto simp: Init_def grpc_registration_def wrong_config_def split: plugin_config.splits)
    with grpc_suite_tests have "\<forall>t \<in> set ts. never_panics t" by blast
    with grpc 1(1) s(2) show thesis by blast
  next
    case 2
    with init obtain cfg where "http_suite env cfg = Ret (Inr (Suite_Instance ts))"
      and "hc_Path cfg = path" "hc_Root cfg = path_dir path"
      by (auto simp: Init_def http_registration_def wrong_config_def split: plugin_config.splits)
    from http_suite_tests [OF this(1)] obtain hts where
      "genTests (ap_http env) cfg = Ret (Inr hts)" "\<forall>t \<in> set hts. vars_match t"
      "ts = map (\<lambda>t. lift_test HTTP_Msg (as_test (ap_client env (client_of cfg)) t)) hts" .
    with http [of cfg hts] 2(1) s(2) \<open>hc_Path cfg = path\<close> \<open>hc_Root cfg = path_dir path\<close>
    show thesis by simp
  qed
qed

subsection \<open>Properties\<close>

text \<open>
  What the program is built with. Registering its plugins never panics; the suite types it knows
  are exactly GRPC and HTTP, which is also what the help of \<open>init\<close> lists, and slack is the only
  notifier.
\<close>

theorem installed_plugins:
  "\<exists>reg. app_registry env = Ret reg \<and> availableTestSuites reg sep = ''GRPC'' @ sep @ ''HTTP'' \<and>
     (\<forall>i. Get reg TestSuitePlugin i \<noteq> None \<longleftrightarrow> i = ''GRPC'' \<or> i = ''HTTP'') \<and>
     (\<forall>i. Get reg NotifierPlugin i \<noteq> None \<longleftrightarrow> i = ''slack'')"
proof -
  obtain reg where reg: "app_registry env = Ret reg" by (simp add: app_registry_Ret)
  have "ForType reg TestSuitePlugin = [grpc_registration env, http_registration env]"
    using reg has_prefix_URI_known [of _ TestSuitePlugin]
    by (auto simp: app_registry_Ret ForType_def URI_def registration_fields known_type_def
        TestSuitePlugin_def NotifierPlugin_def)
  then have "availableTestSuites reg sep = join_with sep (sort [''GRPC'', ''HTTP''])"
    by (simp add: availableTestSuites_def registration_fields)
  also have "sort [''GRPC'', ''HTTP''] = [''GRPC'', ''HTTP'']" by code_simp
  finally show ?thesis using reg by (auto simp: app_Get [OF reg])
qed


definition demo_app_env :: "(unit, unit, string, nat) app_env" where
  "demo_app_env = \<lparr>ap_http = demo_http_env, ap_client = (\<lambda>_ _ _ w. (Inl ''no route'', w)),
     ap_grpc = \<lparr>g_files = demo_files, g_valid_pem = (\<lambda>_. False), g_dial = (\<lambda>_ _ _. Inr ()),
       g_protoset = (\<lambda>_. Inl ''none''), g_reflect = (\<lambda>_. ())\<rparr>,
     ap_rpc = (\<lambda>_ _. demo_rpc), ap_depth = 0,
     ap_slack = \<lparr>sl_quote = (\<lambda>s. s), sl_error = (\<lambda>_. ''error''),
       sl_post = (\<lambda>_ _ _ w. (Inr (200, Inr ''ok''), w + 1))\<rparr>,
     ap_http_error = (\<lambda>_. ''http''), ap_grpc_error = (\<lambda>_. ''grpc'')\<rparr>"

definition demo_app_config ::
  "(plugin_config, (string, nat) app_instance) registry \<Rightarrow> (plugin_config, nat, string app_msg) config_env" where
  "demo_app_config reg =
     \<lparr>open_file = (\<lambda>_. Inr ''{}''),
      decode_suite = (\<lambda>_ cfg. Inr (cfg\<lparr>sc_Type := ''GRPC''\<rparr>)),
      decode_config = (\<lambda>_. Inr ([], [])),
      unmarshal = (\<lambda>_ _. Inr (GRPC_Config grpc_Example)),
      compile_regexp = (\<lambda>f. Inr (\<lambda>s. s = f)),
      plugins = reg\<rparr>"


end
