(* ===== verification/Program.thy ===== *)
theory Program
  imports Cli App
begin

text \<open>
  The whole program: the commands with their names, texts and flags (the methods \<open>Name\<close>, \<open>Args\<close>,
  \<open>ShortHelp\<close>, \<open>LongHelp\<close>, \<open>Hidden\<close>, \<open>Register\<close> and \<open>Run\<close> in \<open>cmd/aragorn/*.go\<close>), and the table of
  commands of \<open>main.go\<close>. The surroundings of the commands gain what \<open>init\<close> needs, writing the file it
  creates, the events \<open>watch\<close> sees before a channel is closed, what happens between the start of the
  server of \<open>run\<close> and the signal that ends it, and the values of the \<open>version\<close> command.
\<close>

record ('c, 'w, 'e, 'x) program_env =
  pe_cmd :: "('c, 'w, 'e) cmd_env"
  pe_init :: "'c init_env"
  pe_write :: "string \<Rightarrow> string \<Rightarrow> 'w \<Rightarrow> 'w"
  pe_events :: "'w \<Rightarrow> fs_event list \<times> 'w"
  pe_cron_next :: "'x \<Rightarrow> int \<Rightarrow> int"
  pe_cron_parse :: "string \<Rightarrow> 'x option"
  pe_serve :: "('w, 'e, 'x) Server \<Rightarrow> 'w \<Rightarrow> ('w, 'e, 'x) Server \<times> 'w"
  pe_version :: string
  pe_buildDate :: string
  pe_commitHash :: string
  pe_go :: "string \<times> string \<times> string"

definition fileHelp :: string where
  "fileHelp = join_with [CHR 0x0A]
     ['''', '''', ''For each operand that names a file of type directory,'',
      ''all the files with the extension .suite.json in the directory will be used as test suites.'', '''',
      ''For each operand that names a file of a type other than directory,'',
      ''the file will be used as a test suite.'', '''',
      ''If no operands are given, the current directory is used.'', '''']"

subsection \<open>The commands\<close>

definition initCommand :: "('c, 'w, 'e, 'x) program_env \<Rightarrow> 'w command" where
  "initCommand env =
     (let reg = plugins (ce_config (pe_cmd env)) in
      \<lparr>c_name = ''init'', c_args = ''('' @ availableTestSuites reg '' | '' @ '') (default: HTTP)'',
       c_short = ''Set up a new Aragorn project'', c_long = ''Set up a new Aragorn project'', c_hidden = False,
       c_Register = [],
       c_Run = (\<lambda>fs args w.
         case init_Run (pe_init env) reg args of
           (e, None) \<Rightarrow> Ret (Returned e, [], w)
         | (e, Some (path, content)) \<Rightarrow> Ret (Returned e, [], pe_write env path content w))\<rparr>)"

definition listCommand :: "('c, 'w, 'e, 'x) program_env \<Rightarrow> 'w command" where
  "listCommand env =
     \<lparr>c_name = ''list'', c_args = ''[file ...]'', c_short = ''List the test suites'',
      c_long = ''List the test suites'' @ fileHelp, c_hidden = False,
      c_Register = [(''filter'', String_Flag [], ''List only the tests that match the regular expression'')],
      c_Run = (\<lambda>fs args w.
        map_run (\<lambda>res. case res of
            Inl e \<Rightarrow> (Returned (Some e), [], w)
          | Inr rows \<Rightarrow> (Returned None, [Table rows], w))
          (list_Run (pe_cmd env) (string_flag fs ''filter'') args))\<rparr>"

definition exec_flags :: "flag_set \<Rightarrow> execCommand" where
  "exec_flags fs = \<lparr>ex_config = string_flag fs ''config'', ex_failfast = bool_flag fs ''failfast'',
     ex_wait = bool_flag fs ''wait'', ex_filter = string_flag fs ''filter'',
     ex_timeout = duration_flag fs ''timeout''\<rparr>"

definition exec_command :: "('c, 'w, 'e, 'x) program_env \<Rightarrow> 'w command" where
  "exec_command env =
     \<lparr>c_name = ''exec'', c_args = ''[file ...]'', c_short = ''Execute the test suites'',
      c_long = ''Execute the test suites'' @ fileHelp, c_hidden = False,
      c_Register =
        [(''config'', String_Flag [], ''Path to your config file''),
         (''failfast'', Bool_Flag False, ''Stop after first test failure''),
         (''filter'', String_Flag [], ''Execute only the tests that match the regular expression''),
         (''timeout'', Duration_Flag 0, ''Timeout specifies a time limit for each test''),
         (''wait'', Bool_Flag False, ''Wait'')],
      c_Run = (\<lambda>fs args w.
        map_run (\<lambda>(end, w1). (end, [], w1)) (exec_Run (pe_cmd env) (exec_flags fs) args w))\<rparr>"

definition watchCommand :: "('c, 'w, 'e, 'x) program_env \<Rightarrow> 'w command" where
  "watchCommand env =
     \<lparr>c_name = ''watch'', c_args = ''[file ...]'',
      c_short = ''Watch the test suites and execute them on create or save'',
      c_long = ''Watch the test suites and execute them on create or save'' @ fileHelp, c_hidden = False,
      c_Register = [(''failfast'', Bool_Flag False, ''Stop after first test failure'')],
      c_Run = (\<lambda>fs args w.
        case pe_events env w of
          (events, w0) \<Rightarrow>
            map_run (\<lambda>(e, errs, w1). (Returned e, map (\<lambda>(p, err). Suite_Refused p err) errs, w1))
              (watch_Run (pe_cmd env) (bool_flag fs ''failfast'') args events w0))\<rparr>"

definition runCommand :: "('c, 'w, 'e, 'x) program_env \<Rightarrow> 'w command" where
  "runCommand env =
     \<lparr>c_name = ''run'', c_args = [], c_short = ''Schedule the test suites in the configuration file'',
      c_long = ''Schedule the test suites in the configuration file'', c_hidden = False,
      c_Register =
        [(''config'', String_Flag ''config.json'', ''Path to your config file''),
         (''shutdown-timeout'', Duration_Flag 10000000000,
           ''grace period for which to wait before shutting down'')],
      c_Run = (\<lambda>fs args w.
        map_run (\<lambda>res. case res of
            Inl e \<Rightarrow> (Returned (Some e), [], w)
          | Inr srv \<Rightarrow>
              (case pe_serve env srv w of (srv1, w1) \<Rightarrow> (Returned (fst (run_shutdown srv1)), [], w1)))
          (run_start (pe_cron_next env) (pe_cron_parse env) (pe_cmd env) (string_flag fs ''config'')))\<rparr>"

definition versionCommand :: "('c, 'w, 'e, 'x) program_env \<Rightarrow> 'w command" where
  "versionCommand env =
     \<lparr>c_name = ''version'', c_args = [], c_short = ''Show the aragorn version information'',
      c_long = ''Show the aragorn version information'', c_hidden = False, c_Register = [],
      c_Run = (\<lambda>fs args w.
        case pe_go env of
          (go, compiler, platform) \<Rightarrow>
            Ret (Returned None,
              [Version_Lines [(''version'', pe_version env), (''build date'', pe_buildDate env),
                 (''git hash'', pe_commitHash env), (''go version'', go), (''go compiler'', compiler),
                 (''platform'', platform)]], w))\<rparr>"

definition commands :: "('c, 'w, 'e, 'x) program_env \<Rightarrow> 'w command list" where
  "commands env = [initCommand env, listCommand env, exec_command env, watchCommand env, runCommand env,
     versionCommand env]"

lemmas command_defs =
  initCommand_def listCommand_def exec_command_def watchCommand_def runCommand_def versionCommand_def

subsection \<open>Command lines\<close>

lemma command_fields:
  "c_name (initCommand env) = ''init''" "c_name (listCommand env) = ''list''"
  "c_name (exec_command env) = ''exec''" "c_name (watchCommand env) = ''watch''"
  "c_name (runCommand env) = ''run''" "c_name (versionCommand env) = ''version''"
  by (simp_all add: command_defs Let_def)

lemma exec_c_Run:
  "c_Run (exec_command env) fs args w =
     map_run (\<lambda>(end, w1). (end, [], w1)) (exec_Run (pe_cmd env) (exec_flags fs) args w)"
  by (simp add: exec_command_def)

lemma command_by_name:
  "getCommandFromName name (commands env) = Some cmd \<longleftrightarrow> cmd \<in> set (commands env) \<and> c_name cmd = name"
proof (rule getCommandFromName_iff)
  show "distinct (map c_name (commands env))"
    by (simp add: commands_def command_fields)
qed

lemma flag_names:
  "map fst global_flags = [''debug'', ''log-level'', ''http'', ''tracer'', ''tracer-addr'']"
  "map fst (c_Register (initCommand env)) = []" "map fst (c_Register (listCommand env)) = [''filter'']"
  "map fst (c_Register (exec_command env)) = [''config'', ''failfast'', ''filter'', ''timeout'', ''wait'']"
  "map fst (c_Register (watchCommand env)) = [''failfast'']"
  "map fst (c_Register (runCommand env)) = [''config'', ''shutdown-timeout'']"
  "map fst (c_Register (versionCommand env)) = []"
  by (simp_all add: global_flags_def command_defs Let_def)

lemma commands_flags_distinct: "cmd \<in> set (commands env) \<Longrightarrow> distinct (map fst (global_flags @ c_Register cmd))"
proof -
  assume "cmd \<in> set (commands env)"
  then consider "cmd = initCommand env" | "cmd = listCommand env" | "cmd = exec_command env"
    | "cmd = watchCommand env" | "cmd = runCommand env" | "cmd = versionCommand env"
    unfolding commands_def list.set by blast
  then show ?thesis by cases (simp_all add: flag_names)
qed

text \<open>The flag set of a command before any flag is given.\<close>

definition default_flags :: "'w command \<Rightarrow> flag_set" where
  "default_flags cmd = map (\<lambda>(n, v, usage). (n, new_flag v usage)) (global_flags @ c_Register cmd)"

lemma define_default_flags:
  "cmd \<in> set (commands env) \<Longrightarrow> define_flags (global_flags @ c_Register cmd) [] = Ret (default_flags cmd)"
  using commands_flags_distinct [of cmd env] define_flags_distinct [of "[]" "global_flags @ c_Register cmd"]
  by (simp add: default_flags_def del: map_append)

lemma not_help: "cmd \<in> set (commands env) \<Longrightarrow> \<not> isHelpArg (c_name cmd)"
  by (auto simp: commands_def command_fields isHelpArg_def low_char_def is_upper_def)

lemma exec_defaults:
  "map_option fl_Value (map_of (default_flags (exec_command env)) ''config'') = Some (String_Flag [])"
  "map_option fl_Value (map_of (default_flags (exec_command env)) ''filter'') = Some (String_Flag [])"
  "map_option fl_Value (map_of (default_flags (exec_command env)) ''failfast'') = Some (Bool_Flag False)"
  "map_option fl_Value (map_of (default_flags (exec_command env)) ''wait'') = Some (Bool_Flag False)"
  "map_option fl_Value (map_of (default_flags (exec_command env)) ''timeout'') = Some (Duration_Flag 0)"
  by (simp_all add: default_flags_def global_flags_def exec_command_def new_flag_def)

lemma command_line_written:
  assumes "cmd \<in> set (commands env)" and "list_all (setting_ok (me_frac me) (default_flags cmd)) xs"
    and "operands = [] \<or> \<not> is_flag (hd operands)"
  defines "fs \<equiv> fold put_setting xs (default_flags cmd)"
  shows "command_line me (commands env) (prog # c_name cmd # concat (map written xs) @ operands)
      cmd fs operands \<longleftrightarrow>
    process_ready me fs"
    and "command_line me (commands env) (prog # c_name cmd # concat (map written xs) @ operands)
      cmd' fs' operands' \<Longrightarrow> cmd' = cmd \<and> fs' = fs \<and> operands' = operands"
proof -
  have parse: "parse_flags (me_frac me) (default_flags cmd) (concat (map written xs) @ operands) = Inr (fs, operands)"
    unfolding fs_def using parsed_settings [OF assms(2,3)] .
  have get: "getCommandFromName (c_name cmd) (commands env) = Some cmd"
    using assms(1) by (simp add: command_by_name)
  show "command_line me (commands env) (prog # c_name cmd # concat (map written xs) @ operands)
      cmd fs operands \<longleftrightarrow>
    process_ready me fs"
    using parse get define_default_flags [OF assms(1)] not_help [OF assms(1)]
    by (auto simp: command_line_def)
  show "cmd' = cmd \<and> fs' = fs \<and> operands' = operands"
    if "command_line me (commands env) (prog # c_name cmd # concat (map written xs) @ operands)
      cmd' fs' operands'"
    using that parse get define_default_flags [OF assms(1)] by (auto simp: command_line_def)
qed

subsection \<open>Properties\<close>

lemma exec_loop_passes:
  "run_all rt n ss w = Ret (rs, w') \<Longrightarrow> \<forall>r \<in> set rs. NbFailed r = 0 \<Longrightarrow>
    exec_loop rt ff n False ss w = Ret (False, w')"
proof (induction ss arbitrary: w rs)
  case (Cons s ss)
  then obtain r w1 rs' where run: "Suite_Run rt s \<lparr>ctx_md = None\<rparr> w = Ret (r, w1)"
    and "run_all rt n ss (notify n r w1) = Ret (rs', w')" "rs = r # rs'"
    by (auto simp: bind_run_Ret_iff map_run_Ret_iff)
  with Cons.IH [of "notify n r w1" rs'] Cons.prems(2) run show ?case
    by (simp add: notify_def)
qed simp

lemma exec_suites_passes:
  "exec_suites rt ff ss n w = Ret (None, w') \<longleftrightarrow>
     (\<exists>rs. run_all rt n ss w = Ret (rs, w') \<and> (\<forall>r \<in> set rs. NbFailed r = 0))"
proof
  assume "exec_suites rt ff ss n w = Ret (None, w')"
  then have "exec_loop rt ff n False ss w = Ret (False, w')"
    by (auto simp: exec_suites_def map_run_Ret_iff split: if_splits)
  from exec_loop_outcome [OF this] obtain k rs where k: "run_all rt n (take k ss) w = Ret (rs, w')"
    "exec_outcome ff ss k rs False" by blast
  then have "k = length ss" "\<forall>r \<in> set rs. NbFailed r = 0"
    by (auto simp: exec_outcome_def)
  with k(1) show "\<exists>rs. run_all rt n ss w = Ret (rs, w') \<and> (\<forall>r \<in> set rs. NbFailed r = 0)" by auto
next
  assume "\<exists>rs. run_all rt n ss w = Ret (rs, w') \<and> (\<forall>r \<in> set rs. NbFailed r = 0)"
  then show "exec_suites rt ff ss n w = Ret (None, w')"
    by (auto simp: exec_suites_def exec_loop_passes)
qed

lemma exec_Run_passes:
  "exec_Run env cmd args w = Ret (Returned None, w') \<longleftrightarrow> \<not> ex_wait cmd \<and>
     (\<exists>ss n rs. exec_load env cmd args = Ret (Inr (ss, n)) \<and>
        run_all (ce_runtime env) n ss w = Ret (rs, w') \<and> (\<forall>r \<in> set rs. NbFailed r = 0))"
proof -
  have "exec_Run env cmd args w = Ret (Returned None, w') \<longleftrightarrow> \<not> ex_wait cmd \<and>
     (\<exists>ss n. exec_load env cmd args = Ret (Inr (ss, n)) \<and>
        exec_suites (ce_runtime env) (ex_failfast cmd) ss n w = Ret (None, w'))"
  proof (cases "exec_load env cmd args")
    case (Ret res)
    then show ?thesis
      by (cases res) (auto simp: exec_Run_def map_run_Ret_iff split: if_splits)
  qed (simp add: exec_Run_def)
  then show ?thesis by (simp add: exec_suites_passes)
qed

text \<open>
  C35: The exit code of \<open>aragorn exec\<close>, from the command line to the reports. For flags written in any
  accepted form and operands, a process that exits does so with 0 exactly when the logger and the
  tracer could be set up, the suites could be loaded with these flags, and all of them ran, in order, with
  reports that count no failed test. The process never exits with 0 under \<open>-wait\<close>.
\<close>

theorem exec_exit_code:
  assumes "list_all (setting_ok (me_frac me) (default_flags (exec_command env))) xs"
    and "operands = [] \<or> \<not> is_flag (hd operands)"
    and "main_run me (commands env) (prog # ''exec'' # concat (map written xs) @ operands) w =
      Ret (Exit code out, w')"
  shows "let fs = fold put_setting xs (default_flags (exec_command env)) in code = 0 \<longleftrightarrow>
    process_ready me fs \<and> \<not> bool_flag fs ''wait'' \<and>
    (\<exists>ss n rs. exec_load (pe_cmd env) (exec_flags fs) operands = Ret (Inr (ss, n)) \<and>
       run_all (ce_runtime (pe_cmd env)) n ss w = Ret (rs, w') \<and> (\<forall>r \<in> set rs. NbFailed r = 0))"
proof -
  let ?cmd = "exec_command env" and ?fs = "fold put_setting xs (default_flags (exec_command env))"
  let ?ok = "process_ready me ?fs"
  have cmd: "?cmd \<in> set (commands env)" by (simp add: commands_def)
  note line = command_line_written [OF cmd assms(1,2), unfolded command_fields]
  show ?thesis
  proof (cases ?ok)
    case True
    with line(1) have "command_line me (commands env)
        (prog # ''exec'' # concat (map written xs) @ operands) ?cmd ?fs operands" by blast
    note run = assms(3) [unfolded main_run_command [OF this]]
    then obtain ce out' where res: "c_Run ?cmd ?fs operands w = Ret (ce, out', w')"
      "(case ce of
         Waits_Forever \<Rightarrow> Never_Exits
       | Returned (Some e) \<Rightarrow>
           Exit errorExitCode (out' @ (if e \<noteq> errSomethingWentWrong then [Print_Error e] else []))
       | Returned None \<Rightarrow> Exit successExitCode out') = Exit code out"
      by (auto simp: map_run_Ret_iff)
    from res(2) have "code = 0 \<longleftrightarrow> ce = Returned None"
      by (auto simp: errorExitCode_def successExitCode_def split: cmd_end.splits option.splits)
    moreover from res(1) have "exec_Run (pe_cmd env) (exec_flags ?fs) operands w = Ret (ce, w')"
      by (auto simp: exec_c_Run map_run_Ret_iff)
    ultimately have "code = 0 \<longleftrightarrow> exec_Run (pe_cmd env) (exec_flags ?fs) operands w = Ret (Returned None, w')"
      by auto
    with True show ?thesis unfolding exec_Run_passes Let_def by (simp add: exec_flags_def)
  next
    case False
    with line have "\<not> (\<exists>cmd fs ops. command_line me (commands env)
        (prog # ''exec'' # concat (map written xs) @ operands) cmd fs ops)" by blast
    from main_run_other [OF assms(3) this] have "code \<noteq> 0" by simp
    with False show ?thesis unfolding Let_def by blast
  qed
qed

definition demo_program :: "(unit, nat, string, unit) program_env" where
  "demo_program = \<lparr>pe_cmd = demo_cmd_env,
     pe_init = \<lparr>in_example = (\<lambda>_. None), in_mkdir = None, in_getwd = Inr ''/d'', in_create = (\<lambda>_. None),
       in_title = (\<lambda>s. s), in_encode = (\<lambda>_. Inr ''{}'')\<rparr>,
     pe_write = (\<lambda>_ _ w. w), pe_events = (\<lambda>w. ([], w)), pe_cron_next = (\<lambda>_ t. t), pe_cron_parse = (\<lambda>_. None),
     pe_serve = Pair, pe_version = ''devel'', pe_buildDate = [], pe_commitHash = [],
     pe_go = (''go1.10'', ''gc'', ''linux/amd64'')\<rparr>"

lemma demo_cmd: "pe_cmd demo_program = demo_cmd_env"
  by (simp add: demo_program_def)

lemma demo_flags:
  fixes x defines "x \<equiv> (True, ''filter'', ''passing'', String_Flag ''passing'')"
  shows "setting_ok frac (default_flags (exec_command env)) x"
    "exec_flags (put_setting x (default_flags (exec_command env))) = demo_exec\<lparr>ex_filter := ''passing''\<rparr>"
    "string_flag (put_setting x (default_flags (exec_command env))) ''tracer'' = []"
    "string_flag (put_setting x (default_flags (exec_command env))) ''log-level'' = ''info''"
  by (simp_all add: x_def setting_ok_def default_flags_def global_flags_def exec_command_def new_flag_def
      set_value_def exec_flags_def put_setting_def string_flag_def bool_flag_def duration_flag_def
      map_of_put_flag demo_exec_def)

theorem exec_exit_code_witness:
  "\<exists>w ss n rs. main_run demo_main (commands demo_program)
      [''aragorn'', ''exec'', ''-filter=passing'', ''/d/s.json''] 0 = Ret (Exit 0 [], w) \<and>
     exec_load demo_cmd_env (demo_exec\<lparr>ex_filter := ''passing''\<rparr>) [''/d/s.json''] = Ret (Inr (ss, n)) \<and>
     run_all still_clock n ss 0 = Ret (rs, w) \<and> (\<forall>r \<in> set rs. NbFailed r = 0)"
proof -
  let ?x = "(True, ''filter'', ''passing'', String_Flag ''passing'')" and ?cmd = "exec_command demo_program"
  let ?fs = "put_setting ?x (default_flags ?cmd)"
  have op: "[''/d/s.json''] = [] \<or> \<not> is_flag (hd [''/d/s.json''])" by (simp add: is_flag_def)
  have x: "list_all (setting_ok (me_frac demo_main) (default_flags ?cmd)) [?x]" by (simp add: demo_flags)
  have args: "concat (map written [?x]) @ [''/d/s.json''] = [''-filter=passing'', ''/d/s.json'']"
    by (simp add: written_def)
  have cmd: "?cmd \<in> set (commands demo_program)" by (simp add: commands_def)
  from command_line_written(1) [OF cmd x op, of "''aragorn''"]
  have line: "command_line demo_main (commands demo_program)
      [''aragorn'', ''exec'', ''-filter=passing'', ''/d/s.json''] ?cmd ?fs [''/d/s.json'']"
    unfolding args by (simp add: command_fields demo_flags demo_main_ready)
  obtain w where "exec_Run demo_cmd_env (demo_exec\<lparr>ex_filter := ''passing''\<rparr>) [''/d/s.json''] 0 = Ret (Returned None, w)"
    by (simp add: exec_Run_def demo_cmd_defs demo_defs exec_suites_def example_run_defs)
  then have "c_Run ?cmd ?fs [''/d/s.json''] 0 = Ret (Returned None, [], w)"
    by (simp add: exec_c_Run demo_flags demo_cmd)
  with main_run_command [OF line] have run: "main_run demo_main (commands demo_program)
      [''aragorn'', ''exec'', ''-filter=passing'', ''/d/s.json''] 0 = Ret (Exit 0 [], w)"
    by (simp add: successExitCode_def)
  from exec_exit_code [OF x op, of "''aragorn''" 0 0 "[]" w] run have "\<exists>ss n rs.
      exec_load demo_cmd_env (exec_flags ?fs) [''/d/s.json''] = Ret (Inr (ss, n)) \<and>
      run_all (ce_runtime demo_cmd_env) n ss 0 = Ret (rs, w) \<and> (\<forall>r \<in> set rs. NbFailed r = 0)"
    unfolding args by (simp add: Let_def demo_cmd)
  with run show ?thesis by (auto simp: demo_flags demo_cmd_env_def)
qed



end
