(* ===== verification/Go_Struct.thy ===== *)
theory Go_Struct
  imports Json_Encode Duration
begin

text \<open>
  Decoding JSON into Go structs, as \<open>json.Decode\<close> of \<open>pkg/util/json/json.go\<close> does: a \<open>json.Decoder\<close> that
  keeps numbers as text and refuses unknown fields. The reflection over a struct type is a table of its
  fields; decoding a field gets the source text of its value and the value the field has, because a
  second document may be decoded into the same struct: a struct keeps the fields that are not named, a
  map keeps its other keys, a slice lends its old elements to the new ones at their index, a pointer that
  is not nil is decoded into.

  An error of the decoder is \<open>None\<close>; which error it is, and so its text, is not modelled beyond
  \<open>enhanceError\<close>, which adds the position to it. The decoder goes on after a type error in order to fill the
  other fields before it returns the error; the program never looks at a struct that could not be decoded.
  A slice that was made shorter by an earlier document keeps old elements behind its length, which a third
  document for the same field could see again; the model forgets them.
\<close>

subsection \<open>The source texts inside a value\<close>

text \<open>The text of the value at the head of the input, without the white space around it, and the rest.\<close>

definition value_span :: "string \<Rightarrow> (string \<times> string) option" where
  "value_span s =
     (let t = skip_ws s in
      map_option (\<lambda>(_, r). (take (length t - length r) t, r)) (p_value (2 * length t + 1) t))"

fun raw_elems :: "nat \<Rightarrow> string \<Rightarrow> string list option" where
  "raw_elems 0 s = None"
| "raw_elems (Suc n) s =
     (case value_span s of
        None \<Rightarrow> None
      | Some (t, r) \<Rightarrow>
          (case skip_ws r of
             [] \<Rightarrow> None
           | d # u \<Rightarrow>
               if d = CHR '','' then map_option ((#) t) (raw_elems n u)
               else if d = CHR '']'' then Some [t]
               else None))"

fun raw_members :: "nat \<Rightarrow> string \<Rightarrow> (string \<times> string) list option" where
  "raw_members 0 s = None"
| "raw_members (Suc n) s =
     (case skip_ws s of
        [] \<Rightarrow> None
      | q # t \<Rightarrow>
          if q \<noteq> CHR ''\"'' then None
          else
            (case p_chars t of
               None \<Rightarrow> None
             | Some (k, r) \<Rightarrow>
                 (case skip_ws r of
                    [] \<Rightarrow> None
                  | d # u \<Rightarrow>
                      if d \<noteq> CHR '':'' then None
                      else
                        (case value_span u of
                           None \<Rightarrow> None
                         | Some (v, r') \<Rightarrow>
                             (case skip_ws r' of
                                [] \<Rightarrow> None
                              | e # w \<Rightarrow>
                                  if e = CHR '','' then map_option ((#) (k, v)) (raw_members n w)
                                  else if e = CHR ''}'' then Some [(k, v)]
                                  else None)))))"

text \<open>The elements of an array and the members of an object, \<open>None\<close> for the text of any other value.\<close>

definition array_elems :: "string \<Rightarrow> string list option" where
  "array_elems t =
     (case t of
        [] \<Rightarrow> None
      | c # u \<Rightarrow>
          if c \<noteq> CHR ''['' then None
          else if skip_ws u \<noteq> [] \<and> hd (skip_ws u) = CHR '']'' then Some []
          else raw_elems (length u) u)"

definition object_members :: "string \<Rightarrow> (string \<times> string) list option" where
  "object_members t =
     (case t of
        [] \<Rightarrow> None
      | c # u \<Rightarrow>
          if c \<noteq> CHR ''{'' then None
          else if skip_ws u \<noteq> [] \<and> hd (skip_ws u) = CHR ''}'' then Some []
          else raw_members (length u) u)"

subsection \<open>Decoders\<close>

text \<open>
  A decoder takes the text of a value and the value its target has. \<open>null\<close> leaves a string, a boolean
  or a number as it is and makes a map, slice, pointer or interface nil; a type with an
  \<open>UnmarshalJSON\<close> method gets it as any other text.
\<close>

type_synonym 'a decoder = "string \<Rightarrow> 'a \<Rightarrow> 'a option"

definition is_null :: "string \<Rightarrow> bool" where
  "is_null t \<longleftrightarrow> t = ''null''"

definition dec_string :: "string decoder" where
  "dec_string t old = (case json_decode t of Some (JStr s) \<Rightarrow> Some s | Some JNull \<Rightarrow> Some old | _ \<Rightarrow> None)"

definition dec_bool :: "bool decoder" where
  "dec_bool t old = (case json_decode t of Some (JBool b) \<Rightarrow> Some b | Some JNull \<Rightarrow> Some old | _ \<Rightarrow> None)"

definition dec_int :: "int decoder" where
  "dec_int t old =
     (case json_decode t of
        Some (JNum s) \<Rightarrow> (case parse_int64 s of (i, None) \<Rightarrow> Some i | _ \<Rightarrow> None)
      | Some JNull \<Rightarrow> Some old
      | _ \<Rightarrow> None)"

definition dec_duration :: "(int \<Rightarrow> nat \<Rightarrow> int \<Rightarrow> int) \<Rightarrow> int decoder" where
  "dec_duration frac t old = (case Duration_UnmarshalJSON frac t of (d, None) \<Rightarrow> Some d | _ \<Rightarrow> None)"

definition dec_raw :: "string option decoder" where
  "dec_raw t old = Some (Some t)"

definition dec_any :: "json decoder" where
  "dec_any t old = json_decode t"

definition dec_pointer :: "'a \<Rightarrow> 'a decoder \<Rightarrow> 'a option decoder" where
  "dec_pointer zero dec t old =
     (if is_null t then Some None
      else map_option Some (dec t (case old of None \<Rightarrow> zero | Some x \<Rightarrow> x)))"

fun dec_elems :: "'a \<Rightarrow> 'a decoder \<Rightarrow> string list \<Rightarrow> 'a list \<Rightarrow> 'a list option" where
  "dec_elems zero dec [] old = Some []"
| "dec_elems zero dec (t # ts) old =
     (case dec t (case old of [] \<Rightarrow> zero | x # _ \<Rightarrow> x) of
        None \<Rightarrow> None
      | Some y \<Rightarrow> map_option ((#) y) (dec_elems zero dec ts (tl old)))"

definition dec_slice :: "'a \<Rightarrow> 'a decoder \<Rightarrow> 'a list decoder" where
  "dec_slice zero dec t old =
     (if is_null t then Some []
      else case array_elems t of None \<Rightarrow> None | Some ts \<Rightarrow> dec_elems zero dec ts old)"

fun dec_entries :: "'a \<Rightarrow> 'a decoder \<Rightarrow> (string \<times> string) list \<Rightarrow> (string, 'a) gomap \<Rightarrow> (string, 'a) gomap option" where
  "dec_entries zero dec [] m = Some m"
| "dec_entries zero dec ((k, t) # ms) m =
     (case dec t zero of None \<Rightarrow> None | Some x \<Rightarrow> dec_entries zero dec ms (AList.update k x m))"

text \<open>A map, when nil and empty are told apart and when they are not.\<close>

definition dec_map_opt :: "'a \<Rightarrow> 'a decoder \<Rightarrow> (string, 'a) gomap option decoder" where
  "dec_map_opt zero dec t old =
     (if is_null t then Some None
      else case object_members t of
        None \<Rightarrow> None
      | Some ms \<Rightarrow> map_option Some (dec_entries zero dec ms (case old of None \<Rightarrow> [] | Some m \<Rightarrow> m)))"

definition dec_map :: "'a \<Rightarrow> 'a decoder \<Rightarrow> (string, 'a) gomap decoder" where
  "dec_map zero dec t old =
     map_option (\<lambda>m. case m of None \<Rightarrow> [] | Some m \<Rightarrow> m) (dec_map_opt zero dec t (Some old))"

subsection \<open>Structs\<close>

type_synonym 'r fields = "(string \<times> 'r decoder) list"

text \<open>
  A key names the field with that very name, or else the first whose name it is up to the case of the
  letters; the Kelvin sign and the long s count as a \<open>k\<close> and an \<open>s\<close>.
\<close>

function fold_key :: "string \<Rightarrow> string" where
  "fold_key s =
     (if has_prefix s [CHR 0xE2, CHR 0x84, CHR 0xAA] then CHR ''k'' # fold_key (drop 3 s)
      else if has_prefix s [CHR 0xC5, CHR 0xBF] then CHR ''s'' # fold_key (drop 2 s)
      else case s of
        [] \<Rightarrow> []
      | c # t \<Rightarrow>
          (if 65 \<le> (of_char c :: nat) \<and> (of_char c :: nat) \<le> 90 then char_of ((of_char c :: nat) + 32) else c) #
          fold_key t)"
  by pat_completeness auto
termination
proof (relation "measure length", goal_cases)
  case (2 s)
  then have "s \<noteq> []" by (auto simp: has_prefix_def)
  then show ?case by simp
next
  case (3 s)
  then have "s \<noteq> []" by (auto simp: has_prefix_def)
  then show ?case by simp
qed auto

declare fold_key.simps [simp del]

definition find_field :: "'r fields \<Rightarrow> string \<Rightarrow> 'r decoder option" where
  "find_field fs k =
     (case map_of fs k of
        Some dec \<Rightarrow> Some dec
      | None \<Rightarrow> map_option snd (find (\<lambda>f. fold_key (fst f) = fold_key k) fs))"

fun set_fields :: "'r fields \<Rightarrow> (string \<times> string) list \<Rightarrow> 'r \<Rightarrow> 'r option" where
  "set_fields fs [] r = Some r"
| "set_fields fs ((k, t) # ms) r =
     (case find_field fs k of
        None \<Rightarrow> None
      | Some dec \<Rightarrow> (case dec t r of None \<Rightarrow> None | Some r1 \<Rightarrow> set_fields fs ms r1))"

definition dec_struct :: "'r fields \<Rightarrow> 'r decoder" where
  "dec_struct fs t r =
     (if is_null t then Some r
      else case object_members t of None \<Rightarrow> None | Some ms \<Rightarrow> set_fields fs ms r)"

text \<open>A field of a struct: how it is read from the struct and stored in it, and its decoder.\<close>

definition field :: "string \<Rightarrow> ('r \<Rightarrow> 'a) \<Rightarrow> ('a \<Rightarrow> 'r \<Rightarrow> 'r) \<Rightarrow> 'a decoder \<Rightarrow> string \<times> 'r decoder" where
  "field name get put dec = (name, \<lambda>t r. map_option (\<lambda>x. put x r) (dec t (get r)))"

text \<open>
  \<open>Decode\<close>: the first value of the input, whatever follows it. \<open>Unmarshal\<close> is \<open>Decode\<close> on the bytes.
\<close>

definition Decode :: "'r decoder \<Rightarrow> string \<Rightarrow> 'r \<Rightarrow> 'r option" where
  "Decode dec s r = (case value_span s of None \<Rightarrow> None | Some (t, _) \<Rightarrow> dec t r)"

definition Unmarshal :: "'r decoder \<Rightarrow> string \<Rightarrow> 'r \<Rightarrow> 'r option" where
  "Unmarshal dec b r = Decode dec b r"

text \<open>
  \<open>enhanceError\<close>: the text of an error with its position. A reader that can seek has a content, or an error
  of the seek; \<open>highlight\<close> is \<open>errorutil.HighlightBytePosition\<close>, the line, the column and the marked lines.
\<close>

datatype decode_error =
    Syntax_Error int string
  | Unmarshal_Type_Error int string
  | Other_Decode_Error string

fun decode_error_text :: "decode_error \<Rightarrow> string" where
  "decode_error_text (Syntax_Error off m) = m"
| "decode_error_text (Unmarshal_Type_Error off m) = m"
| "decode_error_text (Other_Decode_Error m) = m"

fun decode_error_offset :: "decode_error \<Rightarrow> int option" where
  "decode_error_offset (Syntax_Error off m) = Some off"
| "decode_error_offset (Unmarshal_Type_Error off m) = Some off"
| "decode_error_offset (Other_Decode_Error m) = None"

definition enhanceError ::
  "(string \<Rightarrow> int \<Rightarrow> int \<times> int \<times> string) \<Rightarrow> (string + string) option \<Rightarrow> string option \<Rightarrow> decode_error option \<Rightarrow> string option"
where
  "enhanceError highlight seeker reader_name err =
     (case err of
        None \<Rightarrow> None
      | Some e \<Rightarrow>
          (case decode_error_offset e of
             None \<Rightarrow> Some (decode_error_text e)
           | Some offset \<Rightarrow>
               (case seeker of
                  None \<Rightarrow> Some (decode_error_text e @ '' (offset '' @ itoa offset @ '')'')
                | Some (Inl serr) \<Rightarrow> Some (decode_error_text e @ '': seek error: '' @ serr)
                | Some (Inr content) \<Rightarrow>
                    let (line, col, marked) = highlight content offset;
                        extra = (case reader_name of
                            None \<Rightarrow> []
                          | Some n \<Rightarrow> CHR 0x0A # n @ '':'' @ itoa line @ '':'' @ itoa col)
                    in Some (decode_error_text e @ extra @ [CHR 0x0A] @ ''Error at line '' @ itoa line @
                         '', column '' @ itoa col @ '' (file offset '' @ itoa offset @ ''):'' @ [CHR 0x0A] @ marked))))"

lemma enhanceError_keeps_text:
  assumes "enhanceError highlight seeker reader_name (Some e) = Some m"
  shows "has_prefix m (decode_error_text e)"
  using assms by (auto simp: enhanceError_def has_prefix_def Let_def split: option.splits sum.splits prod.splits)

subsection \<open>The texts inside a written value\<close>

definition good :: "json \<Rightarrow> bool" where
  "good v \<longleftrightarrow> wf_json v \<and> numbers_valid v \<and> strings_valid v"

lemma good_simps [simp]:
  "good JNull" "good (JBool b)" "good (JStr s) \<longleftrightarrow> sanitize s = s"
  "good (JNum n) \<longleftrightarrow> n = [] \<or> valid_number n" "good (JArr vs) \<longleftrightarrow> list_all good vs"
  "good (JObj kvs) \<longleftrightarrow> wf_map kvs \<and> list_all (\<lambda>kv. sanitize (fst kv) = fst kv \<and> good (snd kv)) kvs"
  by (auto simp: good_def list_all_iff)

lemma good_reads: "blank L \<Longrightarrow> good v \<Longrightarrow> reads L srt d v"
  by (simp add: good_def reads_json)

lemma value_span_layout:
  assumes "blank L" and "good v" and "stop r" and "list_all is_space w"
  shows "value_span (w @ json_layout L srt d v @ r) = Some (json_layout L srt d v, r)"
proof -
  from assms(2) obtain c t where ct: "json_layout L srt d v = c # t" "\<not> is_space c"
    using hd_json_layout [of v L srt d] by (auto simp: good_def)
  then have skip: "skip_ws (w @ json_layout L srt d v @ r) = json_layout L srt d v @ r"
    using assms(4) by (simp add: skip_ws_blank_id)
  from good_reads [OF assms(1,2)] assms(3)
  have "p_value (2 * length (json_layout L srt d v @ r) + 1) (json_layout L srt d v @ r) =
      Some (json_read srt v, r)" by (intro readsD) simp_all
  then show ?thesis by (simp add: value_span_def skip Let_def)
qed

lemma raw_elems_layout:
  assumes "blank L" and "vs \<noteq> []" and "\<forall>v \<in> set vs. good v"
    and "list_all is_space w" and "list_all is_space z" and "length vs \<le> n"
  shows "raw_elems n (w @ join_with ('','' @ fst L e) (map (json_layout L srt e) vs) @ z @ CHR '']'' # r) =
    Some (map (json_layout L srt e) vs)"
  using assms(2-)
proof (induction vs arbitrary: n w)
  case (Cons v vs)
  then obtain m where n: "n = Suc m" by (cases n) auto
  show ?case
  proof (cases vs)
    case Nil
    from Cons.prems have "value_span (w @ json_layout L srt e v @ z @ CHR '']'' # r) =
        Some (json_layout L srt e v, z @ CHR '']'' # r)"
      by (intro value_span_layout [OF assms(1)] stop_blank) auto
    with Nil n Cons.prems show ?thesis by (simp add: skip_ws_blank_id)
  next
    case (Cons v' vs')
    let ?r = "fst L e @ join_with ('','' @ fst L e) (map (json_layout L srt e) vs) @ z @ CHR '']'' # r"
    from Cons.prems Cons have "value_span (w @ json_layout L srt e v @ CHR '','' # ?r) =
        Some (json_layout L srt e v, CHR '','' # ?r)"
      by (intro value_span_layout [OF assms(1)]) auto
    moreover from Cons.prems Cons n have "raw_elems m ?r = Some (map (json_layout L srt e) vs)"
      by (intro Cons.IH) (auto simp: blankD [OF assms(1)])
    ultimately show ?thesis using Cons n by (simp add: skip_ws_id)
  qed
qed simp

lemma raw_members_step:
  assumes "blank L" and "sanitize k = k" and "good v" and "stop q" and "list_all is_space w"
  shows "raw_members (Suc m) (w @ enc_member L srt d (k, v) @ q) =
     (case skip_ws q of
        [] \<Rightarrow> None
      | e # u \<Rightarrow>
          if e = CHR '','' then map_option ((#) (k, json_layout L srt d v)) (raw_members m u)
          else if e = CHR ''}'' then Some [(k, json_layout L srt d v)]
          else None)"
proof -
  have "value_span (snd L @ json_layout L srt d v @ q) = Some (json_layout L srt d v, q)"
    using assms by (intro value_span_layout) (auto simp: blankD)
  moreover have "p_chars (enc_chars k @ CHR ''\"'' # CHR '':'' # snd L @ json_layout L srt d v @ q) =
      Some (k, CHR '':'' # snd L @ json_layout L srt d v @ q)"
    by (simp add: p_chars_enc assms(2))
  ultimately show ?thesis using assms(5)
    by (simp add: enc_member_def enc_string_def skip_ws_blank_id skip_ws_id)
qed

lemma raw_members_layout:
  assumes "blank L" and "kvs \<noteq> []" and "\<forall>kv \<in> set kvs. sanitize (fst kv) = fst kv \<and> good (snd kv)"
    and "list_all is_space w" and "list_all is_space z" and "length kvs \<le> n"
  shows "raw_members n (w @ join_with ('','' @ fst L d) (map (enc_member L srt d) kvs) @ z @ CHR ''}'' # r) =
    Some (map (\<lambda>kv. (fst kv, json_layout L srt d (snd kv))) kvs)"
  using assms(2-)
proof (induction kvs arbitrary: n w)
  case (Cons kv kvs)
  obtain k v where kv: "kv = (k, v)" by (cases kv)
  from Cons.prems obtain m where n: "n = Suc m" by (cases n) auto
  show ?case
  proof (cases kvs)
    case Nil
    with Cons.prems n kv show ?thesis
      by (simp add: raw_members_step [OF assms(1)] stop_blank skip_ws_blank_id del: raw_members.simps)
  next
    case (Cons kv' kvs')
    let ?r = "fst L d @ join_with ('','' @ fst L d) (map (enc_member L srt d) kvs) @ z @ CHR ''}'' # r"
    from Cons.prems Cons n have IH: "raw_members m ?r = Some (map (\<lambda>kv. (fst kv, json_layout L srt d (snd kv))) kvs)"
      by (intro Cons.IH) (auto simp: blankD [OF assms(1)])
    have "raw_members (Suc m) (w @ enc_member L srt d (k, v) @ CHR '','' # ?r) =
        Some ((k, json_layout L srt d v) # map (\<lambda>kv. (fst kv, json_layout L srt d (snd kv))) kvs)"
      using Cons.prems Cons n kv
      by (subst raw_members_step [OF assms(1)])
        (simp_all add: skip_ws_id IH [unfolded Cons, simplified] del: raw_members.simps)
    with Cons n kv show ?thesis by simp
  qed
qed simp

lemma length_join_with: "(\<forall>p \<in> set ps. p \<noteq> []) \<Longrightarrow> length ps \<le> length (join_with sep ps)"
proof (induction sep ps rule: join_with.induct)
  case (2 sep s)
  then show ?case by (cases s) auto
next
  case (3 sep s t ss)
  then show ?case by (cases s) auto
qed simp

lemma array_elems_layout:
  assumes "blank L" and "good (JArr vs)"
  shows "array_elems (json_layout L srt d (JArr vs)) = Some (map (json_layout L srt (Suc d)) vs)"
proof (cases vs)
  case Nil
  then show ?thesis by (simp add: array_elems_def skip_ws_id)
next
  case (Cons v ws)
  let ?w = "fst L (Suc d)"
  let ?s = "join_with ('','' @ ?w) (map (json_layout L srt (Suc d)) vs) @ fst L d @ CHR '']'' # []"
  have good: "\<forall>v \<in> set vs. good v" using assms(2) by (simp add: list_all_iff)
  then have ne: "json_layout L srt (Suc d) v \<noteq> []" if "v \<in> set vs" for v
    using that hd_json_layout [of v L srt "Suc d"] by (auto simp: good_def)
  from Cons good obtain c t where ct: "json_layout L srt (Suc d) v = c # t" "\<not> is_space c" "c \<noteq> CHR '']''"
    using hd_json_layout [of v L srt "Suc d"] by (auto simp: good_def)
  then obtain t' where s: "?s = c # t'" using Cons by (cases ws) auto
  have "length (map (json_layout L srt (Suc d)) vs) \<le> length (join_with ('','' @ ?w) (map (json_layout L srt (Suc d)) vs))"
    using ne by (intro length_join_with) auto
  then have "raw_elems (length (?w @ ?s)) (?w @ ?s) = Some (map (json_layout L srt (Suc d)) vs)"
    using assms(1) Cons good by (intro raw_elems_layout) (auto simp: blankD)
  moreover have "skip_ws (?w @ ?s) = c # t'"
    unfolding s using ct(2) by (rule skip_ws_blank_id [OF blankD(1) [OF assms(1)]])
  moreover have "json_layout L srt d (JArr vs) = CHR ''['' # ?w @ ?s" using Cons by simp
  ultimately show ?thesis using ct(3) by (simp only: array_elems_def) (simp add: Cons)
qed

lemma object_members_layout:
  assumes "blank L" and "good (JObj kvs)"
  shows "object_members (json_layout L srt d (JObj kvs)) =
    Some (map (\<lambda>kv. (fst kv, json_layout L srt (Suc d) (snd kv))) (in_order srt kvs))"
proof (cases "in_order srt kvs")
  case Nil
  then show ?thesis by (simp add: object_members_def skip_ws_id)
next
  case (Cons kv ws)
  let ?w = "fst L (Suc d)"
  let ?ms = "map (enc_member L srt (Suc d)) (in_order srt kvs)"
  let ?s = "join_with ('','' @ ?w) ?ms @ fst L d @ CHR ''}'' # []"
  from Cons have ne: "in_order srt kvs \<noteq> []" "kvs \<noteq> []" by auto
  have good: "\<forall>kv \<in> set kvs. sanitize (fst kv) = fst kv \<and> good (snd kv)"
    using assms(2) by (simp add: list_all_iff)
  from Cons obtain t where s: "?s = CHR ''\"'' # t"
    by (cases ws) (auto simp: enc_member_def enc_string_def)
  have shape: "json_layout L srt d (JObj kvs) = CHR ''{'' # ?w @ ?s"
    unfolding encode_obj [OF ne(2)] by simp
  have "length ?ms \<le> length (join_with ('','' @ ?w) ?ms)"
    by (intro length_join_with) (auto simp: enc_member_def enc_string_def)
  then have "raw_members (length (?w @ ?s)) (?w @ ?s) =
      Some (map (\<lambda>kv. (fst kv, json_layout L srt (Suc d) (snd kv))) (in_order srt kvs))"
    using assms(1) ne good by (intro raw_members_layout) (auto simp: blankD)
  moreover have "skip_ws (?w @ ?s) = CHR ''\"'' # t"
    unfolding s by (rule skip_ws_blank_id [OF blankD(1) [OF assms(1)]]) (simp add: is_space_def)
  ultimately show ?thesis by (simp only: shape object_members_def) simp
qed

end
