(* ===== verification/Go_Codec.thy ===== *)
theory Go_Codec
  imports Go_Struct Go_Net
begin

text \<open>
  Go structs written as JSON and read back. \<open>json.Marshal\<close> on a struct gives an object whose members are
  its fields in their order, without those that are empty and tagged \<open>omitempty\<close>; maps are written in the
  order of their keys. \<open>decodes dec v old x\<close> says that a decoder finds \<open>x\<close> in every layout of \<open>v\<close> when its
  target has \<open>old\<close>, \<open>fills fs kvs r r'\<close> the same of the members of a struct. The rules below follow the
  structure of a value, so that the round trip of a struct is proved field by field.
\<close>

subsection \<open>Writing\<close>

definition member :: "string \<Rightarrow> json \<Rightarrow> (string \<times> json) list" where
  "member k v = [(k, v)]"

definition omitempty :: "bool \<Rightarrow> string \<Rightarrow> json \<Rightarrow> (string \<times> json) list" where
  "omitempty e k v = (if e then [] else [(k, v)])"

definition string_member :: "string \<Rightarrow> string \<Rightarrow> (string \<times> json) list" where
  "string_member k s = omitempty (s = []) k (JStr s)"

definition int_member :: "string \<Rightarrow> int \<Rightarrow> (string \<times> json) list" where
  "int_member k i = omitempty (i = 0) k (JNum (itoa i))"

definition bool_member :: "string \<Rightarrow> bool \<Rightarrow> (string \<times> json) list" where
  "bool_member k b = omitempty (\<not> b) k (JBool b)"

definition map_json :: "('a \<Rightarrow> json) \<Rightarrow> (string, 'a) gomap \<Rightarrow> json" where
  "map_json enc m = JObj (sort_key fst (map (\<lambda>kv. (fst kv, enc (snd kv))) m))"

definition map_member :: "string \<Rightarrow> ('a \<Rightarrow> json) \<Rightarrow> (string, 'a) gomap \<Rightarrow> (string \<times> json) list" where
  "map_member k enc m = omitempty (m = []) k (map_json enc m)"

definition slice_member :: "string \<Rightarrow> ('a \<Rightarrow> json) \<Rightarrow> 'a list \<Rightarrow> (string \<times> json) list" where
  "slice_member k enc xs = omitempty (xs = []) k (JArr (map enc xs))"

definition pointer_json :: "('a \<Rightarrow> json) \<Rightarrow> 'a option \<Rightarrow> json" where
  "pointer_json enc p = (case p of None \<Rightarrow> JNull | Some x \<Rightarrow> enc x)"

definition pointer_member :: "string \<Rightarrow> ('a \<Rightarrow> json) \<Rightarrow> 'a option \<Rightarrow> (string \<times> json) list" where
  "pointer_member k enc p = omitempty (p = None) k (pointer_json enc p)"

text \<open>An interface is omitted when it is nil; the values in it are written with sorted maps.\<close>

definition any_member :: "string \<Rightarrow> json \<Rightarrow> (string \<times> json) list" where
  "any_member k v = omitempty (v = JNull) k (json_norm v)"

text \<open>
  Slices and maps without \<open>omitempty\<close>. Where nil and empty are not told apart, the empty one is taken to be
  nil, which is what a struct has that was not read from an empty list or object.
\<close>

definition nil_slice_json :: "('a \<Rightarrow> json) \<Rightarrow> 'a list \<Rightarrow> json" where
  "nil_slice_json enc xs = (if xs = [] then JNull else JArr (map enc xs))"

definition nil_map_json :: "('a \<Rightarrow> json) \<Rightarrow> (string, 'a) gomap \<Rightarrow> json" where
  "nil_map_json enc m = (if m = [] then JNull else map_json enc m)"

subsection \<open>What a decoder finds\<close>

definition decodes :: "'a decoder \<Rightarrow> json \<Rightarrow> 'a \<Rightarrow> 'a \<Rightarrow> bool" where
  "decodes dec v old x \<longleftrightarrow> good v \<and> (\<forall>L d. blank L \<longrightarrow> dec (json_layout L False d v) old = Some x)"

definition fills :: "'r fields \<Rightarrow> (string \<times> json) list \<Rightarrow> 'r \<Rightarrow> 'r \<Rightarrow> bool" where
  "fills fs kvs r r' \<longleftrightarrow>
     list_all (\<lambda>kv. sanitize (fst kv) = fst kv \<and> good (snd kv)) kvs \<and>
     (\<forall>L d. blank L \<longrightarrow>
        set_fields fs (map (\<lambda>kv. (fst kv, json_layout L False d (snd kv))) kvs) r = Some r')"

lemma decodesI:
  "good v \<Longrightarrow> (\<And>L d. blank L \<Longrightarrow> dec (json_layout L False d v) old = Some x) \<Longrightarrow> decodes dec v old x"
  by (simp add: decodes_def)

lemma decodesD:
  "decodes dec v old x \<Longrightarrow> good v"
  "decodes dec v old x \<Longrightarrow> blank L \<Longrightarrow> dec (json_layout L False d v) old = Some x"
  unfolding decodes_def by blast+

lemma fillsI:
  "list_all (\<lambda>kv. sanitize (fst kv) = fst kv \<and> good (snd kv)) kvs \<Longrightarrow>
    (\<And>L d. blank L \<Longrightarrow>
      set_fields fs (map (\<lambda>kv. (fst kv, json_layout L False d (snd kv))) kvs) r = Some r') \<Longrightarrow>
    fills fs kvs r r'"
  by (simp add: fills_def)

lemma fillsD:
  "fills fs kvs r r' \<Longrightarrow> list_all (\<lambda>kv. sanitize (fst kv) = fst kv \<and> good (snd kv)) kvs"
  "fills fs kvs r r' \<Longrightarrow> blank L \<Longrightarrow>
    set_fields fs (map (\<lambda>kv. (fst kv, json_layout L False d (snd kv))) kvs) r = Some r'"
  unfolding fills_def by blast+

lemma decode_layout:
  assumes "good v" and "no_empty_number v" and "blank L"
  shows "json_decode (json_layout L False d v) = Some v"
  using assms json_layout_reads [of L v False d] by (simp add: good_def json_read_struct)

lemma is_null_layout: "numbers_valid v \<Longrightarrow> is_null (json_layout L srt d v) \<longleftrightarrow> v = JNull"
proof (cases v)
  case (JNum s)
  assume "numbers_valid v"
  with JNum have "s = [] \<or> valid_number s" by simp
  then show ?thesis
  proof
    assume "valid_number s"
    then show ?thesis by (rule valid_number_hd) (auto simp: JNum is_null_def is_digit_def)
  qed (simp add: JNum is_null_def)
qed (auto simp: is_null_def enc_string_def)

lemma decodes_string [intro]: "sanitize s = s \<Longrightarrow> decodes dec_string (JStr s) old s"
  by (intro decodesI) (simp_all add: dec_string_def decode_layout del: json_layout.simps)

lemma decodes_bool [intro]: "decodes dec_bool (JBool b) old b"
  by (intro decodesI) (simp_all add: dec_bool_def decode_layout del: json_layout.simps)

lemma decodes_int [intro]: "int64 i \<Longrightarrow> decodes dec_int (JNum (itoa i)) old i"
  by (intro decodesI) (simp_all add: dec_int_def decode_layout valid_number_itoa parse_int64_itoa
      del: json_layout.simps)

lemma decodes_duration [intro]: "int64 i \<Longrightarrow> decodes (dec_duration frac) (JNum (itoa i)) old i"
proof (rule decodesI)
  assume i: "int64 i"
  have "hd (itoa i) \<noteq> CHR ''\"''"
    using nat_digits_digits [of "hd (nat_digits (nat i))" "nat i"]
    by (auto simp: itoa_def is_digit_def)
  with i show "dec_duration frac (json_layout L False d (JNum (itoa i))) old = Some i" for L d
    by (simp add: dec_duration_def Duration_UnmarshalJSON_def parse_int64_itoa)
qed (simp add: valid_number_itoa)

lemma decodes_any [intro]: "good v \<Longrightarrow> no_empty_number v \<Longrightarrow> decodes dec_any v old v"
  by (intro decodesI) (simp_all add: dec_any_def decode_layout)

lemma decodes_pointer [intro]:
  assumes "decodes dec v (case old of None \<Rightarrow> zero | Some x \<Rightarrow> x) x" and "v \<noteq> JNull"
  shows "decodes (dec_pointer zero dec) v old (Some x)"
  using assms by (auto simp: decodes_def dec_pointer_def is_null_layout good_def)

lemma decodes_pointer_null [intro]: "decodes (dec_pointer zero dec) JNull old None"
  by (auto simp: decodes_def dec_pointer_def is_null_def)

lemma dec_elems_zero:
  assumes "\<forall>x \<in> set xs. decodes dec (enc x) zero x" and "blank L"
  shows "dec_elems zero dec (map (json_layout L False d) (map enc xs)) [] = Some xs"
  using assms(1)
proof (induction xs)
  case (Cons x xs)
  then have "dec (json_layout L False d (enc x)) zero = Some x" by (intro decodesD(2) [OF _ assms(2)]) simp
  with Cons show ?case by simp
qed simp

lemma decodes_slice [intro]:
  assumes "\<forall>x \<in> set xs. decodes dec (enc x) zero x"
  shows "decodes (dec_slice zero dec) (JArr (map enc xs)) [] xs"
proof (rule decodesI)
  from assms show good: "good (JArr (map enc xs))" by (simp add: list_all_iff decodes_def)
  show "dec_slice zero dec (json_layout L False d (JArr (map enc xs))) [] = Some xs" if "blank L" for L d
    using good dec_elems_zero [OF assms that] is_null_layout [of "JArr (map enc xs)" L False d]
    by (simp add: dec_slice_def array_elems_layout [OF that good] good_def del: json_layout.simps map_map)
qed

lemma dec_entries_new:
  assumes "\<forall>kv \<in> set m. decodes dec (enc (snd kv)) zero (snd kv)" and "blank L" and "wf_map (old @ m)"
  shows "dec_entries zero dec (map (\<lambda>kv. (fst kv, json_layout L False d (enc (snd kv)))) m) old = Some (old @ m)"
  using assms(1,3)
proof (induction m arbitrary: old)
  case (Cons kv m)
  from Cons.prems(2) have "AList.update (fst kv) (snd kv) old = old @ [kv]"
    by (simp add: update_new wf_map_def)
  moreover from Cons.prems(1) have "dec (json_layout L False d (enc (snd kv))) zero = Some (snd kv)"
    by (intro decodesD(2) [OF _ assms(2)]) simp
  ultimately show ?case using Cons by simp
qed simp

lemma decodes_map [intro]:
  assumes "\<forall>kv \<in> set m. sanitize (fst kv) = fst kv \<and> decodes dec (enc (snd kv)) zero (snd kv)"
    and "wf_map m"
  shows "decodes (dec_map_opt zero dec) (map_json enc m) None (Some (sort_key fst m))"
    "decodes (dec_map zero dec) (map_json enc m) [] (sort_key fst m)"
proof -
  let ?s = "sort_key fst m"
  have eq: "map_json enc m = JObj (map (\<lambda>kv. (fst kv, enc (snd kv))) ?s)"
    by (simp add: map_json_def sort_key_map_snd)
  have wf: "wf_map ?s" using assms(2) wf_map_in_order [of True m] by (simp add: in_order_def)
  with assms(1) have good: "good (JObj (map (\<lambda>kv. (fst kv, enc (snd kv))) ?s))"
    by (auto simp: list_all_iff decodes_def wf_map_def o_def)
  have entries: "dec_map_opt zero dec (json_layout L False d (map_json enc m)) old = Some (Some ?s)"
    if "blank L" and "old = None \<or> old = Some []" for L d old
    using that(2) good assms wf dec_entries_new [of ?s dec enc zero L "[]" "Suc d"] that(1)
      is_null_layout [of "JObj (map (\<lambda>kv. (fst kv, enc (snd kv))) ?s)" L False d]
    by (auto simp: dec_map_opt_def eq object_members_layout in_order_def o_def good_def simp del: json_layout.simps)
  show "decodes (dec_map_opt zero dec) (map_json enc m) None (Some ?s)"
    using good entries by (intro decodesI) (simp_all add: eq)
  show "decodes (dec_map zero dec) (map_json enc m) [] ?s"
    using good entries by (intro decodesI) (simp_all add: eq dec_map_def)
qed

subsection \<open>Structs\<close>

lemma fills_Nil [simp]: "fills fs [] r r' \<longleftrightarrow> r' = r"
  using fillsD(2) [of fs "[]" r r' compact] by (auto intro: fillsI)

lemma fills_Cons:
  "find_field fs k = Some dec \<Longrightarrow> sanitize k = k \<Longrightarrow> decodes dec v r r1 \<Longrightarrow> fills fs kvs r1 r' \<Longrightarrow>
    fills fs ((k, v) # kvs) r r'"
  by (rule fillsI) (simp_all add: fillsD decodesD)

lemma fills_member:
  "find_field fs k = Some dec \<Longrightarrow> sanitize k = k \<Longrightarrow> decodes dec v r r1 \<Longrightarrow> fills fs kvs r1 r' \<Longrightarrow>
    fills fs (member k v @ kvs) r r'"
  by (simp add: member_def fills_Cons)

lemma fills_omitempty:
  "find_field fs k = Some dec \<Longrightarrow> sanitize k = k \<Longrightarrow> (e \<Longrightarrow> r1 = r) \<Longrightarrow>
    (\<not> e \<Longrightarrow> decodes dec v r r1) \<Longrightarrow> fills fs kvs r1 r' \<Longrightarrow>
    fills fs (omitempty e k v @ kvs) r r'"
  by (auto simp: omitempty_def fills_Cons)

lemma decodes_field:
  "decodes dec v (get r) x \<Longrightarrow> r1 = put x r \<Longrightarrow>
    decodes (\<lambda>t r. map_option (\<lambda>x. put x r) (dec t (get r))) v r r1"
  by (rule decodesI) (simp_all add: decodesD)

lemma decodes_struct:
  assumes "fills fs kvs r r'" and "wf_map kvs"
  shows "decodes (dec_struct fs) (JObj kvs) r r'"
proof (rule decodesI)
  from assms show good: "good (JObj kvs)" by (simp add: fillsD)
  then have num: "numbers_valid (JObj kvs)" by (simp only: good_def)
  show "dec_struct fs (json_layout L False d (JObj kvs)) r = Some r'" if "blank L" for L d
    using fillsD(2) [OF assms(1) that] is_null_layout [OF num]
    by (simp only: dec_struct_def object_members_layout [OF that good] option.case in_order_def if_False json.distinct)
qed

text \<open>What is written reads back.\<close>

lemma Decode_layout:
  assumes "decodes dec v old x" and "blank L" and "stop r"
  shows "Decode dec (json_layout L False d v @ r) old = Some x"
  using assms(2,3) value_span_layout [of L v r "[]" False d] decodesD [OF assms(1)]
  by (simp add: Decode_def)

subsection \<open>Reading back what was written\<close>

text \<open>
  What reads back as it is: valid UTF-8, maps listed in the order of their keys, values with sorted maps and
  no empty number, and no empty map where nil and empty are told apart, as an empty one is not written.
\<close>

definition text_ok :: "string \<Rightarrow> bool" where
  "text_ok s \<longleftrightarrow> sanitize s = s"

definition any_ok :: "json \<Rightarrow> bool" where
  "any_ok v \<longleftrightarrow> good v \<and> no_empty_number v \<and> json_norm v = v"

definition map_ok :: "('a \<Rightarrow> bool) \<Rightarrow> (string, 'a) gomap \<Rightarrow> bool" where
  "map_ok ok m \<longleftrightarrow> wf_map m \<and> sort_key fst m = m \<and> list_all (\<lambda>kv. text_ok (fst kv) \<and> ok (snd kv)) m"

definition opt_map_ok :: "('a \<Rightarrow> bool) \<Rightarrow> (string, 'a) gomap option \<Rightarrow> bool" where
  "opt_map_ok ok p \<longleftrightarrow> (case p of None \<Rightarrow> True | Some m \<Rightarrow> m \<noteq> [] \<and> map_ok ok m)"

text \<open>A map where nil and empty are told apart, as a member.\<close>

definition opt_map_member :: "string \<Rightarrow> ('a \<Rightarrow> json) \<Rightarrow> (string, 'a) gomap option \<Rightarrow> (string \<times> json) list" where
  "opt_map_member k enc p = map_member k enc (case p of None \<Rightarrow> [] | Some m \<Rightarrow> m)"

lemma find_field_distinct:
  "field k get put dec \<in> set fs \<Longrightarrow> distinct (map fst fs) \<Longrightarrow>
    find_field fs k = Some (\<lambda>t r. map_option (\<lambda>x. put x r) (dec t (get r)))"
  by (auto simp: field_def find_field_def)

lemma map_ok_decodes:
  assumes "map_ok ok m" and "\<And>x. ok x \<Longrightarrow> decodes dec (enc x) zero x"
  shows "decodes (dec_map_opt zero dec) (map_json enc m) None (Some m)"
    "decodes (dec_map zero dec) (map_json enc m) [] m"
proof -
  have "\<forall>kv \<in> set m. sanitize (fst kv) = fst kv \<and> decodes dec (enc (snd kv)) zero (snd kv)"
    using assms by (auto simp: map_ok_def text_ok_def list_all_iff)
  from decodes_map [OF this] assms(1)
  show "decodes (dec_map_opt zero dec) (map_json enc m) None (Some m)"
    "decodes (dec_map zero dec) (map_json enc m) [] m" by (simp_all add: map_ok_def)
qed

lemma text_ok_decodes: "text_ok s \<Longrightarrow> decodes dec_string (JStr s) old s"
  by (auto simp: text_ok_def)

lemma any_ok_decodes: "any_ok v \<Longrightarrow> decodes dec_any (json_norm v) old v"
  by (auto simp: any_ok_def)

lemma decodes_nil_slice:
  assumes "list_all ok xs" and "\<And>x. ok x \<Longrightarrow> decodes dec (enc x) zero x"
  shows "decodes (dec_slice zero dec) (nil_slice_json enc xs) [] xs"
proof (cases "xs = []")
  case True
  then show ?thesis by (simp add: nil_slice_json_def decodes_def dec_slice_def is_null_def)
next
  case False
  with assms show ?thesis by (auto simp: nil_slice_json_def list_all_iff)
qed

lemma decodes_nil_map:
  assumes "map_ok ok m" and "\<And>x. ok x \<Longrightarrow> decodes dec (enc x) zero x"
  shows "decodes (dec_map zero dec) (nil_map_json enc m) [] m"
proof (cases "m = []")
  case True
  then show ?thesis by (simp add: nil_map_json_def decodes_def dec_map_def dec_map_opt_def is_null_def)
next
  case False
  with map_ok_decodes(2) [OF assms] show ?thesis by (simp add: nil_map_json_def)
qed

subsection \<open>A struct field by field\<close>

text \<open>
  \<open>row fs rest kvs r r'\<close>: the members \<open>kvs\<close>, which are those of the last fields \<open>rest\<close> of the struct in their
  order, turn \<open>r\<close> into \<open>r'\<close>. The rules go through the fields and the members together.
\<close>

definition row :: "'r fields \<Rightarrow> 'r fields \<Rightarrow> (string \<times> json) list \<Rightarrow> 'r \<Rightarrow> 'r \<Rightarrow> bool" where
  "row fs rest kvs r r' \<longleftrightarrow>
     (distinct (map fst fs) \<and> set rest \<subseteq> set fs \<and> distinct (map fst rest) \<longrightarrow>
        fills fs kvs r r' \<and> set (map fst kvs) \<subseteq> set (map fst rest) \<and> wf_map kvs)"

named_theorems codec \<open>round trips of structs, field by field\<close>

lemma row_Nil [codec]: "r' = r \<Longrightarrow> row fs [] [] r r'"
  by (simp add: row_def wf_map_def)

lemma row_omit:
  assumes "text_ok k" and "e \<Longrightarrow> put x r = r" and "\<not> e \<Longrightarrow> decodes dec v (get r) x"
    and "row fs rest kvs (put x r) r'"
  shows "row fs (field k get put dec # rest) (omitempty e k v @ kvs) r r'"
  unfolding row_def
proof (intro impI)
  assume fs: "distinct (map fst fs) \<and> set (field k get put dec # rest) \<subseteq> set fs \<and>
    distinct (map fst (field k get put dec # rest))"
  with assms(4) have rest: "fills fs kvs (put x r) r'" "set (map fst kvs) \<subseteq> set (map fst rest)" "wf_map kvs"
    by (auto simp: row_def)
  have "find_field fs k = Some (\<lambda>t r. map_option (\<lambda>x. put x r) (dec t (get r)))"
    using fs by (intro find_field_distinct) auto
  then have "fills fs (omitempty e k v @ kvs) r r'"
    by (rule fills_omitempty [where ?r1.0 = "put x r"])
      (use assms rest(1) in \<open>auto simp: text_ok_def intro: decodes_field\<close>)
  with fs rest show "fills fs (omitempty e k v @ kvs) r r' \<and>
    set (map fst (omitempty e k v @ kvs)) \<subseteq> set (map fst (field k get put dec # rest)) \<and>
    wf_map (omitempty e k v @ kvs)"
    by (auto simp: omitempty_def field_def wf_map_def)
qed

lemma row_member [codec]:
  assumes "text_ok k" and "decodes dec v (get r) x" and "row fs rest kvs (put x r) r'"
  shows "row fs (field k get put dec # rest) (member k v @ kvs) r r'"
  using row_omit [of k False put x r dec v get] assms by (simp add: omitempty_def member_def)

lemma row_string [codec]:
  "text_ok k \<Longrightarrow> text_ok s \<Longrightarrow> (s = [] \<Longrightarrow> put s r = r) \<Longrightarrow> row fs rest kvs (put s r) r' \<Longrightarrow>
    row fs (field k get put dec_string # rest) (string_member k s @ kvs) r r'"
  unfolding string_member_def by (rule row_omit) (simp_all add: text_ok_decodes)

lemma row_int [codec]:
  "text_ok k \<Longrightarrow> int64 i \<Longrightarrow> (i = 0 \<Longrightarrow> put i r = r) \<Longrightarrow> row fs rest kvs (put i r) r' \<Longrightarrow>
    row fs (field k get put dec_int # rest) (int_member k i @ kvs) r r'"
  unfolding int_member_def by (rule row_omit) auto

lemma row_duration [codec]:
  "text_ok k \<Longrightarrow> int64 i \<Longrightarrow> (i = 0 \<Longrightarrow> put i r = r) \<Longrightarrow> row fs rest kvs (put i r) r' \<Longrightarrow>
    row fs (field k get put (dec_duration frac) # rest) (int_member k i @ kvs) r r'"
  unfolding int_member_def by (rule row_omit) auto

lemma row_bool [codec]:
  "text_ok k \<Longrightarrow> (\<not> b \<Longrightarrow> put b r = r) \<Longrightarrow> row fs rest kvs (put b r) r' \<Longrightarrow>
    row fs (field k get put dec_bool # rest) (bool_member k b @ kvs) r r'"
  unfolding bool_member_def by (rule row_omit) auto

lemma row_any [codec]:
  "text_ok k \<Longrightarrow> any_ok v \<Longrightarrow> (v = JNull \<Longrightarrow> put v r = r) \<Longrightarrow> row fs rest kvs (put v r) r' \<Longrightarrow>
    row fs (field k get put dec_any # rest) (any_member k v @ kvs) r r'"
  unfolding any_member_def by (rule row_omit) (simp_all add: any_ok_decodes)

lemma row_map:
  "(\<And>x. ok x \<Longrightarrow> decodes dec (enc x) zero x) \<Longrightarrow> text_ok k \<Longrightarrow> map_ok ok m \<Longrightarrow> get r = [] \<Longrightarrow>
    (m = [] \<Longrightarrow> put m r = r) \<Longrightarrow> row fs rest kvs (put m r) r' \<Longrightarrow>
    row fs (field k get put (dec_map zero dec) # rest) (map_member k enc m @ kvs) r r'"
  unfolding map_member_def by (rule row_omit) (auto simp: map_ok_decodes)

lemma row_opt_map:
  assumes "\<And>x. ok x \<Longrightarrow> decodes dec (enc x) zero x" and "text_ok k" and "opt_map_ok ok p" and "get r = None"
    and "p = None \<Longrightarrow> put p r = r" and "row fs rest kvs (put p r) r'"
  shows "row fs (field k get put (dec_map_opt zero dec) # rest) (opt_map_member k enc p @ kvs) r r'"
proof -
  let ?m = "case p of None \<Rightarrow> [] | Some m \<Rightarrow> m"
  from assms(3) have "?m = [] \<longleftrightarrow> p = None" and "p \<noteq> None \<Longrightarrow> p = Some ?m \<and> map_ok ok ?m"
    by (auto simp: opt_map_ok_def split: option.splits)
  with map_ok_decodes(1) [of ok ?m dec enc zero] assms show ?thesis
    unfolding opt_map_member_def map_member_def
    by - (rule row_omit; auto)
qed

lemmas row_strings [codec] = row_map [where dec = dec_string and enc = JStr, OF text_ok_decodes]
lemmas row_opt_strings [codec] = row_opt_map [where dec = dec_string and enc = JStr, OF text_ok_decodes]
lemmas row_opt_anys [codec] = row_opt_map [where dec = dec_any and enc = json_norm, OF any_ok_decodes]

lemma row_slice [codec]:
  "text_ok k \<Longrightarrow> (\<And>x. x \<in> set xs \<Longrightarrow> decodes dec (enc x) zero x) \<Longrightarrow> get r = [] \<Longrightarrow>
    (xs = [] \<Longrightarrow> put xs r = r) \<Longrightarrow> row fs rest kvs (put xs r) r' \<Longrightarrow>
    row fs (field k get put (dec_slice zero dec) # rest) (slice_member k enc xs @ kvs) r r'"
  unfolding slice_member_def by (rule row_omit) auto

lemma row_pointer [codec]:
  "text_ok k \<Longrightarrow> (\<And>x. p = Some x \<Longrightarrow> decodes dec (enc x) zero x \<and> enc x \<noteq> JNull) \<Longrightarrow> get r = None \<Longrightarrow>
    (p = None \<Longrightarrow> put p r = r) \<Longrightarrow> row fs rest kvs (put p r) r' \<Longrightarrow>
    row fs (field k get put (dec_pointer zero dec) # rest) (pointer_member k enc p @ kvs) r r'"
  unfolding pointer_member_def by (rule row_omit) (auto simp: pointer_json_def)

text \<open>Over a struct that is not zero, a member that is left out keeps the value of its field.\<close>

lemma row_over:
  "text_ok k \<Longrightarrow> put (get r) r = r \<Longrightarrow> decodes dec v (get r) x \<Longrightarrow>
    row fs rest kvs (put (if e then get r else x) r) r' \<Longrightarrow>
    row fs (field k get put dec # rest) (omitempty e k v @ kvs) r r'"
  by (rule row_omit [where x = "if e then get r else x"]) simp_all

lemma row_string_over:
  "text_ok k \<Longrightarrow> put (get r) r = r \<Longrightarrow> text_ok s \<Longrightarrow> row fs rest kvs (put (if s = [] then get r else s) r) r' \<Longrightarrow>
    row fs (field k get put dec_string # rest) (string_member k s @ kvs) r r'"
  unfolding string_member_def by (rule row_over) (simp_all add: text_ok_decodes)

lemma row_int_over:
  "text_ok k \<Longrightarrow> put (get r) r = r \<Longrightarrow> int64 i \<Longrightarrow> row fs rest kvs (put (if i = 0 then get r else i) r) r' \<Longrightarrow>
    row fs (field k get put dec_int # rest) (int_member k i @ kvs) r r'"
  "text_ok k \<Longrightarrow> put (get r) r = r \<Longrightarrow> int64 i \<Longrightarrow> row fs rest kvs (put (if i = 0 then get r else i) r) r' \<Longrightarrow>
    row fs (field k get put (dec_duration frac) # rest) (int_member k i @ kvs) r r'"
  unfolding int_member_def by (rule row_over; auto)+

lemma row_bool_over:
  "text_ok k \<Longrightarrow> put (get r) r = r \<Longrightarrow> row fs rest kvs (put (if \<not> b then get r else b) r) r' \<Longrightarrow>
    row fs (field k get put dec_bool # rest) (bool_member k b @ kvs) r r'"
  unfolding bool_member_def by (rule row_over) auto

lemma row_fills:
  assumes "row fs rest kvs r r'" and "distinct (map fst fs)" and "set rest \<subseteq> set fs" and "distinct (map fst rest)"
  shows "fills fs kvs r r'" "set (map fst kvs) \<subseteq> set (map fst rest)" "wf_map kvs"
  using assms unfolding row_def by blast+

lemma set_fields_append:
  "set_fields fs (ms @ ms') r = (case set_fields fs ms r of None \<Rightarrow> None | Some r1 \<Rightarrow> set_fields fs ms' r1)"
  by (induction fs ms r rule: set_fields.induct) (auto split: option.splits)

lemma decodes_object:
  assumes "row fs fs kvs r r'" and "distinct (map fst fs)"
  shows "decodes (dec_struct fs) (JObj kvs) r r'"
  using assms by (auto simp: row_def intro: decodes_struct)

subsection \<open>The contract of a type that is written and read\<close>

text \<open>
  What the program relies on for a type of its configuration: a value within \<open>ok\<close> is found again by the
  decoder over the zero value. In such a type, documents determine their values, in every layout; slices
  and pointers of such a type are such types.
\<close>

locale json_codec =
  fixes dec :: "'a decoder" and enc :: "'a \<Rightarrow> json" and zero :: 'a and ok :: "'a \<Rightarrow> bool"
  assumes reads_back: "ok x \<Longrightarrow> decodes dec (enc x) zero x"
begin

lemma good_enc: "ok x \<Longrightarrow> good (enc x)"
  by (rule decodesD(1) [OF reads_back])

lemma decode_enc:
  assumes "ok x" and "blank L" and "stop r"
  shows "Decode dec (json_layout L False d (enc x) @ r) zero = Some x"
  by (rule Decode_layout [OF reads_back [OF assms(1)] assms(2,3)])

lemma unmarshal_enc:
  assumes "ok x" and "blank L"
  shows "Unmarshal dec (json_layout L False d (enc x)) zero = Some x"
  using decode_enc [OF assms, of "[]" d] by (simp add: Unmarshal_def)

lemma document_determines:
  assumes "ok x" and "ok y" and "blank L" and "json_layout L False d (enc x) = json_layout L False d (enc y)"
  shows "x = y"
  using unmarshal_enc [OF assms(1,3), of d] unmarshal_enc [OF assms(2,3), of d]
  unfolding assms(4) by (simp only: option.inject)

lemma slice_reads_back: "list_all ok xs \<Longrightarrow> decodes (dec_slice zero dec) (JArr (map enc xs)) [] xs"
  by (rule decodes_slice) (auto simp: list_all_iff reads_back)

end

locale object_codec = json_codec +
  assumes not_null: "enc x \<noteq> JNull"
begin

lemma pointer_reads_back: "pred_option ok p \<Longrightarrow> decodes (dec_pointer zero dec) (pointer_json enc p) None p"
  by (cases p) (auto simp: pointer_json_def not_null intro!: decodes_pointer reads_back)

lemma field_reads_back: "pred_option ok p \<Longrightarrow> p = Some x \<Longrightarrow> decodes dec (enc x) zero x \<and> enc x \<noteq> JNull"
  by (simp add: reads_back not_null)

end

sublocale object_codec \<subseteq> pointer: json_codec "dec_pointer zero dec" "pointer_json enc" None "pred_option ok"
  by unfold_locales (rule pointer_reads_back)

subsection \<open>Unknown fields\<close>

lemma set_fields_unknown:
  "(k, t) \<in> set ms \<Longrightarrow> find_field fs k = None \<Longrightarrow> set_fields fs ms r = None"
  by (induction fs ms r rule: set_fields.induct) (auto split: option.splits)

lemma find_field_None: "find_field fs k = None \<longleftrightarrow> (\<forall>f \<in> set fs. fold_key (fst f) \<noteq> fold_key k)"
proof (cases "map_of fs k")
  case None
  then show ?thesis by (auto simp: find_field_def find_None_iff)
next
  case (Some dec)
  then have "(k, dec) \<in> set fs" by (rule map_of_SomeD)
  with Some show ?thesis by (force simp: find_field_def)
qed

end
