(* ===== verification/Config_Codec.thy ===== *)
theory Config_Codec
  imports Program Go_Codec
begin

text \<open>
  The documents the program reads its configuration from: the fields of the configuration structs, by
  their JSON tags, with their decoders (\<open>server/suite.go\<close>, \<open>server/config.go\<close>,
  \<open>testsuite/httpexpect/config.go\<close>, \<open>testsuite/grpcexpect/config.go\<close>, \<open>notifier/slack/slack.go\<close>), how
  \<open>json.Decode\<close> and \<open>json.Unmarshal\<close> fill them, and how \<open>init\<close> writes a suite. \<open>codec_env\<close> is the
  surroundings of the configuration with these decoders in the place of parameters; what is left are the
  files, regular expressions, the texts of decoding errors and the fractions of durations.
\<close>

abbreviation dec_header :: "header decoder" where
  "dec_header \<equiv> dec_map [] dec_string"

subsection \<open>The base configuration and suites\<close>

definition suite_settings :: "(int \<Rightarrow> nat \<Rightarrow> int \<Rightarrow> int) \<Rightarrow> SuiteConfig fields" where
  "suite_settings frac =
     [field ''path'' sc_Path (\<lambda>x r. r\<lparr>sc_Path := x\<rparr>) dec_string,
      field ''name'' sc_Name (\<lambda>x r. r\<lparr>sc_Name := x\<rparr>) dec_string,
      field ''runEvery'' sc_RunEvery (\<lambda>x r. r\<lparr>sc_RunEvery := x\<rparr>) (dec_duration frac),
      field ''runCron'' sc_RunCron (\<lambda>x r. r\<lparr>sc_RunCron := x\<rparr>) dec_string,
      field ''retryCount'' sc_RetryCount (\<lambda>x r. r\<lparr>sc_RetryCount := x\<rparr>) dec_int,
      field ''retryWait'' sc_RetryWait (\<lambda>x r. r\<lparr>sc_RetryWait := x\<rparr>) (dec_duration frac),
      field ''timeout'' sc_Timeout (\<lambda>x r. r\<lparr>sc_Timeout := x\<rparr>) (dec_duration frac),
      field ''failFast'' sc_FailFast (\<lambda>x r. r\<lparr>sc_FailFast := x\<rparr>) dec_bool,
      field ''type'' sc_Type (\<lambda>x r. r\<lparr>sc_Type := x\<rparr>) dec_string]"

definition SuiteConfig_fields :: "(int \<Rightarrow> nat \<Rightarrow> int \<Rightarrow> int) \<Rightarrow> SuiteConfig fields" where
  "SuiteConfig_fields frac =
     suite_settings frac @ [field ''suite'' sc_Suite (\<lambda>x r. r\<lparr>sc_Suite := x\<rparr>) dec_raw]"

definition zero_SuiteConfig :: SuiteConfig where
  "zero_SuiteConfig =
     \<lparr>sc_Path = [], sc_Name = [], sc_RunEvery = 0, sc_RunCron = [], sc_RetryCount = 0, sc_RetryWait = 0,
      sc_Timeout = 0, sc_FailFast = False, sc_Type = [], sc_Suite = None, sc_baseSuite = None, sc_filter = []\<rparr>"

definition dec_raw_bytes :: "string decoder" where
  "dec_raw_bytes t old = Some t"

definition Config_fields :: "(int \<Rightarrow> nat \<Rightarrow> int \<Rightarrow> int) \<Rightarrow> Config fields" where
  "Config_fields frac =
     [field ''Notifiers'' cfg_Notifiers (\<lambda>x r. r\<lparr>cfg_Notifiers := x\<rparr>) (dec_map [] dec_raw_bytes),
      field ''Suites'' cfg_Suites (\<lambda>x r. r\<lparr>cfg_Suites := x\<rparr>)
        (dec_slice None (dec_pointer zero_SuiteConfig (dec_struct (SuiteConfig_fields frac))))]"

subsection \<open>HTTP suites\<close>

definition oauth2_fields :: "oauth2_config fields" where
  "oauth2_fields =
     [field ''ClientID'' oa_ClientID (\<lambda>x r. r\<lparr>oa_ClientID := x\<rparr>) dec_string,
      field ''ClientSecret'' oa_ClientSecret (\<lambda>x r. r\<lparr>oa_ClientSecret := x\<rparr>) dec_string,
      field ''TokenURL'' oa_TokenURL (\<lambda>x r. r\<lparr>oa_TokenURL := x\<rparr>) dec_string,
      field ''Scopes'' oa_Scopes (\<lambda>x r. r\<lparr>oa_Scopes := x\<rparr>) (dec_slice [] dec_string),
      field ''EndpointParams'' oa_EndpointParams (\<lambda>x r. r\<lparr>oa_EndpointParams := x\<rparr>)
        (dec_map [] (dec_slice [] dec_string))]"

definition zero_oauth2 :: oauth2_config where
  "zero_oauth2 = \<lparr>oa_ClientID = [], oa_ClientSecret = [], oa_TokenURL = [], oa_Scopes = [], oa_EndpointParams = []\<rparr>"

abbreviation dec_oauth2 :: "oauth2_config option decoder" where
  "dec_oauth2 \<equiv> dec_pointer zero_oauth2 (dec_struct oauth2_fields)"

definition Base_fields :: "http_base fields" where
  "Base_fields =
     [field ''url'' b_URL (\<lambda>x r. r\<lparr>b_URL := x\<rparr>) dec_string,
      field ''header'' b_Header (\<lambda>x r. r\<lparr>b_Header := x\<rparr>) dec_header,
      field ''oauth2'' b_OAUTH2 (\<lambda>x r. r\<lparr>b_OAUTH2 := x\<rparr>) dec_oauth2,
      field ''insecure'' b_Insecure (\<lambda>x r. r\<lparr>b_Insecure := x\<rparr>) dec_bool]"

definition Request_fields :: "request_cfg fields" where
  "Request_fields =
     [field ''url'' q_URL (\<lambda>x r. r\<lparr>q_URL := x\<rparr>) dec_string,
      field ''path'' q_Path (\<lambda>x r. r\<lparr>q_Path := x\<rparr>) dec_string,
      field ''method'' q_Method (\<lambda>x r. r\<lparr>q_Method := x\<rparr>) dec_string,
      field ''header'' q_Header (\<lambda>x r. r\<lparr>q_Header := x\<rparr>) dec_header,
      field ''body'' q_Body (\<lambda>x r. r\<lparr>q_Body := x\<rparr>) dec_any,
      field ''multipart'' q_Multipart (\<lambda>x r. r\<lparr>q_Multipart := x\<rparr>) (dec_map_opt [] dec_string),
      field ''formData'' q_FormData (\<lambda>x r. r\<lparr>q_FormData := x\<rparr>) (dec_map_opt [] dec_string)]"

definition Expect_fields :: "expect_cfg fields" where
  "Expect_fields =
     [field ''statusCode'' e_StatusCode (\<lambda>x r. r\<lparr>e_StatusCode := x\<rparr>) dec_int,
      field ''header'' e_Header (\<lambda>x r. r\<lparr>e_Header := x\<rparr>) dec_header,
      field ''document'' e_Document (\<lambda>x r. r\<lparr>e_Document := x\<rparr>) dec_any,
      field ''jsonSchema'' e_JSONSchema (\<lambda>x r. r\<lparr>e_JSONSchema := x\<rparr>) (dec_map_opt JNull dec_any),
      field ''jsonValues'' e_JSONValues (\<lambda>x r. r\<lparr>e_JSONValues := x\<rparr>) (dec_map_opt JNull dec_any)]"

definition Test_fields :: "test_cfg fields" where
  "Test_fields =
     [field ''id'' c_ID (\<lambda>x r. r\<lparr>c_ID := x\<rparr>) dec_string,
      field ''name'' c_Name (\<lambda>x r. r\<lparr>c_Name := x\<rparr>) dec_string,
      field ''request'' c_Request (\<lambda>x r. r\<lparr>c_Request := x\<rparr>) (dec_struct Request_fields),
      field ''expect'' c_Expect (\<lambda>x r. r\<lparr>c_Expect := x\<rparr>) (dec_struct Expect_fields),
      field ''saveDocument'' c_SaveDocument (\<lambda>x r. r\<lparr>c_SaveDocument := x\<rparr>) dec_bool]"

definition zero_base :: http_base where
  "zero_base = \<lparr>b_URL = [], b_Header = [], b_Insecure = False, b_OAUTH2 = None\<rparr>"

definition zero_request :: request_cfg where
  "zero_request = \<lparr>q_URL = [], q_Path = [], q_Method = [], q_Header = [], q_Body = JNull, q_Multipart = None,
     q_FormData = None\<rparr>"

definition zero_expect :: expect_cfg where
  "zero_expect = \<lparr>e_StatusCode = 0, e_Header = [], e_Document = JNull, e_JSONSchema = None, e_JSONValues = None\<rparr>"

definition zero_test :: test_cfg where
  "zero_test = \<lparr>c_ID = [], c_Name = [], c_Request = zero_request, c_Expect = zero_expect, c_SaveDocument = False\<rparr>"

definition HTTP_Config_fields :: "http_config fields" where
  "HTTP_Config_fields =
     [field ''path'' hc_Path (\<lambda>x r. r\<lparr>hc_Path := x\<rparr>) dec_string,
      field ''root'' hc_Root (\<lambda>x r. r\<lparr>hc_Root := x\<rparr>) dec_string,
      field ''base'' hc_Base (\<lambda>x r. r\<lparr>hc_Base := x\<rparr>) (dec_struct Base_fields),
      field ''tests'' hc_Tests (\<lambda>x r. r\<lparr>hc_Tests := x\<rparr>)
        (dec_slice None (dec_pointer zero_test (dec_struct Test_fields)))]"

subsection \<open>GRPC suites\<close>

text \<open>The status codes of GRPC are written by their names; a number is refused.\<close>

definition code_names :: "(string \<times> int) list" where
  "code_names = zip
     [''OK'', ''CANCELLED'', ''UNKNOWN'', ''INVALID_ARGUMENT'', ''DEADLINE_EXCEEDED'', ''NOT_FOUND'',
      ''ALREADY_EXISTS'', ''PERMISSION_DENIED'', ''RESOURCE_EXHAUSTED'', ''FAILED_PRECONDITION'', ''ABORTED'',
      ''OUT_OF_RANGE'', ''UNIMPLEMENTED'', ''INTERNAL'', ''UNAVAILABLE'', ''DATA_LOSS'', ''UNAUTHENTICATED'']
     (map int [0..<17])"

definition dec_code :: "int decoder" where
  "dec_code t old = (if is_null t then Some old
     else map_of (map (\<lambda>(s, c). (CHR 0x22 # s @ [CHR 0x22], c)) code_names) t)"

definition RequestConfig_fields :: "grpc_test_cfg fields" where
  "RequestConfig_fields =
     [field ''method'' gc_Method (\<lambda>x r. r\<lparr>gc_Method := x\<rparr>) dec_string,
      field ''header'' gc_Header (\<lambda>x r. r\<lparr>gc_Header := x\<rparr>) dec_header,
      field ''document'' gc_Document (\<lambda>x r. r\<lparr>gc_Document := x\<rparr>) dec_any]"

definition ExpectConfig_fields :: "grpc_test_cfg fields" where
  "ExpectConfig_fields =
     [field ''code'' gc_ExpectCode (\<lambda>x r. r\<lparr>gc_ExpectCode := x\<rparr>) dec_code,
      field ''header'' gc_ExpectHeader (\<lambda>x r. r\<lparr>gc_ExpectHeader := x\<rparr>) dec_header,
      field ''document'' gc_ExpectDocument (\<lambda>x r. r\<lparr>gc_ExpectDocument := x\<rparr>) dec_any]"

text \<open>The structs of the request and of what is expected are part of the record of a test.\<close>

definition TestConfig_fields :: "grpc_test_cfg fields" where
  "TestConfig_fields =
     [field ''name'' gc_Name (\<lambda>x r. r\<lparr>gc_Name := x\<rparr>) dec_string,
      field ''request'' (\<lambda>r. r) (\<lambda>x r. x) (dec_struct RequestConfig_fields),
      field ''expect'' (\<lambda>r. r) (\<lambda>x r. x) (dec_struct ExpectConfig_fields)]"

definition zero_grpc_test :: grpc_test_cfg where
  "zero_grpc_test = \<lparr>gc_Name = [], gc_Method = [], gc_Header = [], gc_Document = JNull, gc_ExpectCode = 0,
     gc_ExpectHeader = [], gc_ExpectDocument = JNull\<rparr>"

definition GRPC_Config_fields :: "grpc_config fields" where
  "GRPC_Config_fields =
     [field ''path'' gr_Path (\<lambda>x r. r\<lparr>gr_Path := x\<rparr>) dec_string,
      field ''root'' gr_Root (\<lambda>x r. r\<lparr>gr_Root := x\<rparr>) dec_string,
      field ''address'' gr_Address (\<lambda>x r. r\<lparr>gr_Address := x\<rparr>) dec_string,
      field ''protoSetPath'' gr_ProtoSetPath (\<lambda>x r. r\<lparr>gr_ProtoSetPath := x\<rparr>) dec_string,
      field ''tls'' gr_TLS (\<lambda>x r. r\<lparr>gr_TLS := x\<rparr>) dec_bool,
      field ''caPath'' gr_CAPath (\<lambda>x r. r\<lparr>gr_CAPath := x\<rparr>) dec_string,
      field ''serverHostOverride'' gr_ServerHostOverride (\<lambda>x r. r\<lparr>gr_ServerHostOverride := x\<rparr>) dec_string,
      field ''insecure'' gr_Insecure (\<lambda>x r. r\<lparr>gr_Insecure := x\<rparr>) dec_bool,
      field ''oauth2'' gr_OAUTH2 (\<lambda>x r. r\<lparr>gr_OAUTH2 := x\<rparr>) dec_oauth2,
      field ''header'' gr_Header (\<lambda>x r. r\<lparr>gr_Header := x\<rparr>) dec_header,
      field ''tests'' gr_Tests (\<lambda>x r. r\<lparr>gr_Tests := x\<rparr>) (dec_slice zero_grpc_test (dec_struct TestConfig_fields))]"

subsection \<open>The slack notifier\<close>

definition Slack_Config_fields :: "Slack_Config fields" where
  "Slack_Config_fields =
     [field ''webhook'' sl_Webhook (\<lambda>x r. r\<lparr>sl_Webhook := x\<rparr>) dec_string,
      field ''username'' sl_Username (\<lambda>x r. r\<lparr>sl_Username := x\<rparr>) dec_string,
      field ''channel'' sl_Channel (\<lambda>x r. r\<lparr>sl_Channel := x\<rparr>) dec_string,
      field ''verbose'' sl_Verbose (\<lambda>x r. r\<lparr>sl_Verbose := x\<rparr>) dec_bool]"

subsection \<open>The surroundings of the configuration\<close>

definition or_error :: "(string \<Rightarrow> string) \<Rightarrow> string \<Rightarrow> 'a option \<Rightarrow> string + 'a" where
  "or_error msg s r = (case r of None \<Rightarrow> Inl (msg s) | Some x \<Rightarrow> Inr x)"

definition dec_plugin :: "plugin_config decoder" where
  "dec_plugin t c =
     (case c of
        HTTP_Config h \<Rightarrow> map_option HTTP_Config (dec_struct HTTP_Config_fields t h)
      | GRPC_Config g \<Rightarrow> map_option GRPC_Config (dec_struct GRPC_Config_fields t g)
      | Slack_Plugin_Config s \<Rightarrow> map_option Slack_Plugin_Config (dec_struct Slack_Config_fields t s))"

definition codec_env ::
  "(string \<Rightarrow> string + string) \<Rightarrow> (string \<Rightarrow> string + (string \<Rightarrow> bool)) \<Rightarrow> (string \<Rightarrow> string) \<Rightarrow>
    (int \<Rightarrow> nat \<Rightarrow> int \<Rightarrow> int) \<Rightarrow> (plugin_config, ('m, 'w) app_instance) registry \<Rightarrow>
    (plugin_config, 'w, 'm app_msg) config_env" where
  "codec_env files regexps msg frac reg =
     \<lparr>open_file = files,
      decode_suite = (\<lambda>s cfg. or_error msg s (Decode (dec_struct (SuiteConfig_fields frac)) s cfg)),
      decode_config = (\<lambda>s. or_error msg s (map_option (\<lambda>cfg. (cfg_Notifiers cfg, cfg_Suites cfg))
        (Decode (dec_struct (Config_fields frac)) s
          \<lparr>cfg_Notifiers = [], cfg_Suites = [], cfg_path = [], cfg_dir = []\<rparr>))),
      unmarshal = (\<lambda>b c. or_error msg b (Unmarshal dec_plugin b c)),
      compile_regexp = regexps, plugins = reg\<rparr>"

subsection \<open>Writing configurations\<close>

definition oauth2_json :: "oauth2_config \<Rightarrow> json" where
  "oauth2_json a = JObj
     (member ''ClientID'' (JStr (oa_ClientID a)) @ member ''ClientSecret'' (JStr (oa_ClientSecret a)) @
      member ''TokenURL'' (JStr (oa_TokenURL a)) @ member ''Scopes'' (nil_slice_json JStr (oa_Scopes a)) @
      member ''EndpointParams'' (nil_map_json (nil_slice_json JStr) (oa_EndpointParams a)) @ [])"

definition Base_json :: "http_base \<Rightarrow> json" where
  "Base_json b = JObj
     (string_member ''url'' (b_URL b) @ map_member ''header'' JStr (b_Header b) @
      pointer_member ''oauth2'' oauth2_json (b_OAUTH2 b) @ bool_member ''insecure'' (b_Insecure b) @ [])"

definition Request_json :: "request_cfg \<Rightarrow> json" where
  "Request_json q = JObj
     (string_member ''url'' (q_URL q) @ string_member ''path'' (q_Path q) @
      string_member ''method'' (q_Method q) @ map_member ''header'' JStr (q_Header q) @
      any_member ''body'' (q_Body q) @ opt_map_member ''multipart'' JStr (q_Multipart q) @
      opt_map_member ''formData'' JStr (q_FormData q) @ [])"

definition Expect_json :: "expect_cfg \<Rightarrow> json" where
  "Expect_json e = JObj
     (int_member ''statusCode'' (e_StatusCode e) @ map_member ''header'' JStr (e_Header e) @
      any_member ''document'' (e_Document e) @ opt_map_member ''jsonSchema'' json_norm (e_JSONSchema e) @
      opt_map_member ''jsonValues'' json_norm (e_JSONValues e) @ [])"

definition Test_json :: "test_cfg \<Rightarrow> json" where
  "Test_json t = JObj
     (string_member ''id'' (c_ID t) @ string_member ''name'' (c_Name t) @
      member ''request'' (Request_json (c_Request t)) @ member ''expect'' (Expect_json (c_Expect t)) @
      bool_member ''saveDocument'' (c_SaveDocument t) @ [])"

definition HTTP_Config_json :: "http_config \<Rightarrow> json" where
  "HTTP_Config_json c = JObj
     (string_member ''path'' (hc_Path c) @ string_member ''root'' (hc_Root c) @
      member ''base'' (Base_json (hc_Base c)) @
      slice_member ''tests'' (pointer_json Test_json) (hc_Tests c) @ [])"

text \<open>
  A GRPC suite. A status code has no method that writes its name: it is written as a number, which is not
  read back. So only the code zero, which is left out, survives.
\<close>

definition RequestConfig_json :: "grpc_test_cfg \<Rightarrow> json" where
  "RequestConfig_json t = JObj
     (string_member ''method'' (gc_Method t) @ map_member ''header'' JStr (gc_Header t) @
      any_member ''document'' (gc_Document t) @ [])"

definition ExpectConfig_json :: "grpc_test_cfg \<Rightarrow> json" where
  "ExpectConfig_json t = JObj
     (int_member ''code'' (gc_ExpectCode t) @ map_member ''header'' JStr (gc_ExpectHeader t) @
      any_member ''document'' (gc_ExpectDocument t) @ [])"

definition TestConfig_json :: "grpc_test_cfg \<Rightarrow> json" where
  "TestConfig_json t = JObj
     (string_member ''name'' (gc_Name t) @ member ''request'' (RequestConfig_json t) @
      member ''expect'' (ExpectConfig_json t) @ [])"

definition GRPC_Config_json :: "grpc_config \<Rightarrow> json" where
  "GRPC_Config_json c = JObj
     (string_member ''path'' (gr_Path c) @ string_member ''root'' (gr_Root c) @
      string_member ''address'' (gr_Address c) @ string_member ''protoSetPath'' (gr_ProtoSetPath c) @
      bool_member ''tls'' (gr_TLS c) @ string_member ''caPath'' (gr_CAPath c) @
      string_member ''serverHostOverride'' (gr_ServerHostOverride c) @ bool_member ''insecure'' (gr_Insecure c) @
      pointer_member ''oauth2'' oauth2_json (gr_OAUTH2 c) @ map_member ''header'' JStr (gr_Header c) @
      slice_member ''tests'' TestConfig_json (gr_Tests c) @ [])"

text \<open>
  A suite with a description that \<open>json.Marshal\<close> wrote, as \<open>init\<close> has it: an encoder lays out a
  \<open>json.RawMessage\<close> like the rest, so its value is a part of the whole.
\<close>

definition settings_members :: "SuiteConfig \<Rightarrow> (string \<times> json) list" where
  "settings_members c =
     string_member ''path'' (sc_Path c) @ string_member ''name'' (sc_Name c) @
      int_member ''runEvery'' (sc_RunEvery c) @ string_member ''runCron'' (sc_RunCron c) @
      int_member ''retryCount'' (sc_RetryCount c) @ int_member ''retryWait'' (sc_RetryWait c) @
      int_member ''timeout'' (sc_Timeout c) @ bool_member ''failFast'' (sc_FailFast c) @
      string_member ''type'' (sc_Type c) @ []"

definition SuiteConfig_json :: "SuiteConfig \<Rightarrow> json option \<Rightarrow> json" where
  "SuiteConfig_json c suite = JObj (settings_members c @ pointer_member ''suite'' (\<lambda>v. v) suite)"

subsection \<open>Reading back what was written\<close>

definition oauth2_ok :: "oauth2_config \<Rightarrow> bool" where
  "oauth2_ok a \<longleftrightarrow> text_ok (oa_ClientID a) \<and> text_ok (oa_ClientSecret a) \<and> text_ok (oa_TokenURL a) \<and>
     list_all text_ok (oa_Scopes a) \<and> map_ok (list_all text_ok) (oa_EndpointParams a)"

definition base_ok :: "http_base \<Rightarrow> bool" where
  "base_ok b \<longleftrightarrow> text_ok (b_URL b) \<and> map_ok text_ok (b_Header b) \<and> pred_option oauth2_ok (b_OAUTH2 b)"

definition request_ok :: "request_cfg \<Rightarrow> bool" where
  "request_ok q \<longleftrightarrow> text_ok (q_URL q) \<and> text_ok (q_Path q) \<and> text_ok (q_Method q) \<and> map_ok text_ok (q_Header q) \<and>
     any_ok (q_Body q) \<and> opt_map_ok text_ok (q_Multipart q) \<and> opt_map_ok text_ok (q_FormData q)"

definition expect_ok :: "expect_cfg \<Rightarrow> bool" where
  "expect_ok e \<longleftrightarrow> int64 (e_StatusCode e) \<and> map_ok text_ok (e_Header e) \<and> any_ok (e_Document e) \<and>
     opt_map_ok any_ok (e_JSONSchema e) \<and> opt_map_ok any_ok (e_JSONValues e)"

definition test_ok :: "test_cfg \<Rightarrow> bool" where
  "test_ok t \<longleftrightarrow> text_ok (c_ID t) \<and> text_ok (c_Name t) \<and> request_ok (c_Request t) \<and> expect_ok (c_Expect t)"

definition http_config_ok :: "http_config \<Rightarrow> bool" where
  "http_config_ok c \<longleftrightarrow> text_ok (hc_Path c) \<and> text_ok (hc_Root c) \<and> base_ok (hc_Base c) \<and>
     list_all (pred_option test_ok) (hc_Tests c)"

definition grpc_test_ok :: "grpc_test_cfg \<Rightarrow> bool" where
  "grpc_test_ok t \<longleftrightarrow> text_ok (gc_Name t) \<and> text_ok (gc_Method t) \<and> map_ok text_ok (gc_Header t) \<and>
     any_ok (gc_Document t) \<and> gc_ExpectCode t = 0 \<and> map_ok text_ok (gc_ExpectHeader t) \<and> any_ok (gc_ExpectDocument t)"

definition grpc_config_ok :: "grpc_config \<Rightarrow> bool" where
  "grpc_config_ok c \<longleftrightarrow> text_ok (gr_Path c) \<and> text_ok (gr_Root c) \<and> text_ok (gr_Address c) \<and>
     text_ok (gr_ProtoSetPath c) \<and> text_ok (gr_CAPath c) \<and> text_ok (gr_ServerHostOverride c) \<and>
     pred_option oauth2_ok (gr_OAUTH2 c) \<and> map_ok text_ok (gr_Header c) \<and> list_all grpc_test_ok (gr_Tests c)"

lemma keys_ok [simp]:
  "text_ok ''path''" "text_ok ''name''" "text_ok ''runEvery''" "text_ok ''runCron''" "text_ok ''retryCount''"
  "text_ok ''retryWait''" "text_ok ''timeout''" "text_ok ''failFast''" "text_ok ''type''"
  "text_ok ''ClientID''" "text_ok ''ClientSecret''" "text_ok ''TokenURL''" "text_ok ''Scopes''"
  "text_ok ''EndpointParams''" "text_ok ''url''" "text_ok ''header''" "text_ok ''oauth2''" "text_ok ''insecure''"
  "text_ok ''method''" "text_ok ''body''" "text_ok ''multipart''" "text_ok ''formData''" "text_ok ''statusCode''"
  "text_ok ''document''" "text_ok ''jsonSchema''" "text_ok ''jsonValues''" "text_ok ''id''" "text_ok ''request''"
  "text_ok ''expect''" "text_ok ''saveDocument''" "text_ok ''root''" "text_ok ''base''" "text_ok ''tests''"
  "text_ok ''suite''" "text_ok ''address''" "text_ok ''protoSetPath''" "text_ok ''tls''" "text_ok ''caPath''"
  "text_ok ''serverHostOverride''" "text_ok ''code''"
  by code_simp+

lemma fst_field [simp]: "fst (field k get put dec) = k"
  by (simp add: field_def)

interpretation oauth2: object_codec "dec_struct oauth2_fields" oauth2_json zero_oauth2 oauth2_ok
proof unfold_locales
  show "decodes (dec_struct oauth2_fields) (oauth2_json a) zero_oauth2 a" if "oauth2_ok a" for a
    unfolding oauth2_json_def oauth2_fields_def
    by (rule decodes_object, intro codec)
      (use that in \<open>auto simp: oauth2_ok_def zero_oauth2_def intro!: text_ok_decodes decodes_nil_slice [where ok = text_ok]
        decodes_nil_map [where ok = "list_all text_ok"]\<close>)
qed (simp add: oauth2_json_def)

interpretation http_base: object_codec "dec_struct Base_fields" Base_json zero_base base_ok
proof unfold_locales
  show "decodes (dec_struct Base_fields) (Base_json b) zero_base b" if "base_ok b" for b
    unfolding Base_json_def Base_fields_def
    by (rule decodes_object, intro codec)
      (use that in \<open>auto simp: base_ok_def zero_base_def oauth2.reads_back oauth2.not_null\<close>)
qed (simp add: Base_json_def)

interpretation http_req: object_codec "dec_struct Request_fields" Request_json zero_request request_ok
proof unfold_locales
  show "decodes (dec_struct Request_fields) (Request_json q) zero_request q" if "request_ok q" for q
    unfolding Request_json_def Request_fields_def
    by (rule decodes_object, intro codec)
      (use that in \<open>auto simp: request_ok_def zero_request_def\<close>)
qed (simp add: Request_json_def)

interpretation http_expect: object_codec "dec_struct Expect_fields" Expect_json zero_expect expect_ok
proof unfold_locales
  show "decodes (dec_struct Expect_fields) (Expect_json e) zero_expect e" if "expect_ok e" for e
    unfolding Expect_json_def Expect_fields_def
    by (rule decodes_object, intro codec)
      (use that in \<open>auto simp: expect_ok_def zero_expect_def\<close>)
qed (simp add: Expect_json_def)

interpretation http_test: object_codec "dec_struct Test_fields" Test_json zero_test test_ok
proof unfold_locales
  show "decodes (dec_struct Test_fields) (Test_json t) zero_test t" if "test_ok t" for t
    unfolding Test_json_def Test_fields_def
    by (rule decodes_object, intro codec)
      (use that in \<open>auto simp: test_ok_def zero_test_def intro!: http_req.reads_back http_expect.reads_back\<close>)
qed (simp add: Test_json_def)

interpretation http_suite_doc: object_codec "dec_struct HTTP_Config_fields" HTTP_Config_json zero_http_config http_config_ok
proof unfold_locales
  have base: "zero_http_config = \<lparr>hc_Path = [], hc_Root = [], hc_Base = zero_base, hc_Tests = []\<rparr>"
    by (simp add: zero_http_config_def zero_base_def)
  show "decodes (dec_struct HTTP_Config_fields) (HTTP_Config_json c) zero_http_config c" if "http_config_ok c" for c
    unfolding HTTP_Config_json_def HTTP_Config_fields_def
    by (rule decodes_object, intro codec)
      (use that in \<open>auto simp: http_config_ok_def base list_all_iff http_test.pointer.reads_back intro!: http_base.reads_back\<close>)
qed (simp add: HTTP_Config_json_def)

lemma row_code_zero:
  "row fs rest kvs r r' \<Longrightarrow> text_ok k \<Longrightarrow> put (get r) r = r \<Longrightarrow> i = 0 \<Longrightarrow>
    row fs (field k get put dec_code # rest) (int_member k i @ kvs) r r'"
  unfolding int_member_def by (rule row_omit [where x = "get r"]) simp_all

interpretation grpc_test: object_codec "dec_struct TestConfig_fields" TestConfig_json zero_grpc_test grpc_test_ok
proof unfold_locales
  fix t
  assume ok: "grpc_test_ok t"
  let ?named = "zero_grpc_test\<lparr>gc_Name := gc_Name t\<rparr>"
  let ?asked = "?named\<lparr>gc_Method := gc_Method t, gc_Header := gc_Header t, gc_Document := gc_Document t\<rparr>"
  have request: "decodes (dec_struct RequestConfig_fields) (RequestConfig_json t) ?named ?asked"
    unfolding RequestConfig_json_def RequestConfig_fields_def
    by (rule decodes_object, intro codec) (use ok in \<open>auto simp: grpc_test_ok_def zero_grpc_test_def\<close>)
  have expect: "decodes (dec_struct ExpectConfig_fields) (ExpectConfig_json t) ?asked t"
    unfolding ExpectConfig_json_def ExpectConfig_fields_def
    by (rule decodes_object, intro row_code_zero codec) (use ok in \<open>auto simp: grpc_test_ok_def zero_grpc_test_def\<close>)
  show "decodes (dec_struct TestConfig_fields) (TestConfig_json t) zero_grpc_test t"
    unfolding TestConfig_json_def TestConfig_fields_def
    by (rule decodes_object, intro codec)
      (use ok request expect in \<open>auto simp: grpc_test_ok_def zero_grpc_test_def\<close>)
qed (simp add: TestConfig_json_def)

interpretation grpc_suite_doc: object_codec "dec_struct GRPC_Config_fields" GRPC_Config_json zero_grpc_config grpc_config_ok
proof unfold_locales
  show "decodes (dec_struct GRPC_Config_fields) (GRPC_Config_json c) zero_grpc_config c" if "grpc_config_ok c" for c
    unfolding GRPC_Config_json_def GRPC_Config_fields_def
    by (rule decodes_object, intro codec)
      (use that in \<open>auto simp: grpc_config_ok_def zero_grpc_config_def list_all_iff oauth2.reads_back oauth2.not_null
        grpc_test.reads_back\<close>)
qed (simp add: GRPC_Config_json_def)

text \<open>A suite file over the settings a suite has: what it names replaces them, the rest stays.\<close>

definition suite_over :: "SuiteConfig \<Rightarrow> string option \<Rightarrow> SuiteConfig \<Rightarrow> SuiteConfig" where
  "suite_over c suite r = r\<lparr>sc_Path := (if sc_Path c = [] then sc_Path r else sc_Path c),
     sc_Name := (if sc_Name c = [] then sc_Name r else sc_Name c),
     sc_RunEvery := (if sc_RunEvery c = 0 then sc_RunEvery r else sc_RunEvery c),
     sc_RunCron := (if sc_RunCron c = [] then sc_RunCron r else sc_RunCron c),
     sc_RetryCount := (if sc_RetryCount c = 0 then sc_RetryCount r else sc_RetryCount c),
     sc_RetryWait := (if sc_RetryWait c = 0 then sc_RetryWait r else sc_RetryWait c),
     sc_Timeout := (if sc_Timeout c = 0 then sc_Timeout r else sc_Timeout c),
     sc_FailFast := (sc_FailFast c \<or> sc_FailFast r),
     sc_Type := (if sc_Type c = [] then sc_Type r else sc_Type c),
     sc_Suite := (case suite of None \<Rightarrow> sc_Suite r | Some t \<Rightarrow> Some t)\<rparr>"

definition suite_config_ok :: "SuiteConfig \<Rightarrow> bool" where
  "suite_config_ok c \<longleftrightarrow> text_ok (sc_Path c) \<and> text_ok (sc_Name c) \<and> text_ok (sc_RunCron c) \<and> text_ok (sc_Type c) \<and>
     int64 (sc_RunEvery c) \<and> int64 (sc_RetryCount c) \<and> int64 (sc_RetryWait c) \<and> int64 (sc_Timeout c)"

lemma SuiteConfig_row:
  assumes "suite_config_ok c"
  shows "row (SuiteConfig_fields frac) (suite_settings frac) (settings_members c) r (suite_over c None r)"
proof (cases r)
  case (fields p n e cr rc w t f ty s b fi)
  have flag: "(if \<not> x then y else x) = (x \<or> y)" for x y :: bool by auto
  show ?thesis
    unfolding fields suite_settings_def settings_members_def
    by (intro row_string_over row_int_over row_bool_over row_Nil)
      (use assms in \<open>simp_all add: suite_config_ok_def suite_over_def flag cong: if_cong split del: if_split\<close>)
qed

lemma SuiteConfig_names:
  "distinct (map fst (SuiteConfig_fields frac))" "distinct (map fst (suite_settings frac))"
  "''suite'' \<notin> set (map fst (suite_settings frac))" "set (suite_settings frac) \<subseteq> set (SuiteConfig_fields frac)"
  by (simp_all add: SuiteConfig_fields_def suite_settings_def)

lemma find_suite:
  "find_field (SuiteConfig_fields frac) ''suite'' = Some (\<lambda>t r. map_option (\<lambda>x. r\<lparr>sc_Suite := x\<rparr>) (dec_raw t (sc_Suite r)))"
  using SuiteConfig_names(1) by (intro find_field_distinct) (simp_all add: SuiteConfig_fields_def)

lemma SuiteConfig_good:
  assumes "suite_config_ok c" and "pred_option good suite"
  shows "good (SuiteConfig_json c suite)"
proof -
  note settings = row_fills [OF SuiteConfig_row [OF assms(1)] SuiteConfig_names(1,4,2)]
  have "sanitize ''suite'' = ''suite''" using keys_ok(34) by (simp add: text_ok_def)
  with fillsD(1) [OF settings(1)] settings(2,3) SuiteConfig_names(3) assms(2) show ?thesis
    by (cases suite) (auto simp: SuiteConfig_json_def pointer_member_def pointer_json_def omitempty_def wf_map_def)
qed

lemma SuiteConfig_reads:
  assumes "suite_config_ok c" and "pred_option good suite" and "blank L"
  shows "dec_struct (SuiteConfig_fields frac) (json_layout L False d (SuiteConfig_json c suite)) r =
    Some (suite_over c (map_option (json_layout L False (Suc d)) suite) r)"
proof -
  let ?fs = "SuiteConfig_fields frac"
  let ?texts = "map (\<lambda>kv. (fst kv, json_layout L False (Suc d) (snd kv)))"
  note good = SuiteConfig_good [OF assms(1,2)]
  have fills: "set_fields ?fs (?texts (settings_members c)) r = Some (suite_over c None r)"
    by (rule fillsD(2) [OF row_fills(1) [OF SuiteConfig_row [OF assms(1)] SuiteConfig_names(1,4,2)] assms(3)])
  have tail: "set_fields ?fs (?texts (pointer_member ''suite'' (\<lambda>v. v) suite)) (suite_over c None r) =
      Some (suite_over c (map_option (json_layout L False (Suc d)) suite) r)"
    by (cases suite) (simp_all add: pointer_member_def pointer_json_def omitempty_def suite_over_def
        find_suite dec_raw_def)
  have "\<not> is_null (json_layout L False d (SuiteConfig_json c suite))"
    using good by (simp add: is_null_layout good_def) (simp add: SuiteConfig_json_def)
  moreover have "object_members (json_layout L False d (SuiteConfig_json c suite)) =
      Some (?texts (settings_members c @ pointer_member ''suite'' (\<lambda>v. v) suite))"
    using object_members_layout [OF assms(3) good [unfolded SuiteConfig_json_def], of False d]
    by (simp only: SuiteConfig_json_def in_order_def if_False)
  ultimately show ?thesis
    using fills tail by (simp only: dec_struct_def if_False option.case map_append set_fields_append)
qed

end
