(* ===== verification/Config_Docs.thy ===== *)
theory Config_Docs
  imports Config_Codec
begin

text \<open>
  Configuration documents and what they load as: the settings a suite file names over the defaults, the
  refusal of fields that do not exist, the round trip of the configurations of the plugins, and the suite
  that \<open>init\<close> writes.
\<close>

subsection \<open>The surroundings of init\<close>

text \<open>\<open>Example\<close> of the plugins that have one, marshalled, and the encoder with its indent.\<close>

definition marshal_example :: "plugin_config \<Rightarrow> (string + string) option" where
  "marshal_example c =
     (case c of
        HTTP_Config _ \<Rightarrow> Some (Inr (json_text False (HTTP_Config_json Example)))
      | GRPC_Config _ \<Rightarrow> Some (Inr (json_text False (GRPC_Config_json grpc_Example)))
      | Slack_Plugin_Config _ \<Rightarrow> None)"

text \<open>The encoder for a suite whose description is the text of a marshalled value; it ends with a newline.\<close>

definition encode_suite :: "SuiteConfig \<Rightarrow> string + string" where
  "encode_suite c =
     (case sc_Suite c of
        None \<Rightarrow> Inr (json_layout indented False 0 (SuiteConfig_json c None) @ [CHR 0x0A])
      | Some b \<Rightarrow>
          (case json_decode b of
             None \<Rightarrow> Inl ''json: error calling MarshalJSON''
           | Some v \<Rightarrow> Inr (json_layout indented False 0 (SuiteConfig_json c (Some v)) @ [CHR 0x0A])))"

subsection \<open>Decoding with the surroundings\<close>

lemma codec_simps [simp]:
  "open_file (codec_env files regexps msg frac reg) = files"
  "compile_regexp (codec_env files regexps msg frac reg) = regexps"
  "plugins (codec_env files regexps msg frac reg) = reg"
  by (simp_all add: codec_env_def)

lemma or_error_Inr [simp]: "or_error msg s r = Inr x \<longleftrightarrow> r = Some x"
  by (simp add: or_error_def split: option.split)

lemma Decode_struct:
  assumes "good v" and "blank L" and "stop r"
  shows "Decode dec (json_layout L srt d v @ r) old = dec (json_layout L srt d v) old"
  using value_span_layout [OF assms(2,1,3), of "[]"] by (simp add: Decode_def)

lemma Unmarshal_dec_plugin:
  "Unmarshal dec_plugin b (HTTP_Config h) = map_option HTTP_Config (Unmarshal (dec_struct HTTP_Config_fields) b h)"
  "Unmarshal dec_plugin b (GRPC_Config g) = map_option GRPC_Config (Unmarshal (dec_struct GRPC_Config_fields) b g)"
  by (simp_all add: Unmarshal_def Decode_def dec_plugin_def split: option.split prod.split)

lemma unmarshal_configs:
  assumes "blank L"
  shows "http_config_ok h \<Longrightarrow> unmarshal (codec_env files regexps msg frac reg)
      (json_layout L False d (HTTP_Config_json h)) (HTTP_Config zero_http_config) = Inr (HTTP_Config h)"
    "grpc_config_ok g \<Longrightarrow> unmarshal (codec_env files regexps msg frac reg)
      (json_layout L False d (GRPC_Config_json g)) (GRPC_Config zero_grpc_config) = Inr (GRPC_Config g)"
  by (simp_all add: codec_env_def Unmarshal_dec_plugin http_suite_doc.unmarshal_enc grpc_suite_doc.unmarshal_enc assms)

lemma decode_suite_layout:
  assumes "suite_config_ok c" and "pred_option good suite" and "blank L" and "stop r"
  shows "decode_suite (codec_env files regexps msg frac reg) (json_layout L False 0 (SuiteConfig_json c suite) @ r) old =
    Inr (suite_over c (map_option (json_layout L False 1) suite) old)"
  using SuiteConfig_reads [OF assms(1-3), of frac 0 old]
  by (simp add: codec_env_def Decode_struct [OF SuiteConfig_good [OF assms(1,2)] assms(3,4)])

lemma Example_ok: "http_config_ok Example"
  by (simp add: http_config_ok_def Example_def base_ok_def test_ok_def request_ok_def expect_ok_def, code_simp)

lemma grpc_Example_ok: "grpc_config_ok grpc_Example"
  by (simp add: grpc_config_ok_def grpc_Example_def grpc_test_ok_def, code_simp)

lemma example_json:
  "good (HTTP_Config_json Example)" "json_decode (json_text False (HTTP_Config_json Example)) = Some (HTTP_Config_json Example)"
  "good (GRPC_Config_json grpc_Example)"
  "json_decode (json_text False (GRPC_Config_json grpc_Example)) = Some (GRPC_Config_json grpc_Example)"
proof -
  show http: "good (HTTP_Config_json Example)" by (rule http_suite_doc.good_enc [OF Example_ok])
  show grpc: "good (GRPC_Config_json grpc_Example)" by (rule grpc_suite_doc.good_enc [OF grpc_Example_ok])
  have "no_empty_number (HTTP_Config_json Example)" and "no_empty_number (GRPC_Config_json grpc_Example)"
    by code_simp+
  with http grpc show "json_decode (json_text False (HTTP_Config_json Example)) = Some (HTTP_Config_json Example)"
    and "json_decode (json_text False (GRPC_Config_json grpc_Example)) = Some (GRPC_Config_json grpc_Example)"
    by (simp_all add: decode_layout)
qed

subsection \<open>Properties\<close>


definition demo_suite :: SuiteConfig where
  "demo_suite = zero_SuiteConfig\<lparr>sc_Name := ''demo'', sc_RetryCount := 3, sc_Type := ''HTTP''\<rparr>"


text \<open>
  C39: Configuration documents are strict. A suite file with a member whose key is not the name of one of the
  ten fields, up to the case of its letters, does not load, whatever its other members are.
\<close>

theorem unknown_field_refused:
  assumes "value_span doc = Some (t, rest)" and "object_members t = Some ms" and "(k, v) \<in> set ms"
    and "fold_key k \<notin> fold_key ` {''path'', ''name'', ''runEvery'', ''runCron'', ''retryCount'', ''retryWait'',
      ''timeout'', ''failFast'', ''type'', ''suite''}"
  shows "NewSuiteFromReader (codec_env files regexps msg frac reg) (doc, p) opts = Ret (Inl (Bad_Suite (msg doc)))"
proof -
  have "set (map fst (SuiteConfig_fields frac)) = {''path'', ''name'', ''runEvery'', ''runCron'', ''retryCount'',
      ''retryWait'', ''timeout'', ''failFast'', ''type'', ''suite''}"
    by (simp add: SuiteConfig_fields_def suite_settings_def insert_commute)
  with assms(4) have "fold_key k \<notin> fold_key ` set (map fst (SuiteConfig_fields frac))" by simp
  then have "find_field (SuiteConfig_fields frac) k = None" by (metis find_field_None image_eqI list.set_map)
  from set_fields_unknown [OF assms(3) this]
  have "dec_struct (SuiteConfig_fields frac) t r = None" for r
    using assms(2) by (auto simp: dec_struct_def is_null_def object_members_def)
  then show ?thesis
    using assms(1) by (simp add: NewSuiteFromReader_def codec_env_def Decode_def or_error_def)
qed

theorem unknown_field_refused_witness:
  "NewSuiteFromReader (codec_env (\<lambda>_. Inl ''none'') (\<lambda>_. Inl ''none'') (\<lambda>s. s) (\<lambda>_ _ _. 0)
      ([] :: (plugin_config, (nat, nat) app_instance) registry)) (''{'' @ enc_string ''retries'' @ '':1}'', None) [] =
    Ret (Inl (Bad_Suite (''{'' @ enc_string ''retries'' @ '':1}'')))"
proof (rule unknown_field_refused)
  show "value_span (''{'' @ enc_string ''retries'' @ '':1}'') = Some (''{'' @ enc_string ''retries'' @ '':1}'', [])"
    and "object_members (''{'' @ enc_string ''retries'' @ '':1}'') = Some [(''retries'', ''1'')]"
    by code_simp+
  show "(''retries'', ''1'') \<in> set [(''retries'', ''1'')]" by simp
  show "fold_key ''retries'' \<notin> fold_key ` {''path'', ''name'', ''runEvery'', ''runCron'', ''retryCount'', ''retryWait'',
      ''timeout'', ''failFast'', ''type'', ''suite''}"
    by code_simp
qed



text \<open>The suite that the example of a plugin describes, from a file.\<close>

definition example_suite ::
  "('cc, 'ds, 'm, 'w) app_env \<Rightarrow> string \<Rightarrow> string \<Rightarrow> (string + ('m, 'w) app_instance) run" where
  "example_suite env typ path =
     (if typ = ''GRPC'' then grpc_suite env (grpc_Example\<lparr>gr_Path := path, gr_Root := path_dir path\<rparr>)
      else http_suite env (Example\<lparr>hc_Path := path, hc_Root := path_dir path\<rparr>))"

abbreviation suite_type :: "string list \<Rightarrow> string" where
  "suite_type args \<equiv> (if args \<noteq> [] \<and> hd args \<noteq> [] then hd args else ''HTTP'')"

lemma init_writes:
  assumes reg: "app_registry env = Ret reg" and "in_example ienv = marshal_example" and "in_encode ienv = encode_suite"
    and "in_getwd ienv = Inr dir" and "init_Run ienv reg args = (None, Some (path, content))"
  obtains v where "content = json_layout indented False 0 (SuiteConfig_json
      (zero_SuiteConfig\<lparr>sc_Name := in_title ienv (path_base dir), sc_Type := suite_type args\<rparr>) (Some v)) @ [CHR 0x0A]"
    "suite_type args = ''HTTP'' \<and> v = HTTP_Config_json Example \<or>
     suite_type args = ''GRPC'' \<and> v = GRPC_Config_json grpc_Example"
proof -
  let ?name = "in_title ienv (path_base dir)"
  let ?conf = "\<lambda>typ v. \<lparr>sc_Path = [], sc_Name = ?name, sc_RunEvery = 0, sc_RunCron = [], sc_RetryCount = 0,
      sc_RetryWait = 0, sc_Timeout = 0, sc_FailFast = False, sc_Type = typ, sc_Suite = Some (json_text False v),
      sc_baseSuite = None, sc_filter = []\<rparr>"
  define ty where "ty = suite_type args"
  from assms obtain r where "Get reg TestSuitePlugin ty = Some r"
    by (auto simp: init_Run_def ty_def Let_def split: option.splits)
  with app_Get(1) [OF reg, of ty] consider "ty = ''GRPC''" "Get reg TestSuitePlugin ty = Some (grpc_registration env)"
    | "ty = ''HTTP''" "Get reg TestSuitePlugin ty = Some (http_registration env)"
    by (auto split: if_splits)
  then obtain v where v: "encode_suite (?conf ty v) = Inr content"
    "ty = ''HTTP'' \<and> v = HTTP_Config_json Example \<or> ty = ''GRPC'' \<and> v = GRPC_Config_json grpc_Example"
  proof cases
    case 1
    with assms(2-5) that [of "GRPC_Config_json grpc_Example"] show thesis
      by (auto simp: init_Run_def Let_def marshal_example_def grpc_registration_def simp flip: ty_def
          split: option.splits sum.splits simp del: json_layout.simps)
  next
    case 2
    with assms(2-5) that [of "HTTP_Config_json Example"] show thesis
      by (auto simp: init_Run_def Let_def marshal_example_def http_registration_def simp flip: ty_def
          split: option.splits sum.splits simp del: json_layout.simps)
  qed
  from v(2) example_json have "json_decode (json_text False v) = Some v" by blast
  with v(1) have "content = json_layout indented False 0 (SuiteConfig_json (?conf ty v) (Some v)) @ [CHR 0x0A]"
    by (simp add: encode_suite_def del: json_layout.simps)
  also have "SuiteConfig_json (?conf ty v) (Some v) =
      SuiteConfig_json (zero_SuiteConfig\<lparr>sc_Name := ?name, sc_Type := ty\<rparr>) (Some v)"
    by (simp add: SuiteConfig_json_def settings_members_def zero_SuiteConfig_def)
  finally show thesis using v(2) that unfolding ty_def by blast
qed

lemma example_unmarshals:
  assumes reg: "app_registry env = Ret reg"
    and "ty = ''HTTP'' \<and> v = HTTP_Config_json Example \<or> ty = ''GRPC'' \<and> v = GRPC_Config_json grpc_Example"
    and "blank L"
  obtains r ic c where "Get reg TestSuitePlugin ty = Some r" "NewContext r path = Ret ic"
    "unmarshal (codec_env files regexps msg frac reg) (json_layout L False d v) (ic_Config ic) = Inr c"
    "Init r (ic\<lparr>ic_Config := c\<rparr>) = example_suite env ty path"
  using assms(2)
proof
  assume http: "ty = ''HTTP'' \<and> v = HTTP_Config_json Example"
  show thesis
    by (rule that [of "http_registration env"
        "\<lparr>ic_Config = HTTP_Config zero_http_config, ic_Path = path, ic_Root = path_dir path\<rparr>" "HTTP_Config Example"])
      (use http unmarshal_configs(1) [OF assms(3) Example_ok] in
        \<open>simp_all add: app_Get [OF reg] NewContext_def http_registration_def Init_def example_suite_def\<close>)
next
  assume grpc: "ty = ''GRPC'' \<and> v = GRPC_Config_json grpc_Example"
  show thesis
    by (rule that [of "grpc_registration env"
        "\<lparr>ic_Config = GRPC_Config zero_grpc_config, ic_Path = path, ic_Root = path_dir path\<rparr>" "GRPC_Config grpc_Example"])
      (use grpc unmarshal_configs(2) [OF assms(3) grpc_Example_ok] in
        \<open>simp_all add: app_Get [OF reg] NewContext_def grpc_registration_def Init_def example_suite_def\<close>)
qed


definition demo_init :: "plugin_config init_env" where
  "demo_init = \<lparr>in_example = marshal_example, in_mkdir = None, in_getwd = Inr ''/w'', in_create = (\<lambda>_. None),
     in_title = (\<lambda>s. s), in_encode = encode_suite\<rparr>"


end
