(* ===== verification/Serving.thy ===== *)
theory Serving
  imports Commands
begin

text \<open>
  What \<open>run\<close> does between the start of its server and the signal that ends it: the timers of the scheduler
  fire, the suites run and are scheduled again, time passes, and nothing else happens to the scheduler, as
  the command calls none of its operations.
\<close>

subsection \<open>A server that serves goes on serving\<close>

lemma internal_not_takes_away: "internal l \<Longrightarrow> \<not> takes_away l"
  by (cases l) (simp_all add: internal_def takes_away_def)

lemma same_jobs_refl: "list_all2 same_job xs xs"
  by (simp add: list_all2_conv_all_nth same_job_def)

lemma schedule_same_job:
  assumes "schedule cn i s = Ret s'"
  shows "list_all2 same_job (objs s) (objs s')"
  using assms
  by (cases "i < length (objs s)")
    (auto simp: list_all2_conv_all_nth nth_list_update same_job_def list_update_beyond elim!: schedule_Ret)

lemma internal_frame:
  assumes "step cn pc s l s'" and "internal l"
  shows "jobs s' = jobs s" "list_all2 same_job (objs s) (objs s')"
proof -
  from assms(1) show "jobs s' = jobs s"
    by cases (use assms(2) in \<open>auto simp: internal_def elim!: schedule_Ret\<close>)
  from assms(1) show "list_all2 same_job (objs s) (objs s')"
  proof cases
    case (finish i)
    from schedule_same_job [OF finish(3)] show ?thesis by simp
  qed (use assms(2) in \<open>simp_all add: internal_def same_jobs_refl\<close>)
qed

lemma step_serving:
  assumes "step cn pc s l s'" and "internal l" and "serving pc n suites s"
  shows "serving pc n suites s'"
proof -
  from assms(3) have s: "core s" "running s" "alive s" "idle_until_started s"
    "jobs s = zip (map s_path suites) [0..<length suites]"
    "list_all2 same_job (map (suite_job pc n) suites) (objs s)"
    by (simp_all add: serving_def idle_until_started_def)
  note inv = step_core [OF assms(1) s(1,4)] step_running [OF assms(1) s(2)]
    step_alive [OF assms(1) s(1,4,3) internal_not_takes_away [OF assms(2)]]
  from list_all2_trans [OF same_job_trans s(6) internal_frame(2) [OF assms(1,2)]]
  show ?thesis using inv internal_frame(1) [OF assms(1,2)] s(5) by (simp add: serving_def)
qed

lemma steps_serving:
  "steps cn pc s ls s' \<Longrightarrow> \<forall>l \<in> set ls. internal l \<Longrightarrow> serving pc n suites s \<Longrightarrow> serving pc n suites s'"
  by (induction rule: steps.induct) (auto dest: step_serving)

subsection \<open>The pace of a job\<close>

text \<open>The clock has passed \<open>b\<close>, and what is pending for the job \<open>i\<close> is due at \<open>b + d\<close> or later.\<close>

definition paced :: "nat \<Rightarrow> int \<Rightarrow> int \<Rightarrow> ('j, 'c) sched \<Rightarrow> bool" where
  "paced i d b s \<longleftrightarrow> j_interval (objs s ! i) = d \<and> b \<le> clock s \<and>
     (\<forall>(t, j, due) \<in> set (timers s). j = i \<longrightarrow> b + d \<le> due)"

lemma paced_cong:
  "paced i d b s \<Longrightarrow> objs s' = objs s \<Longrightarrow> clock s \<le> clock s' \<Longrightarrow> set (timers s') \<subseteq> set (timers s)
    \<Longrightarrow> paced i d b s'"
  by (auto simp: paced_def)

lemma schedule_paced:
  assumes "paced i d b s" and "0 < d" and "schedule cn k s = Ret s'"
  shows "paced i d b s'"
proof -
  from assms(3) obtain dl where dl: "timeUntilNextRun cn (clock s) (objs s ! k) = Ret dl"
    "s' = s\<lparr>objs := (objs s)[k := (objs s ! k)\<lparr>j_timer := Some (next_timer s)\<rparr>],
       timers := timers s @ [(next_timer s, k, clock s + max 0 dl)], next_timer := Suc (next_timer s)\<rparr>"
    by (rule schedule_Ret)
  have "j_interval (objs s' ! i) = j_interval (objs s ! i)"
    by (cases "k < length (objs s)"; cases "i = k") (simp_all add: dl(2) list_update_beyond)
  moreover have "dl = d" if "k = i"
    using dl(1) assms(1,2) that by (simp add: paced_def timeUntilNextRun_def)
  ultimately show ?thesis using assms(1,2) by (auto simp: paced_def dl(2))
qed

lemma fire_paced:
  assumes "core s" and "step cn pc s (L_Fire i) s'" and "paced i d b s"
  shows "paced i d (b + d) s'"
proof -
  from assms(2) obtain t due where t: "(t, i, due) \<in> set (timers s)" "due \<le> clock s"
    "s' = s\<lparr>timers := filter (\<lambda>(t', _). t' \<noteq> t) (timers s), active := i # active s\<rparr>"
    by (auto simp: step_fire)
  have "t' = t" if "(t', i, due') \<in> set (timers s)" for t' due'
    using coreD(5) [OF assms(1) that] coreD(5) [OF assms(1) t(1)] by simp
  then have none: "\<forall>(t', j, due') \<in> set (timers s'). j \<noteq> i" by (auto simp: t(3))
  from assms(3) t(1) have "b + d \<le> due" by (auto simp: paced_def)
  with t(2) have "b + d \<le> clock s'" by (simp add: t(3))
  with none assms(3) show ?thesis by (auto simp: paced_def t(3))
qed

lemma step_paced:
  assumes "step cn pc s l s'" and "internal l" and "core s" and "paced i d b s" and "0 < d"
  shows "paced i d (if l = L_Fire i then b + d else b) s'"
proof (cases "l = L_Fire i")
  case True
  with fire_paced [OF assms(3) _ assms(4)] assms(1) show ?thesis by simp
next
  case False
  from assms(1) have "paced i d b s'"
  proof cases
    case (fire t k due)
    then show ?thesis by (intro paced_cong [OF assms(4)]) auto
  next
    case (finish k)
    have "paced i d b (s\<lparr>active := remove1 k (active s)\<rparr>)" using assms(4) by (simp add: paced_def)
    from schedule_paced [OF this assms(5) finish(3)] show ?thesis .
  next
    case (tick e)
    then show ?thesis by (intro paced_cong [OF assms(4)]) auto
  qed (use assms(2) in \<open>simp_all add: internal_def\<close>)
  with False show ?thesis by simp
qed

lemma steps_paced:
  "steps cn pc s ls s' \<Longrightarrow> \<forall>l \<in> set ls. internal l \<Longrightarrow> core s \<Longrightarrow> running s \<Longrightarrow> paced i d b s \<Longrightarrow> 0 < d
    \<Longrightarrow> paced i d (b + int (count_list ls (L_Fire i)) * d) s'"
proof (induction rule: steps.induct)
  case (none s)
  then show ?case by simp
next
  case (more s ls s' l s'')
  then have p: "paced i d (b + int (count_list ls (L_Fire i)) * d) s'" by simp
  from more.prems(2,3) steps_core [OF more.hyps(1)] have "core s'" by (simp add: idle_until_started_def)
  from step_paced [OF more.hyps(2) _ this p more.prems(5)] more.prems(1) show ?case
    by (auto simp: algebra_simps split: if_splits)
qed

text \<open>The server that \<open>run\<close> starts is in such a state, and its first runs are due after their intervals.\<close>

lemma run_start_state:
  assumes "run_start cn pc env config = Ret (Inr srv)"
  obtains ss n where "run_load env config = Ret (Inr (ss, n))" "distinct (map s_path ss)"
    "\<forall>s \<in> set ss. has_rule pc s" "serving pc n ss (sch srv)" "active (sch srv) = []"
    "\<And>i. 0 < j_interval (objs (sch srv) ! i) \<Longrightarrow>
      paced i (j_interval (objs (sch srv) ! i)) (clock (sch srv)) (sch srv)"
proof -
  from assms obtain ss n where load: "run_load env config = Ret (Inr (ss, n))"
    and start: "bind_run (add_each (AddSuite cn pc) ss (Server_New n)) (\<lambda>(e, srv).
         case e of
           Some e' \<Rightarrow> Ret (Inl (Server_Refused e'))
         | None \<Rightarrow>
             bind_run (Server_Start cn srv) (\<lambda>(e, srv1).
               Ret (case e of Some e' \<Rightarrow> Inl (Server_Refused e') | None \<Rightarrow> Inr srv1))) = Ret (Inr srv)"
    by (auto simp: run_start_def and_then_Inr_iff)
  from start obtain srv0 where add: "add_each (AddSuite cn pc) ss (Server_New n) = Ret (None, srv0)"
    and started: "Server_Start cn srv0 = Ret (None, srv)"
    by (auto simp: bind_run_Ret_iff case_Ret_iff split: option.splits)
  from server_suites.add_each_result [of cn pc ss "Server_New n"] add
  have ok: "distinct (map s_path ss)" "\<forall>s \<in> set ss. has_rule pc s"
    by (auto simp: server_suites.acceptable_def)
  from server_start_state [OF this, of cn n] add started obtain s where
    s: "srv = \<lparr>sch = s, srv_notifier = n\<rparr>" "serving pc n ss s" "active s = []"
    and due: "\<forall>t i due. (t, i, due) \<in> set (timers s) \<and> 0 < j_interval (objs s ! i)
       \<longrightarrow> due = clock s + j_interval (objs s ! i)" by auto
  show ?thesis
  proof (rule that [OF load ok])
    show "paced i (j_interval (objs (sch srv) ! i)) (clock (sch srv)) (sch srv)"
      if "0 < j_interval (objs (sch srv) ! i)" for i
      using due that by (auto simp: paced_def s(1))
  qed (simp_all add: s)
qed

subsection \<open>Properties\<close>

text \<open>
  C27: The \<open>run\<close> command at work. When it starts its server without an error, the suites of the
  configuration have distinct paths and usable rules; and from then on, after any sequence of timers that
  fire, runs that end and time that passes, the jobs are these suites, one for each under its path, with the
  notifier of the configuration; each waits on one timer or is running, never both and never neither; and a
  suite with an interval and no cron expression has been run at most once for every interval that has passed
  since the start.
\<close>

theorem run_serves:
  assumes "run_start cn pc env config = Ret (Inr srv)"
    and "steps cn pc (sch srv) ls s" and "\<forall>l \<in> set ls. internal l"
  shows "\<exists>ss n. run_load env config = Ret (Inr (ss, n)) \<and>
    map j_job (objs s) = map (\<lambda>suite. \<lparr>sr_s = suite, sr_n = n\<rparr>) ss \<and>
    distinct (map s_path ss) \<and>
    (\<forall>k < length ss. has_rule pc (ss ! k) \<and> map_of (jobs s) (s_path (ss ! k)) = Some k \<and>
       length (filter (\<lambda>(_, j, _). j = k) (timers s)) + count_list (active s) k = 1 \<and>
       (s_runCron (ss ! k) = [] \<longrightarrow>
          int (count_list ls (L_Fire k)) * s_runEvery (ss ! k) \<le> clock s - clock (sch srv)))"
  using assms(1)
proof (rule run_start_state)
  fix ss n
  assume load: "run_load env config = Ret (Inr (ss, n))" and d: "distinct (map s_path ss)"
    and rules: "\<forall>s \<in> set ss. has_rule pc s" and start: "serving pc n ss (sch srv)"
    and pace: "\<And>i. 0 < j_interval (objs (sch srv) ! i) \<Longrightarrow>
      paced i (j_interval (objs (sch srv) ! i)) (clock (sch srv)) (sch srv)"
  note s = steps_serving [OF assms(2,3) start]
  from s have same: "list_all2 same_job (map (suite_job pc n) ss) (objs s)" by (simp add: serving_def)
  have jobs: "map j_job (objs s) = map (\<lambda>suite. \<lparr>sr_s = suite, sr_n = n\<rparr>) ss"
    using list_all2_lengthD [OF same] list_all2_nthD2 [OF same]
    by (intro nth_equalityI) (auto simp: same_job_def suite_job_def)
  have "int (count_list ls (L_Fire k)) * s_runEvery (ss ! k) \<le> clock s - clock (sch srv)"
    if k: "k < length ss" "s_runCron (ss ! k) = []" for k
  proof -
    have int: "j_interval (objs (sch srv) ! k) = s_runEvery (ss ! k)" and pos: "0 < s_runEvery (ss ! k)"
      using serving_job(2) [OF start d k(1)] rules nth_mem [OF k(1)] k(2) by (auto simp: same_job_def suite_job_def has_rule_def)
    from start have inv: "core (sch srv)" "running (sch srv)" by (simp_all add: serving_def)
    from steps_paced [OF assms(2,3) inv pace [of k, unfolded int, OF pos] pos]
    show ?thesis by (simp add: paced_def)
  qed
  with load jobs d rules serving_job(1,3) [OF s d] show ?thesis
    by (intro exI [of _ ss] exI [of _ n]) (simp add: tokens_def)
qed

text \<open>The witness: a suite with an interval of a minute, and one of its runs.\<close>

lemma demo_run_started:
  "\<exists>srv t due. run_start no_next no_cron demo_run_env ''/d/config.json'' = Ret (Inr srv) \<and>
     (t, 0, due) \<in> set (timers (sch srv)) \<and> due = clock (sch srv) + 60000000000"
proof -
  obtain suite where load: "run_load demo_run_env ''/d/config.json'' = Ret (Inr ([suite], None))"
    and rule: "has_rule no_cron suite" "s_runCron suite = []" "s_runEvery suite = 60000000000"
    by (rule demo_run_load)
  have d: "distinct (map s_path [suite])" "\<forall>s \<in> set [suite]. has_rule no_cron s" using rule by simp_all
  from server_start_state [OF this, of no_next None] obtain srv s where
    srv: "add_each (AddSuite no_next no_cron) [suite] (Server_New None) = Ret (None, srv)"
      "Server_Start no_next srv = Ret (None, \<lparr>sch = s, srv_notifier = None\<rparr>)"
    and s: "serving no_cron None [suite] s" "active s = []"
    and due: "\<forall>t i due. (t, i, due) \<in> set (timers s) \<and> 0 < j_interval (objs s ! i)
       \<longrightarrow> due = clock s + j_interval (objs s ! i)" by blast
  have "j_interval (objs s ! 0) = 60000000000"
    using serving_job(2) [OF s(1) d(1), of 0] rule by (simp add: same_job_def suite_job_def)
  with due have due: "due = clock s + 60000000000" if "(t, 0, due) \<in> set (timers s)" for t due
    using that by fastforce
  have "filter (\<lambda>(_, j, _). j = 0) (timers s) \<noteq> []"
    using serving_job(3) [OF s(1) d(1), of 0] s(2) by (auto simp: tokens_def)
  then obtain t due where t: "(t, 0, due) \<in> set (timers s)" by (auto simp: filter_empty_conv)
  have "run_start no_next no_cron demo_run_env ''/d/config.json'' = Ret (Inr \<lparr>sch = s, srv_notifier = None\<rparr>)"
    using srv by (simp add: run_start_def load)
  with t due [OF t] show ?thesis
    by (intro exI [of _ "\<lparr>sch = s, srv_notifier = None\<rparr>"] exI [of _ t] exI [of _ due]) simp
qed

theorem run_serves_witness:
  "\<exists>srv s. run_start no_next no_cron demo_run_env ''/d/config.json'' = Ret (Inr srv) \<and>
     steps no_next no_cron (sch srv) [L_Tick 60000000000, L_Fire 0] s \<and>
     length (filter (\<lambda>(_, j, _). j = 0) (timers s)) + count_list (active s) 0 = 1"
proof -
  obtain srv t due where srv: "run_start no_next no_cron demo_run_env ''/d/config.json'' = Ret (Inr srv)"
    "(t, 0, due) \<in> set (timers (sch srv))" "due = clock (sch srv) + 60000000000"
    using demo_run_started by blast
  let ?s = "(sch srv)\<lparr>clock := clock (sch srv) + 60000000000\<rparr>"
  have "step no_next no_cron (sch srv) (L_Tick 60000000000) ?s" by (rule step.tick) simp
  moreover have "\<exists>s. step no_next no_cron ?s (L_Fire 0) s" using srv(2,3) by (auto simp: step_fire)
  ultimately obtain s where run: "steps no_next no_cron (sch srv) [L_Tick 60000000000, L_Fire 0] s"
    using steps.more [OF steps.more [OF steps.none]] by fastforce
  then have "\<exists>ss n. run_load demo_run_env ''/d/config.json'' = Ret (Inr (ss, n)) \<and>
      (\<forall>k < length ss. length (filter (\<lambda>(_, j, _). j = k) (timers s)) + count_list (active s) k = 1)"
    using run_serves [OF srv(1) run] by (fastforce simp: internal_def)
  with run srv(1) show ?thesis using demo_run_load by fastforce
qed

end
